(* ===== verification/Prelude.thy ===== *)
theory Prelude
  imports Main "HOL-Library.Word" "HOL-Library.Monad_Syntax"
begin

text \<open>
  What every component shares: bytes and machine words, Go's panics as \<open>None\<close>,
  error values, and Go slices.

  A Go slice is a window of an array: its elements up to its length, and the elements
  between its length and its capacity, which an expression such as \<open>b[:n]\<close> can still
  reach. \<open>Slice vis spare\<close> holds exactly these two parts. The slice operations return
  \<open>None\<close> where the Go runtime panics. A Go function that writes through a sub-slice
  \<open>b[off:]\<close> writes into the array of \<open>b\<close>; the model threads the written sub-slice
  back with \<open>splice\<close>.

  A Go function with results \<open>(x, err)\<close> returns a pair whose second part is
  \<open>None\<close> for the error \<open>nil\<close>. Go ints that the code only ever passes as lengths and
  counts are \<open>nat\<close>; values that wrap around are words.
\<close>

unbundle bit_operations_syntax

named_theorems slice_ops \<open>definitions of the slice operations\<close>
named_theorems enc_simps \<open>facts about the reference encodings\<close>
named_theorems wire_defs \<open>constants of the wire formats\<close>

type_synonym byte = "8 word"
type_synonym u32 = "32 word"
type_synonym u64 = "64 word"

text \<open>Panics are \<open>None\<close>: \<open>Ret\<close> and \<open>Panic\<close> name the two outcomes of a call.\<close>

abbreviation (input) Ret :: "'a \<Rightarrow> 'a option" where "Ret \<equiv> Some"
abbreviation (input) Panic :: "'a option" where "Panic \<equiv> None"

datatype gerr =
    ErrUnterminatedSequence
  | ErrInsufficientSpace
  | ErrInvalidAddress
  | ErrUnknownDataType byte
  | ErrEOF
  | ErrUnexpectedEOF
  | ErrFrameLength u32 u32
  | ErrFrameLimit u64
  | ErrFrameExceeds u64 u32
  | ErrCanceled
  | ErrConnReset
  | ErrNetClosed
  | ErrFormat string
  | ErrFormatNat string nat
  | ErrWrite
  | ErrWrap string gerr

text \<open>
  \<open>if err := m; err != nil { return err }\<close> followed by the rest \<open>k\<close> of the function: the
  state written so far is kept on both paths.
\<close>

definition then_ok ::
  "('w \<times> gerr option) option \<Rightarrow> ('w \<Rightarrow> ('w \<times> gerr option) option) \<Rightarrow> ('w \<times> gerr option) option" where
  "then_ok m k =
     do {
       (w, err) \<leftarrow> m;
       case err of Some e \<Rightarrow> Ret (w, Some e) | None \<Rightarrow> k w
     }"

lemma then_ok_simps [simp]:
  "then_ok (Ret (w, None)) k = k w"
  "then_ok (Ret (w, Some e)) k = Ret (w, Some e)"
  "then_ok Panic k = Panic"
  by (simp_all add: then_ok_def)

lemma then_ok_Ret_None:
  "then_ok m k = Ret (w', None) \<longleftrightarrow> (\<exists>w. m = Ret (w, None) \<and> k w = Ret (w', None))"
  by (auto simp: then_ok_def bind_eq_Some_conv split: option.splits)

section \<open>Slices\<close>

datatype slice = Slice (vis: "byte list") (spare: "byte list")

definition slen :: "slice \<Rightarrow> nat" where
  [slice_ops]: "slen b = length (vis b)"

definition scap :: "slice \<Rightarrow> nat" where
  [slice_ops]: "scap b = length (vis b) + length (spare b)"

text \<open>\<open>b[i]\<close> as a value and as the target of an assignment.\<close>

definition sget :: "slice \<Rightarrow> nat \<Rightarrow> byte option" where
  [slice_ops]: "sget b i = (if i < slen b then Ret (vis b ! i) else Panic)"

definition sset :: "slice \<Rightarrow> nat \<Rightarrow> byte \<Rightarrow> slice option" where
  [slice_ops]: "sset b i x = (if i < slen b then Ret (Slice ((vis b)[i := x]) (spare b)) else Panic)"

text \<open>
  \<open>b[i:]\<close>, whose upper bound is the length, and \<open>b[:j]\<close> and \<open>b[i:j]\<close>, whose upper
  bound may go up to the capacity.
\<close>

definition sfrom :: "slice \<Rightarrow> nat \<Rightarrow> slice option" where
  [slice_ops]: "sfrom b i = (if i \<le> slen b then Ret (Slice (drop i (vis b)) (spare b)) else Panic)"

definition sbetween :: "slice \<Rightarrow> nat \<Rightarrow> nat \<Rightarrow> slice option" where
  [slice_ops]: "sbetween b i j =
     (if i \<le> j \<and> j \<le> scap b
      then Ret (Slice (drop i (take j (vis b @ spare b))) (drop j (vis b @ spare b)))
      else Panic)"

definition supto :: "slice \<Rightarrow> nat \<Rightarrow> slice option" where
  [slice_ops]: "supto b j = sbetween b 0 j"

text \<open>
  \<open>make([]byte, n)\<close> panics beyond the allocator's limit: 2 to the 48 bytes on the 64-bit
  platforms. \<open>copy(dst, src)\<close> stops at the shorter of the two.
\<close>

definition max_alloc :: nat where
  [slice_ops]: "max_alloc = 2 ^ 48"

definition smake :: "nat \<Rightarrow> slice option" where
  [slice_ops]: "smake n = (if n \<le> max_alloc then Ret (Slice (replicate n 0) []) else Panic)"

definition scopy :: "slice \<Rightarrow> byte list \<Rightarrow> slice \<times> nat" where
  [slice_ops]: "scopy dst src =
     (let n = min (slen dst) (length src)
      in (Slice (take n src @ drop n (vis dst)) (spare dst), n))"

text \<open>\<open>t\<close>, taken from \<open>b\<close> at offset \<open>off\<close>, was written through: the new contents of \<open>b\<close>.\<close>

definition splice :: "slice \<Rightarrow> nat \<Rightarrow> slice \<Rightarrow> slice" where
  [slice_ops]: "splice b off t =
     (let all = take off (vis b) @ vis t @ spare t
      in Slice (take (slen b) all) (drop (slen b) all))"

lemma slen_Slice [simp]: "slen (Slice v s) = length v"
  by (simp add: slen_def)

lemma slen_vis [simp]: "length (vis b) = slen b"
  by (simp add: slen_def)

lemma sfrom_0 [simp]: "sfrom b 0 = Ret b"
  by (cases b) (simp add: sfrom_def)

lemma sfrom_append [simp]: "sfrom (Slice (xs @ ys) s) (length xs) = Ret (Slice ys s)"
  by (simp add: sfrom_def)

lemma supto_append [simp]: "supto (Slice (xs @ ys) s) (length xs) = Ret (Slice xs (ys @ s))"
  by (simp add: supto_def sbetween_def scap_def)

lemma sget_append [simp]: "sget (Slice (x # xs) s) 0 = Ret x"
  by (simp add: sget_def)

lemma splice_tail:
  assumes "slen t = length ys"
  shows "splice (Slice (xs @ ys) s) (length xs) t = Slice (xs @ vis t) (spare t)"
  using assms by (simp add: splice_def Let_def)

section \<open>Big-endian integers of 32 bits (encoding/binary)\<close>

definition be32 :: "u32 \<Rightarrow> byte list" where
  "be32 w = [ucast (drop_bit 24 w), ucast (drop_bit 16 w), ucast (drop_bit 8 w), ucast w]"

definition be32_val :: "byte list \<Rightarrow> u32" where
  "be32_val xs = push_bit 24 (ucast (xs ! 0)) OR push_bit 16 (ucast (xs ! 1))
     OR push_bit 8 (ucast (xs ! 2)) OR ucast (xs ! 3)"

definition PutUint32 :: "slice \<Rightarrow> u32 \<Rightarrow> slice option" where
  "PutUint32 b w =
     (if slen b < 4 then Panic else Ret (Slice (be32 w @ drop 4 (vis b)) (spare b)))"

definition Uint32 :: "slice \<Rightarrow> u32 option" where
  "Uint32 b = (if slen b < 4 then Panic else Ret (be32_val (take 4 (vis b))))"

lemma length_be32 [simp]: "length (be32 w) = 4"
  by (simp add: be32_def)

lemma be32_val_be32 [simp]: "be32_val (be32 w) = w"
  unfolding be32_val_def be32_def
  by (rule bit_word_eqI)
    (auto simp: bit_or_iff bit_push_bit_iff bit_ucast_iff bit_drop_bit_eq nth_Cons' not_less
      split: if_splits nat_diff_split_asm nat_diff_split)

lemma Uint32_be32 [simp]: "Uint32 (Slice (be32 w @ ys) s) = Ret w"
  by (simp add: Uint32_def)

lemma PutUint32_prefix [simp]:
  "length xs = 4 \<Longrightarrow> PutUint32 (Slice (xs @ ys) s) w = Ret (Slice (be32 w @ ys) s)"
  by (simp add: PutUint32_def)

section \<open>Text\<close>

text \<open>The bytes of a string, decimal numbers as \<open>fmt\<close> prints them, and \<open>strings.Join\<close>.\<close>

definition str :: "string \<Rightarrow> byte list" where
  "str s = map of_char s"

fun show_nat :: "nat \<Rightarrow> string" where
  "show_nat n = (if n < 10 then [char_of (48 + n)] else show_nat (n div 10) @ [char_of (48 + n mod 10)])"

declare show_nat.simps [simp del]

definition show_int :: "int \<Rightarrow> string" where
  "show_int i = (if i < 0 then CHR ''-'' # show_nat (nat (- i)) else show_nat (nat i))"

fun Join :: "byte list list \<Rightarrow> byte list \<Rightarrow> byte list" where
  "Join [] sep = []"
| "Join [x] sep = x"
| "Join (x # xs) sep = x @ sep @ Join xs sep"

section \<open>Loops that consume their input\<close>

text \<open>
  The contract of the receiving loops: every round that does not end the loop takes at least \<open>d\<close>
  bytes off the input that is \<open>left\<close>. Such a loop ends.
\<close>

locale consuming_loop =
  fixes round :: "'s \<Rightarrow> 's" and running :: "'s \<Rightarrow> bool" and inv :: "'s \<Rightarrow> bool"
    and left :: "'s \<Rightarrow> nat" and d :: nat
  assumes d_pos: "0 < d"
    and round_consumes: "inv s \<Longrightarrow> running s \<Longrightarrow> running (round s) \<Longrightarrow> inv (round s) \<and> left (round s) + d \<le> left s"
begin

lemma ends: "inv s \<Longrightarrow> \<exists>k \<le> left s div d + 1. \<not> running ((round ^^ k) s)"
proof (induction "left s" arbitrary: s rule: less_induct)
  case less
  consider (over) "\<not> running s" | (final) "running s" "\<not> running (round s)" | (more) "running s" "running (round s)"
    by blast
  then show ?case
  proof cases
    case over
    then show ?thesis by (intro exI [of _ 0]) simp
  next
    case final
    then show ?thesis by (intro exI [of _ 1]) simp
  next
    case more
    from round_consumes [OF less.prems more] d_pos have c: "inv (round s)" "left (round s) + d \<le> left s" "left (round s) < left s"
      by auto
    from less.hyps [OF c(3,1)] obtain k where k: "k \<le> left (round s) div d + 1" "\<not> running ((round ^^ k) (round s))"
      by blast
    have "(left (round s) + d) div d \<le> left s div d" using c(2) by (rule div_le_mono)
    moreover have "(left (round s) + d) div d = left (round s) div d + 1"
      using d_pos div_add_self2 [of d "left (round s)"] by simp
    ultimately have "Suc k \<le> left s div d + 1" using k(1) by linarith
    with k(2) show ?thesis by (metis comp_apply funpow_Suc_right)
  qed
qed

end

end
