(* ===== verification/SliceBuffer.thy ===== *)
theory SliceBuffer
  imports Prelude
begin

text \<open>
  The buffer of a frame (pkg/buffer/slicebuf.go): a slice with a read and a write offset. The
  methods that hand out a sub-slice return it beside the buffer; what is written to it goes
  back with \<open>write_back\<close>.
\<close>

record slicebuf =
  sb_buf :: slice
  sb_r :: nat
  sb_w :: nat

definition NewSliceBuffer :: "nat \<Rightarrow> slicebuf option" where
  "NewSliceBuffer n = do { b \<leftarrow> smake n; Ret \<lparr>sb_buf = b, sb_r = 0, sb_w = 0\<rparr> }"

definition NewSliceBufferWithSlice :: "slice \<Rightarrow> slicebuf" where
  "NewSliceBufferWithSlice b = \<lparr>sb_buf = b, sb_r = 0, sb_w = slen b\<rparr>"

definition buf_Reset :: "slicebuf \<Rightarrow> slicebuf" where
  "buf_Reset s = s\<lparr>sb_r := 0, sb_w := 0\<rparr>"

definition ReadBytes :: "slicebuf \<Rightarrow> slice option" where
  "ReadBytes s = sbetween (sb_buf s) (sb_r s) (sb_w s)"

definition WriteBytes :: "slicebuf \<Rightarrow> slice option" where
  "WriteBytes s = sfrom (sb_buf s) (sb_w s)"

definition Grow :: "nat \<Rightarrow> slicebuf \<Rightarrow> slicebuf option" where
  "Grow n s =
     (if int n \<le> int (slen (sb_buf s)) - int (sb_w s) then Ret s
      else do {
        buf \<leftarrow> smake (sb_w s + n);
        old \<leftarrow> supto (sb_buf s) (sb_w s);
        Ret (s\<lparr>sb_buf := fst (scopy buf (vis old))\<rparr>)
      })"

definition AdvanceR :: "nat \<Rightarrow> slicebuf \<Rightarrow> slicebuf" where
  "AdvanceR n s = s\<lparr>sb_r := sb_r s + n\<rparr>"

definition AdvanceW :: "nat \<Rightarrow> slicebuf \<Rightarrow> slicebuf" where
  "AdvanceW n s = s\<lparr>sb_w := sb_w s + n\<rparr>"

definition WriteNBytes :: "nat \<Rightarrow> slicebuf \<Rightarrow> (slicebuf \<times> slice) option" where
  "WriteNBytes n s =
     (let s = s\<lparr>sb_w := sb_w s + n\<rparr> in
      do {
        t \<leftarrow> sbetween (sb_buf s) (sb_w s - n) (sb_w s);
        Ret (s, t)
      })"

definition ReadNBytes :: "nat \<Rightarrow> slicebuf \<Rightarrow> (slicebuf \<times> slice) option" where
  "ReadNBytes n s =
     (let s = s\<lparr>sb_r := sb_r s + n\<rparr> in
      do {
        t \<leftarrow> sbetween (sb_buf s) (sb_r s - n) (sb_r s);
        Ret (s, t)
      })"

definition buf_Len :: "slicebuf \<Rightarrow> int" where
  "buf_Len s = int (sb_w s) - int (sb_r s)"

definition write_back :: "nat \<Rightarrow> slice \<Rightarrow> slicebuf \<Rightarrow> slicebuf" where
  "write_back off t s = s\<lparr>sb_buf := splice (sb_buf s) off t\<rparr>"

section \<open>The buffer in use: consumed, readable and free bytes\<close>

definition SB :: "byte list \<Rightarrow> byte list \<Rightarrow> byte list \<Rightarrow> byte list \<Rightarrow> slicebuf" where
  "SB dn dat free s =
     \<lparr>sb_buf = Slice (dn @ dat @ free) s, sb_r = length dn, sb_w = length dn + length dat\<rparr>"

lemma WriteBytes_SB: "WriteBytes (SB dn dat free s) = Ret (Slice free s)"
  by (simp add: WriteBytes_def SB_def sfrom_def)

lemma ReadBytes_SB: "ReadBytes (SB dn dat free s) = Ret (Slice dat (free @ s))"
  by (simp add: ReadBytes_def SB_def sbetween_def scap_def)

lemma buf_Len_SB [simp]: "buf_Len (SB dn dat free s) = int (length dat)"
  by (simp add: buf_Len_def SB_def)

lemma buf_Reset_SB: "buf_Reset (SB dn dat free s) = SB [] [] (dn @ dat @ free) s"
  by (simp add: buf_Reset_def SB_def)

lemma AdvanceR_SB: "length x = n \<Longrightarrow> AdvanceR n (SB dn (x @ dat) free s) = SB (dn @ x) dat free s"
  by (simp add: AdvanceR_def SB_def)

lemma AdvanceW_SB: "length x = n \<Longrightarrow> AdvanceW n (SB dn dat (x @ free) s) = SB dn (dat @ x) free s"
  by (simp add: AdvanceW_def SB_def)

lemma WriteNBytes_SB:
  "length x = n \<Longrightarrow> WriteNBytes n (SB dn dat (x @ free) s) =
     Ret (SB dn (dat @ x) free s, Slice x (free @ s))"
  by (simp add: WriteNBytes_def SB_def sbetween_def scap_def Let_def)

lemma ReadNBytes_SB:
  "length x = n \<Longrightarrow> ReadNBytes n (SB dn (x @ dat) free s) =
     Ret (SB (dn @ x) dat free s, Slice x (dat @ free @ s))"
  by (simp add: ReadNBytes_def SB_def sbetween_def scap_def Let_def)

lemma sb_w_SB [simp]: "sb_w (SB dn dat free s) = length dn + length dat"
  by (simp add: SB_def)

text \<open>Writing back the last bytes of the readable part, and the whole free part.\<close>

lemma write_back_SB:
  assumes "n + length y = length dn + length dat" and "length y \<le> length dat" and "z = free @ s"
  shows "write_back n (Slice y z) (SB dn dat free s) = SB dn (take (length dat - length y) dat @ y) free s"
proof -
  have "n - length dn = length dat - length y" and "length dn \<le> n" using assms(1,2) by arith+
  with assms show ?thesis by (simp add: write_back_def SB_def splice_def Let_def)
qed

lemma write_back_free_SB:
  "n = length dn + length dat \<Longrightarrow> length y = length free \<Longrightarrow>
   write_back n (Slice y s) (SB dn dat free s) = SB dn dat y s"
  by (simp add: write_back_def SB_def splice_def Let_def)

text \<open>Growing an empty buffer: what it held is lost, and it is never smaller than before.\<close>

lemma Grow_empty:
  assumes "n \<le> max_alloc"
  obtains x free' s' where "Grow n (SB [] [] free s) = Ret (SB [] [] (x @ free') s')" "length x = n"
    "n + length free' = max n (length free)"
proof (cases "n \<le> length free")
  case True
  then have "Grow n (SB [] [] free s) = Ret (SB [] [] (take n free @ drop n free) s)"
    by (simp add: Grow_def SB_def)
  moreover have "length (take n free) = n" using True by simp
  ultimately show ?thesis using that [of "take n free" "drop n free" s] True by simp
next
  case False
  with assms have "Grow n (SB [] [] free s) = Ret (SB [] [] (replicate n 0 @ []) [])"
    by (simp add: Grow_def SB_def smake_def supto_def sbetween_def scopy_def)
  then show ?thesis using that [of "replicate n 0" "[]" "[]"] False by simp
qed

end
