(* ===== verification/Varint.thy ===== *)
theory Varint
  imports Prelude
begin

text \<open>
  The variable-length integers of both protocols (pkg/encoding/varint.go): the encoder
  \<open>PutVarint\<close> and the decoders \<open>Varint\<close> (over a slice, by index) and \<open>ReadVarint\<close>
  (over an \<open>io.ByteReader\<close>, here the list of the bytes still to be read).
  \<open>varint_enc\<close> is the reference encoding the lemmas compare them with.
\<close>

section \<open>The code\<close>

fun ReadVarint_loop :: "u64 \<Rightarrow> nat \<Rightarrow> byte list \<Rightarrow> (u64 \<times> gerr option) \<times> byte list" where
  "ReadVarint_loop val r [] = ((0, Some ErrUnterminatedSequence), [])"
| "ReadVarint_loop val r (b # rd) =
     (let v = ucast b; val' = val + push_bit r v in
      if v < 128 then ((val', None), rd) else ReadVarint_loop val' (r + 7) rd)"

definition ReadVarint :: "byte list \<Rightarrow> (u64 \<times> gerr option) \<times> byte list" where
  "ReadVarint rd =
     (case rd of
        [] \<Rightarrow> ((0, Some ErrUnterminatedSequence), [])
      | b # rd' \<Rightarrow>
          (let val = ucast b in
           if val < 240 then ((val, None), rd') else ReadVarint_loop val 4 rd'))"

lemma unat_drop7: "128 \<le> (i::u64) \<Longrightarrow> unat (drop_bit 7 (i - 128)) = (unat i - 128) div 128"
  by (simp add: drop_bit_eq_div unat_div unat_sub word_le_nat_alt)

lemma unat_drop7_less: "128 \<le> (i::u64) \<Longrightarrow> unat (drop_bit 7 (i - 128)) < unat i"
  by (simp add: unat_drop7 word_le_nat_alt)

function PutVarint_loop :: "slice \<Rightarrow> nat \<Rightarrow> u64 \<Rightarrow> (slice \<times> nat \<times> gerr option) option" where
  "PutVarint_loop b n i =
     (if i \<ge> 128 then
        (if int n > int (slen b) - 1 then Ret (b, 0, Some ErrInsufficientSpace)
         else do {
           b \<leftarrow> sset b n (ucast i OR 128);
           PutVarint_loop b (n + 1) (drop_bit 7 (i - 128))
         })
      else if int n > int (slen b) - 1 then Ret (b, 0, Some ErrInsufficientSpace)
      else do {
        b \<leftarrow> sset b n (ucast i);
        Ret (b, n + 1, None)
      })"
  by pat_completeness auto
termination
  by (relation "measure (\<lambda>(b, n, i). unat i)") (auto simp: unat_drop7_less)

definition PutVarint :: "slice \<Rightarrow> u64 \<Rightarrow> (slice \<times> nat \<times> gerr option) option" where
  "PutVarint b i =
     (if slen b = 0 then Ret (b, 0, Some ErrInsufficientSpace)
      else if i < 240 then do {
        b \<leftarrow> sset b 0 (ucast i);
        Ret (b, 1, None)
      }
      else do {
        b \<leftarrow> sset b 0 (ucast i OR 240);
        PutVarint_loop b 1 (drop_bit 4 (i - 240))
      })"

function Varint_loop :: "slice \<Rightarrow> u64 \<Rightarrow> nat \<Rightarrow> nat \<Rightarrow> (u64 \<times> nat \<times> gerr option) option" where
  "Varint_loop b val off r =
     (if int off > int (slen b) - 1 then Ret (0, 0, Some ErrUnterminatedSequence)
      else do {
        x \<leftarrow> sget b off;
        let v = ucast x; val' = val + push_bit r v in
        if v < 128 then Ret (val', off + 1, None)
        else Varint_loop b val' (off + 1) (r + 7)
      })"
  by pat_completeness auto
termination
  by (relation "measure (\<lambda>(b, val, off, r). slen b - off)") auto

definition Varint :: "slice \<Rightarrow> (u64 \<times> nat \<times> gerr option) option" where
  "Varint b =
     (if slen b = 0 then Ret (0, 0, Some ErrUnterminatedSequence)
      else do {
        x \<leftarrow> sget b 0;
        let val = ucast x in
        if val < 240 then Ret (val, 1, None)
        else Varint_loop b val 1 4
      })"

declare PutVarint_loop.simps [simp del] Varint_loop.simps [simp del]

section \<open>The reference encoding\<close>

function varint_rest :: "u64 \<Rightarrow> byte list" where
  "varint_rest i =
     (if i \<ge> 128 then (ucast i OR 128) # varint_rest (drop_bit 7 (i - 128)) else [ucast i])"
  by pat_completeness auto
termination
  by (relation "measure unat") (auto simp: unat_drop7_less)

declare varint_rest.simps [simp del]

definition varint_enc :: "u64 \<Rightarrow> byte list" where
  "varint_enc i =
     (if i < 240 then [ucast i] else (ucast i OR 240) # varint_rest (drop_bit 4 (i - 240)))"

lemma length_varint_rest_pos [simp]: "0 < length (varint_rest i)"
  by (subst varint_rest.simps) simp

lemma varint_enc_nonempty [simp]: "varint_enc i \<noteq> []"
  by (simp add: varint_enc_def)

lemma length_varint_enc_pos [simp]: "0 < length (varint_enc i)"
  by simp

subsection \<open>Length of an encoding\<close>

lemma varint_rest_short: "i < 128 \<Longrightarrow> varint_rest i = [ucast i]"
  by (subst varint_rest.simps) auto

lemma length_varint_rest_le: "unat i < 128 ^ k \<Longrightarrow> 0 < k \<Longrightarrow> length (varint_rest i) \<le> k"
proof (induction k arbitrary: i)
  case (Suc k)
  show ?case
  proof (cases "i < 128 \<or> k = 0")
    case True
    then show ?thesis using Suc.prems
      by (subst varint_rest.simps) (auto simp: word_less_nat_alt word_le_nat_alt)
  next
    case False
    then have "unat (drop_bit 7 (i - 128)) < 128 ^ k"
      using Suc.prems
      by (simp add: unat_drop7 not_less div_less_iff_less_mult)
    with Suc.IH False have "length (varint_rest (drop_bit 7 (i - 128))) \<le> k" by simp
    with False show ?thesis by (subst varint_rest.simps) simp
  qed
qed simp

lemma length_varint_enc_le: "length (varint_enc i) \<le> 10"
proof -
  have "unat (drop_bit 4 (i - 240)) < 128 ^ 9"
    using unsigned_less [of "i - 240", where ?'a = nat] by (simp add: drop_bit_eq_div unat_div)
  then have "length (varint_rest (drop_bit 4 (i - 240))) \<le> 9"
    by (rule length_varint_rest_le) simp
  then show ?thesis by (simp add: varint_enc_def)
qed

section \<open>Decoding what was encoded\<close>

text \<open>
  Both byte forms of the encoder keep the low bits of the value and set the high ones; what
  the decoder adds back for them is the value less what the next bytes carry.
\<close>

lemma or_low_bits: "take_bit (m + k) i OR push_bit m (mask k) = take_bit m i + (push_bit m (mask k) :: u64)"
proof -
  have "take_bit (m + k) i OR push_bit m (mask k) = take_bit m i OR (push_bit m (mask k) :: u64)"
    by (rule bit_word_eqI) (auto simp: bit_simps)
  also have "\<dots> = take_bit m i + push_bit m (mask k)"
    by (rule disjunctive_add_eq_or [symmetric]) (auto simp: bit_eq_iff bit_simps)
  finally show ?thesis .
qed

lemma take_bit_word_diff:
  assumes "take_bit m (h :: u64) = 0" and "m \<le> 64"
  shows "take_bit m (i - h) = take_bit m i"
proof (rule word_uint_eqI)
  have h: "take_bit m (uint h) = 0"
    using assms(1) by (simp add: word_uint_eq_iff unsigned_take_bit_eq)
  have "uint (i - h) = take_bit 64 (uint i - uint h)"
    by (simp add: uint_word_ariths take_bit_eq_mod)
  then have "uint (take_bit m (i - h)) = take_bit m (uint i - uint h)"
    using assms(2) by (simp add: unsigned_take_bit_eq min_def)
  also have "\<dots> = take_bit m (take_bit m (uint i) - take_bit m (uint h))"
    by (simp add: take_bit_diff)
  finally show "uint (take_bit m (i - h)) = uint (take_bit m i)"
    by (simp add: h unsigned_take_bit_eq)
qed

lemma byte_split:
  assumes "h = (push_bit m (mask k) :: u64)" and "m + k = 8" and "(c :: byte) = ucast h"
    and "take_bit 8 h = h"
  shows "ucast (ucast i OR c) + push_bit m (drop_bit m (i - h)) = i"
proof -
  have "ucast (ucast i OR c) = take_bit (m + k) i OR h"
    using assms(2-4) by (auto simp: unsigned_or_eq unsigned_ucast_eq)
  then have "ucast (ucast i OR c) = take_bit m i + h"
    by (simp add: assms(1) or_low_bits)
  moreover have "take_bit m (i - h) = take_bit m i"
    using assms(1,2) by (simp add: take_bit_word_diff take_bit_push_bit)
  ultimately show ?thesis
    using bits_ident [of m "i - h"] by (simp add: algebra_simps)
qed

lemma byte_or_128_split:
  "ucast (ucast i OR 128 :: byte) + push_bit 7 (drop_bit 7 (i - 128)) = (i :: u64)"
  by (rule byte_split [where k = 1]) (simp_all add: mask_eq_exp_minus_1 push_bit_eq_mult)

lemma byte_or_240_split:
  "ucast (ucast i OR 240 :: byte) + push_bit 4 (drop_bit 4 (i - 240)) = (i :: u64)"
  by (rule byte_split [where k = 4]) (simp_all add: mask_eq_exp_minus_1 push_bit_eq_mult)

lemma ucast_less_iff: "(ucast (b :: byte) :: u64) < ucast c \<longleftrightarrow> b < c"
proof -
  have "unat (ucast x :: u64) = unat x" for x :: byte
    using unsigned_less [of x, where ?'a = nat]
    by (simp add: unsigned_ucast_eq take_bit_nat_eq_self)
  then show ?thesis by (simp add: word_less_nat_alt)
qed

lemma ucast_small_byte: "i < 256 \<Longrightarrow> ucast (ucast (i :: u64) :: byte) = i"
  by (simp add: unsigned_ucast_eq word_eq_iff_unsigned [where ?'a = nat] word_less_nat_alt
      unsigned_take_bit_eq take_bit_nat_eq_self)

lemma high_byte_not_less: "\<not> ucast (x OR 128 :: byte) < (128 :: u64)"
  using ucast_less_iff [of "x OR 128" 128] le_word_or2 [of "128 :: byte" x] by (simp add: not_less or.commute)

lemma first_byte_not_less: "\<not> ucast (x OR 240 :: byte) < (240 :: u64)"
  using ucast_less_iff [of "x OR 240" 240] le_word_or2 [of "240 :: byte" x] by (simp add: not_less or.commute)

lemma ReadVarint_loop_rest:
  "ReadVarint_loop val r (varint_rest i @ t) = ((val + push_bit r i, None), t)"
proof (induction i arbitrary: val r rule: varint_rest.induct)
  case (1 i)
  show ?case
  proof (cases "128 \<le> i")
    case True
    let ?j = "drop_bit 7 (i - 128)" and ?c = "ucast i OR 128 :: byte"
    have "push_bit r i = push_bit r (ucast ?c) + push_bit (r + 7) ?j"
      using byte_or_128_split [of i, symmetric]
      by (metis push_bit_add push_bit_push_bit)
    with "1.IH" [OF True] True high_byte_not_less [of "ucast i"] show ?thesis
      by (simp add: varint_rest.simps [of i] Let_def add.assoc)
  next
    case False
    then have "i < 128" by simp
    moreover from this have "i < 256" by (simp add: word_less_nat_alt)
    ultimately show ?thesis
      by (simp add: varint_rest_short ucast_small_byte)
  qed
qed

theorem ReadVarint_enc: "ReadVarint (varint_enc i @ t) = ((i, None), t)"
proof (cases "i < 240")
  case True
  moreover from this have "i < 256" by (simp add: word_less_nat_alt)
  ultimately show ?thesis by (simp add: varint_enc_def ReadVarint_def ucast_small_byte)
next
  case False
  with first_byte_not_less [of "ucast i"] byte_or_240_split [of i] show ?thesis
    by (simp add: varint_enc_def ReadVarint_def ReadVarint_loop_rest)
qed

section \<open>The slice decoder agrees with the stream decoder\<close>

text \<open>
  \<open>vi_result\<close> turns what the stream decoder returns into what the slice decoder returns:
  the number of consumed bytes in place of the rest of the stream.
\<close>

fun vi_result :: "nat \<Rightarrow> (u64 \<times> gerr option) \<times> byte list \<Rightarrow> u64 \<times> nat \<times> gerr option" where
  "vi_result l ((v, Some e), rd) = (0, 0, Some e)"
| "vi_result l ((v, None), rd) = (v, l - length rd, None)"

lemma Varint_loop_eq:
  "off \<le> slen b \<Longrightarrow>
   Varint_loop b val off r = Ret (vi_result (slen b) (ReadVarint_loop val r (drop off (vis b))))"
proof (induction b val off r rule: Varint_loop.induct)
  case (1 b val off r)
  show ?case
  proof (cases "off < slen b")
    case True
    then have d: "drop off (vis b) = vis b ! off # drop (off + 1) (vis b)"
      by (simp add: Cons_nth_drop_Suc)
    from True "1.IH" show ?thesis
      by (subst Varint_loop.simps) (simp add: d Let_def sget_def diff_Suc_Suc)
  next
    case False
    with "1.prems" show ?thesis by (subst Varint_loop.simps) (simp)
  qed
qed

theorem Varint_eq: "Varint b = Ret (vi_result (slen b) (ReadVarint (vis b)))"
proof (cases "vis b")
  case Nil
  then show ?thesis by (simp add: Varint_def ReadVarint_def slen_def)
next
  case (Cons x xs)
  then show ?thesis
    by (simp add: Varint_def ReadVarint_def slen_def sget_def Let_def Varint_loop_eq)
qed

lemma Varint_no_panic: "Varint b \<noteq> Panic"
  by (simp add: Varint_eq)

lemma Varint_enc [enc_simps]: "Varint (Slice (varint_enc i @ t) s) = Ret (i, length (varint_enc i), None)"
  by (simp add: Varint_eq ReadVarint_enc)

text \<open>What a decoder consumes: at least one byte and never more than there are.\<close>

lemma ReadVarint_loop_suffix:
  "ReadVarint_loop val r rd = ((v, None), rd') \<Longrightarrow> \<exists>xs. xs \<noteq> [] \<and> rd = xs @ rd'"
proof (induction val r rd rule: ReadVarint_loop.induct)
  case (2 val r b rd)
  show ?case
  proof (cases "ucast b < (128 :: u64)")
    case True
    with "2.prems" have "b # rd = [b] @ rd'" by (simp add: Let_def)
    then show ?thesis by blast
  next
    case False
    with 2 obtain xs where "rd = xs @ rd'" by (auto simp: Let_def)
    then have "b # rd = (b # xs) @ rd'" by simp
    then show ?thesis by blast
  qed
qed simp

lemma ReadVarint_suffix:
  assumes "ReadVarint rd = ((v, None), rd')"
  shows "\<exists>xs. xs \<noteq> [] \<and> rd = xs @ rd'"
proof (cases rd)
  case (Cons b bs)
  show ?thesis
  proof (cases "ucast b < (240 :: u64)")
    case True
    with assms Cons have "rd = [b] @ rd'" by (simp add: ReadVarint_def)
    then show ?thesis by blast
  next
    case False
    with assms Cons obtain xs where "bs = xs @ rd'"
      by (auto simp: ReadVarint_def dest: ReadVarint_loop_suffix)
    with Cons have "rd = (b # xs) @ rd'" by simp
    then show ?thesis by blast
  qed
qed (use assms in \<open>simp add: ReadVarint_def\<close>)

lemma Varint_cases:
  obtains (err) e where "Varint b = Ret (0, 0, Some e)"
  | (ok) v n where "Varint b = Ret (v, n, None)" "0 < n" "n \<le> slen b"
proof -
  obtain v e rd where r: "ReadVarint (vis b) = ((v, e), rd)" by (metis surj_pair)
  show ?thesis
  proof (cases e)
    case None
    with r obtain xs where "xs \<noteq> []" "vis b = xs @ rd" by (auto dest: ReadVarint_suffix)
    then have "slen b - length rd = length xs" and "length xs \<le> slen b" by (simp_all add: slen_def)
    with None r \<open>xs \<noteq> []\<close> show ?thesis using ok [of v "length xs"] by (simp add: Varint_eq)
  next
    case (Some e')
    with r show ?thesis using err by (simp add: Varint_eq)
  qed
qed

lemma Varint_consumes: "Varint b = Ret (v, n, None) \<Longrightarrow> 0 < n \<and> n \<le> slen b"
  by (rule Varint_cases [of b]) auto

lemma Varint_fails: "Varint b = Ret (v, n, Some e) \<Longrightarrow> v = 0 \<and> n = 0"
  by (rule Varint_cases [of b]) auto

section \<open>What PutVarint writes\<close>

lemma sset_mid: "sset (Slice (xs @ y # ys) s) (length xs) z = Ret (Slice (xs @ z # ys) s)"
  by (simp add: sset_def)

lemma PutVarint_loop_fits:
  "length (varint_rest i) \<le> length ys \<Longrightarrow>
   PutVarint_loop (Slice (xs @ ys) s) (length xs) i =
     Ret (Slice (xs @ varint_rest i @ drop (length (varint_rest i)) ys) s,
          length xs + length (varint_rest i), None)"
proof (induction i arbitrary: xs ys rule: varint_rest.induct)
  case (1 i)
  then obtain y ys' where ys: "ys = y # ys'"
    using length_varint_rest_pos [of i] by (cases ys) auto
  show ?case
  proof (cases "128 \<le> i")
    case True
    with "1.prems" ys have "length (varint_rest (drop_bit 7 (i - 128))) \<le> length ys'"
      by (simp add: varint_rest.simps [of i])
    from "1.IH" [OF True this, of "xs @ [ucast i OR 128]"] True ys show ?thesis
      by (subst PutVarint_loop.simps) (simp add: sset_mid varint_rest.simps [of i])
  next
    case False
    with ys show ?thesis
      by (subst PutVarint_loop.simps) (simp add: sset_mid varint_rest.simps [of i])
  qed
qed

lemma PutVarint_loop_short:
  "length ys < length (varint_rest i) \<Longrightarrow>
   \<exists>zs. length zs = length ys \<and> PutVarint_loop (Slice (xs @ ys) s) (length xs) i =
     Ret (Slice (xs @ zs) s, 0, Some ErrInsufficientSpace)"
proof (induction i arbitrary: xs ys rule: varint_rest.induct)
  case (1 i)
  show ?case
  proof (cases ys)
    case Nil
    then show ?thesis by (subst PutVarint_loop.simps) simp
  next
    case (Cons y ys')
    with "1.prems" have i: "128 \<le> i" and l: "length ys' < length (varint_rest (drop_bit 7 (i - 128)))"
      by (auto simp: varint_rest.simps [of i] split: if_splits)
    from "1.IH" [OF i l, of "xs @ [ucast i OR 128]"] obtain zs where
      "length zs = length ys'"
      "PutVarint_loop (Slice ((xs @ [ucast i OR 128]) @ ys') s) (length (xs @ [ucast i OR 128 :: byte]))
         (drop_bit 7 (i - 128)) = Ret (Slice ((xs @ [ucast i OR 128]) @ zs) s, 0, Some ErrInsufficientSpace)"
      by blast
    with i Cons show ?thesis
      by (intro exI [of _ "(ucast i OR 128) # zs"], subst PutVarint_loop.simps) (simp add: sset_mid)
  qed
qed

lemma PutVarint_fits:
  assumes "length (varint_enc i) \<le> length ys"
  shows "PutVarint (Slice ys s) i =
     Ret (Slice (varint_enc i @ drop (length (varint_enc i)) ys) s, length (varint_enc i), None)"
proof -
  from assms obtain y ys' where ys: "ys = y # ys'"
    by (cases ys) auto
  show ?thesis
  proof (cases "i < 240")
    case True
    with ys show ?thesis by (simp add: PutVarint_def varint_enc_def sset_def)
  next
    case False
    with ys assms PutVarint_loop_fits [of "drop_bit 4 (i - 240)" ys' "[ucast i OR 240]" s] show ?thesis
      by (simp add: PutVarint_def varint_enc_def sset_def)
  qed
qed

lemma PutVarint_short:
  assumes "length ys < length (varint_enc i)"
  obtains zs where "length zs = length ys"
    "PutVarint (Slice ys s) i = Ret (Slice zs s, 0, Some ErrInsufficientSpace)"
proof (cases ys)
  case Nil
  then show ?thesis using that [of "[]"] by (simp add: PutVarint_def)
next
  case (Cons y ys')
  with assms have i: "\<not> i < 240" and l: "length ys' < length (varint_rest (drop_bit 4 (i - 240)))"
    by (auto simp: varint_enc_def split: if_splits)
  from PutVarint_loop_short [OF l, of "[ucast i OR 240]" s] obtain zs where
    "length zs = length ys'" "PutVarint (Slice ys s) i =
       Ret (Slice ((ucast i OR 240) # zs) s, 0, Some ErrInsufficientSpace)"
    using i Cons by (auto simp: PutVarint_def sset_def)
  then show ?thesis using that [of "(ucast i OR 240) # zs"] Cons by simp
qed

end
