(* ===== verification/Codec.thy ===== *)
theory Codec
  imports Varint
begin

text \<open>
  The interface of every marshaller of the library: a \<open>put\<close> that writes a value at the
  start of a slice and returns the number of bytes written, and a \<open>get\<close> that reads one
  back and returns the number of bytes consumed. The locale \<open>codec\<close> states the contract
  the callers rely on, \<open>putter\<close> its first half; \<open>strict_putter\<close> and \<open>strict_codec\<close> add that a
  slice that is too short is reported.
  The callers' facts (round trips, prefix-freeness, writing at an offset) are proved here
  once and reach the components through the interpretations.
\<close>

text \<open>A call of the shape \<open>n, err := Put(data[off:], v)\<close>.\<close>

definition put_at ::
  "slice \<Rightarrow> nat \<Rightarrow> (slice \<Rightarrow> (slice \<times> nat \<times> gerr option) option) \<Rightarrow>
   (slice \<times> nat \<times> gerr option) option" where
  "put_at data off put =
     do {
       t \<leftarrow> sfrom data off;
       (t', n, err) \<leftarrow> put t;
       Ret (splice data off t', n, err)
     }"

locale putter =
  fixes put :: "'a \<Rightarrow> slice \<Rightarrow> (slice \<times> nat \<times> gerr option) option"
    and enc :: "'a \<Rightarrow> byte list"
    and valid :: "'a \<Rightarrow> bool"
  assumes put_fits: "valid x \<Longrightarrow> length (enc x) \<le> length ys \<Longrightarrow>
      put x (Slice ys s) = Ret (Slice (enc x @ drop (length (enc x)) ys) s, length (enc x), None)"
begin

lemma put_at_fits:
  assumes "valid x" and "length (enc x) \<le> length ys"
  shows "put_at (Slice (xs @ ys) s) (length xs) (put x) =
    Ret (Slice (xs @ enc x @ drop (length (enc x)) ys) s, length (enc x), None)"
  using assms by (simp add: put_at_def put_fits splice_tail)

end

locale strict_putter = putter +
  assumes put_short: "valid x \<Longrightarrow> length ys < length (enc x) \<Longrightarrow>
      \<exists>zs n. length zs = length ys \<and> n \<le> length ys \<and>
        put x (Slice ys s) = Ret (Slice zs s, n, Some ErrInsufficientSpace)"
begin

lemma put_at_short:
  assumes "valid x" and "length ys < length (enc x)"
  shows "\<exists>zs n. length zs = length ys \<and> n \<le> length ys \<and>
    put_at (Slice (xs @ ys) s) (length xs) (put x) = Ret (Slice (xs @ zs) s, n, Some ErrInsufficientSpace)"
proof -
  from put_short [OF assms, of s] obtain zs n where
    "length zs = length ys" "n \<le> length ys"
    "put x (Slice ys s) = Ret (Slice zs s, n, Some ErrInsufficientSpace)" by blast
  then show ?thesis by (auto simp: put_at_def splice_tail)
qed

lemma put_no_panic: "valid x \<Longrightarrow> put x b \<noteq> Panic"
  using put_fits [of x "vis b" "spare b"] put_short [of x "vis b" "spare b"]
  by (cases b; cases "length (enc x) \<le> slen b") (auto simp: not_le)

text \<open>Success is exactly a matter of space.\<close>

lemma put_ok_iff:
  assumes "valid x" and "put x b = Ret (b', n, err)"
  shows "err = None \<longleftrightarrow> length (enc x) \<le> slen b"
  using assms put_fits [of x "vis b" "spare b"] put_short [of x "vis b" "spare b"]
  by (cases b; cases "length (enc x) \<le> slen b") (auto simp: not_le)

end

locale codec = putter put enc valid
  for put :: "'a \<Rightarrow> slice \<Rightarrow> (slice \<times> nat \<times> gerr option) option"
    and get :: "slice \<Rightarrow> ('a \<times> nat \<times> gerr option) option"
    and enc :: "'a \<Rightarrow> byte list"
    and valid :: "'a \<Rightarrow> bool" +
  assumes get_enc: "valid x \<Longrightarrow> get (Slice (enc x @ t) s) = Ret (x, length (enc x), None)"
begin

lemma roundtrip:
  assumes "valid x" and "length (enc x) \<le> slen b" and "put x b = Ret (b', n, err)"
  shows "err = None \<and> get b' = Ret (x, n, None)"
  using assms put_fits [of x "vis b" "spare b"] by (cases b) (auto simp: get_enc)

lemma prefix_free:
  assumes "valid x" and "valid y" and "enc x @ t = enc y @ u"
  shows "x = y \<and> t = u"
  using get_enc [OF assms(1), of t "[]"] get_enc [OF assms(2), of u "[]"] assms(3) by simp

end

locale strict_codec = codec + strict_putter

text \<open>The varint functions are a strict codec for all 64-bit values.\<close>

interpretation varint: strict_codec "\<lambda>i b. PutVarint b i" Varint varint_enc "\<lambda>_. True"
proof unfold_locales
  fix x :: u64 and ys s :: "byte list"
  assume "length ys < length (varint_enc x)"
  then obtain zs where "length zs = length ys"
    "PutVarint (Slice ys s) x = Ret (Slice zs s, 0, Some ErrInsufficientSpace)"
    by (rule PutVarint_short)
  then show "\<exists>zs n. length zs = length ys \<and> n \<le> length ys \<and>
      PutVarint (Slice ys s) x = Ret (Slice zs s, n, Some ErrInsufficientSpace)" by auto
qed (auto simp: PutVarint_fits Varint_enc)

text \<open>C32: whatever \<open>PutVarint\<close> writes without an error, \<open>Varint\<close> reads back, together
  with the number of bytes.\<close>

theorem varint_roundtrip:
  assumes "PutVarint b i = Ret (b', n, None)"
  shows "Varint b' = Ret (i, n, None)"
  using varint.put_ok_iff [OF TrueI assms] varint.roundtrip [OF TrueI _ assms] by simp

lemma varint_roundtrip_witness:
  "Varint (Slice [244, 148, 1, 0] []) = Ret (4660, 3, None)"
proof -
  have "PutVarint (Slice [0, 0, 0, 0] []) 4660 = Ret (Slice [244, 148, 1, 0] [], 3, None)"
    by (simp add: PutVarint_def PutVarint_loop.simps sset_def drop_bit_eq_div word_le_nat_alt)
  then show ?thesis by (rule varint_roundtrip)
qed

end
