(* ===== verification/Encoding.thy ===== *)
theory Encoding
  imports Codec
begin

text \<open>
  The data types of the SPOP wire format, the length-prefixed byte strings and the IP
  addresses (pkg/encoding/encoding.go), with the operations of the standard library's
  \<open>netip.Addr\<close> that the code uses.
\<close>

section \<open>Data types\<close>

definition DataTypeNull :: byte where [wire_defs]: "DataTypeNull = 0"
definition DataTypeBool :: byte where [wire_defs]: "DataTypeBool = 1"
definition DataTypeInt32 :: byte where [wire_defs]: "DataTypeInt32 = 2"
definition DataTypeUInt32 :: byte where [wire_defs]: "DataTypeUInt32 = 3"
definition DataTypeInt64 :: byte where [wire_defs]: "DataTypeInt64 = 4"
definition DataTypeUInt64 :: byte where [wire_defs]: "DataTypeUInt64 = 5"
definition DataTypeIPV4 :: byte where [wire_defs]: "DataTypeIPV4 = 6"
definition DataTypeIPV6 :: byte where [wire_defs]: "DataTypeIPV6 = 7"
definition DataTypeString :: byte where [wire_defs]: "DataTypeString = 8"
definition DataTypeBinary :: byte where [wire_defs]: "DataTypeBinary = 9"
definition dataTypeMask :: byte where [wire_defs]: "dataTypeMask = 0x0F"
definition dataFlagTrue :: byte where [wire_defs]: "dataFlagTrue = 0x10"

section \<open>Addresses (net/netip)\<close>

text \<open>
  The zero \<open>netip.Addr\<close>, an IPv4 address and an IPv6 address with its zone. The byte lists
  have 4 and 16 elements (\<open>wf_addr\<close>), as every address the library builds has.
\<close>

datatype addr = NoAddr | Addr4 "byte list" | Addr6 "byte list" string

fun wf_addr :: "addr \<Rightarrow> bool" where
  "wf_addr NoAddr = True"
| "wf_addr (Addr4 x) = (length x = 4)"
| "wf_addr (Addr6 x z) = (length x = 16)"

fun AsSlice :: "addr \<Rightarrow> byte list" where
  "AsSlice NoAddr = []"
| "AsSlice (Addr4 x) = x"
| "AsSlice (Addr6 x z) = x"

fun BitLen :: "addr \<Rightarrow> nat" where
  "BitLen NoAddr = 0"
| "BitLen (Addr4 x) = 32"
| "BitLen (Addr6 x z) = 128"

fun Is4 :: "addr \<Rightarrow> bool" where
  "Is4 (Addr4 x) = True" | "Is4 _ = False"

fun Is6 :: "addr \<Rightarrow> bool" where
  "Is6 (Addr6 x z) = True" | "Is6 _ = False"

definition AddrFromSlice :: "byte list \<Rightarrow> addr \<times> bool" where
  "AddrFromSlice b =
     (if length b = 4 then (Addr4 b, True)
      else if length b = 16 then (Addr6 b [], True)
      else (NoAddr, False))"

fun drop_zone :: "addr \<Rightarrow> addr" where
  "drop_zone (Addr6 x z) = Addr6 x []"
| "drop_zone a = a"

lemma AddrFromSlice_AsSlice:
  "wf_addr a \<Longrightarrow> a \<noteq> NoAddr \<Longrightarrow> AddrFromSlice (AsSlice a) = (drop_zone a, True)"
  by (cases a) (auto simp: AddrFromSlice_def)

lemma BitLen_AsSlice: "wf_addr a \<Longrightarrow> BitLen a div 8 = length (AsSlice a)"
  by (cases a) auto

section \<open>PutBytes and PutAddr\<close>

definition PutBytes :: "slice \<Rightarrow> byte list \<Rightarrow> (slice \<times> nat \<times> gerr option) option" where
  "PutBytes b v =
     do {
       let l = length v;
       (b, n, err) \<leftarrow> PutVarint b (of_nat l);
       case err of
         Some e \<Rightarrow> Ret (b, 0, Some e)
       | None \<Rightarrow>
           if l + n > slen b then Ret (b, 0, Some ErrInsufficientSpace)
           else do {
             t \<leftarrow> sfrom b n;
             Ret (splice b n (fst (scopy t v)), n + l, None)
           }
     }"

definition PutAddr :: "slice \<Rightarrow> addr \<Rightarrow> (slice \<times> nat \<times> gerr option) option" where
  "PutAddr b ip =
     (let s = AsSlice ip in
      if slen b < length s then Ret (b, 0, Some ErrInsufficientSpace)
      else Ret (fst (scopy b s), length s, None))"

definition bytes_enc :: "byte list \<Rightarrow> byte list" where
  "bytes_enc v = varint_enc (of_nat (length v)) @ v"

text \<open>No Go slice is longer than a Go int can count.\<close>

definition len_ok :: "byte list \<Rightarrow> bool" where
  "len_ok v \<longleftrightarrow> length v < 2 ^ 63"

lemma unat_len: "len_ok v \<Longrightarrow> unat (of_nat (length v) :: u64) = length v"
  by (simp add: len_ok_def unat_of_nat take_bit_nat_eq_self)

lemma PutBytes_fits:
  assumes "length (bytes_enc v) \<le> length ys"
  shows "PutBytes (Slice ys s) v =
    Ret (Slice (bytes_enc v @ drop (length (bytes_enc v)) ys) s, length (bytes_enc v), None)"
  using assms
  by (simp add: PutBytes_def bytes_enc_def PutVarint_fits scopy_def sfrom_def Let_def
      splice_def min_def add.commute) arith

lemma PutBytes_short:
  assumes "length ys < length (bytes_enc v)"
  obtains zs where "length zs = length ys"
    "PutBytes (Slice ys s) v = Ret (Slice zs s, 0, Some ErrInsufficientSpace)"
proof (cases "length (varint_enc (of_nat (length v))) \<le> length ys")
  case True
  with assms show ?thesis
    using that [of "varint_enc (of_nat (length v)) @ drop (length (varint_enc (of_nat (length v)))) ys"]
    by (simp add: PutBytes_def bytes_enc_def PutVarint_fits Let_def)
next
  case False
  then obtain zs where "length zs = length ys"
    "PutVarint (Slice ys s) (of_nat (length v)) = Ret (Slice zs s, 0, Some ErrInsufficientSpace)"
    by (auto elim: PutVarint_short simp: not_le)
  with that [of zs] show ?thesis by (simp add: PutBytes_def Let_def)
qed

lemma PutAddr_fits:
  "length (AsSlice a) \<le> length ys \<Longrightarrow>
   PutAddr (Slice ys s) a =
     Ret (Slice (AsSlice a @ drop (length (AsSlice a)) ys) s, length (AsSlice a), None)"
  by (simp add: PutAddr_def scopy_def Let_def min_def)

end
