(* ===== verification/NetIO.thy ===== *)
theory NetIO
  imports Prelude
begin

text \<open>
  The two ends of a connection. A reader holds the bytes that will arrive and the error its
  \<open>Read\<close> returns after the last of them (\<open>io.EOF\<close> for an orderly close); a sink collects what
  is written, and may fail after a number of bytes or because it was closed.
\<close>

record reader =
  rd_data :: "byte list"
  rd_err :: gerr

text \<open>\<open>io.ReadFull\<close> for \<open>n\<close> bytes: the bytes read, the error, and what is left.\<close>

definition ReadFull :: "nat \<Rightarrow> reader \<Rightarrow> byte list \<times> gerr option \<times> reader" where
  "ReadFull n r =
     (if n \<le> length (rd_data r) then (take n (rd_data r), None, r\<lparr>rd_data := drop n (rd_data r)\<rparr>)
      else (rd_data r,
            Some (if rd_data r \<noteq> [] \<and> rd_err r = ErrEOF then ErrUnexpectedEOF else rd_err r),
            r\<lparr>rd_data := []\<rparr>))"

lemma ReadFull_append [simp]:
  "length x = n \<Longrightarrow> ReadFull n \<lparr>rd_data = x @ t, rd_err = e\<rparr> = (x, None, \<lparr>rd_data = t, rd_err = e\<rparr>)"
  by (simp add: ReadFull_def)

lemma ReadFull_consumes:
  "ReadFull n r = (x, err, r') \<Longrightarrow> rd_data r = x @ rd_data r' \<and> length x \<le> n \<and> (err = None \<longleftrightarrow> length x = n)"
  by (auto simp: ReadFull_def split: if_splits)

lemma ReadFull_shorter: "length (rd_data (snd (snd (ReadFull n r)))) \<le> length (rd_data r)"
  by (simp add: ReadFull_def)

record sink =
  sk_out :: "byte list"
  sk_room :: "nat option"
  sk_closed :: bool

definition Write :: "byte list \<Rightarrow> sink \<Rightarrow> sink \<times> nat \<times> gerr option" where
  "Write p w =
     (if sk_closed w then (w, 0, Some ErrNetClosed)
      else case sk_room w of
        None \<Rightarrow> (w\<lparr>sk_out := sk_out w @ p\<rparr>, length p, None)
      | Some r \<Rightarrow>
          if length p \<le> r
          then (w\<lparr>sk_out := sk_out w @ p, sk_room := Some (r - length p)\<rparr>, length p, None)
          else (w\<lparr>sk_out := sk_out w @ take r p, sk_room := Some 0\<rparr>, r, Some ErrWrite))"

definition open_sink :: "byte list \<Rightarrow> sink" where
  "open_sink out = \<lparr>sk_out = out, sk_room = None, sk_closed = False\<rparr>"

text \<open>Open and without a limit: no \<open>Write\<close> fails.\<close>

definition healthy :: "sink \<Rightarrow> bool" where
  "healthy w \<longleftrightarrow> sk_room w = None \<and> \<not> sk_closed w"

definition close_sink :: "sink \<Rightarrow> sink" where
  "close_sink w = w\<lparr>sk_closed := True\<rparr>"

lemma healthy_open [simp]: "healthy (open_sink out)"
  by (simp add: healthy_def open_sink_def)

lemma healthy_record [simp]:
  "healthy \<lparr>sk_out = out, sk_room = room, sk_closed = closed\<rparr> \<longleftrightarrow> room = None \<and> \<not> closed"
  by (simp add: healthy_def)

lemma healthy_out [simp]: "healthy (w\<lparr>sk_out := out\<rparr>) \<longleftrightarrow> healthy w"
  by (simp add: healthy_def)

lemma close_sink_simps [simp]:
  "sk_out (close_sink w) = sk_out w" "sk_room (close_sink w) = sk_room w" "sk_closed (close_sink w)"
  by (simp_all add: close_sink_def)

lemma Write_open [simp]: "Write p (open_sink out) = (open_sink (out @ p), length p, None)"
  by (simp add: Write_def open_sink_def)

text \<open>A write only ever appends a prefix of its argument; all of it when it reports no error.\<close>

lemma Write_appends:
  "Write p w = (w', n, err) \<Longrightarrow> sk_out w' = sk_out w @ take n p \<and> n \<le> length p \<and> (err = None \<longrightarrow> n = length p)"
  by (auto simp: Write_def split: option.splits if_splits)

text \<open>A \<open>Write\<close> fails only on a connection that takes no more bytes.\<close>

definition sink_failed :: "sink \<Rightarrow> bool" where
  "sink_failed w \<longleftrightarrow> sk_room w = Some 0 \<or> sk_closed w"

lemma Write_fails:
  "Write p w = (w', n, err) \<Longrightarrow> (sk_closed w' \<longleftrightarrow> sk_closed w) \<and> (err \<noteq> None \<longrightarrow> sink_failed w')"
  by (auto simp: Write_def sink_failed_def split: option.splits if_splits)

text \<open>\<open>errors.Is\<close>: an error or one it wraps.\<close>

fun err_Is :: "gerr \<Rightarrow> gerr \<Rightarrow> bool" where
  "err_Is (ErrWrap m e) t = (ErrWrap m e = t \<or> err_Is e t)"
| "err_Is e t = (e = t)"

end
