(* ===== verification/Frame.thy ===== *)
theory Frame
  imports SliceBuffer Encoding NetIO
begin

text \<open>
  SPOP frames on the wire (spop/frame.go): a length of four bytes, then the frame type, the
  flags, the stream and frame identifiers and the payload. Frames are pooled together with
  their buffers; a released buffer keeps its old contents, which the lemmas show to be
  invisible.
\<close>

section \<open>The code\<close>

definition uint32Len :: nat where [wire_defs]: "uint32Len = 4"

definition maxFrameSize :: nat where [wire_defs]: "maxFrameSize = 65535"

record frameMetadata =
  Flags :: u32
  StreamID :: u64
  FrameID :: u64

record frame =
  f_buf :: slicebuf
  f_length :: "byte list"
  f_meta :: frameMetadata
  f_frameType :: byte

definition no_meta :: frameMetadata where
  "no_meta = \<lparr>Flags = 0, StreamID = 0, FrameID = 0\<rparr>"

definition newFrame :: "frame option" where
  "newFrame =
     do {
       buf \<leftarrow> NewSliceBuffer maxFrameSize;
       Ret \<lparr>f_buf = buf, f_length = replicate uint32Len 0, f_meta = no_meta, f_frameType = 0\<rparr>
     }"

definition releaseFrame :: "frame \<Rightarrow> frame" where
  "releaseFrame f = f\<lparr>f_buf := buf_Reset (f_buf f), f_frameType := 0, f_meta := no_meta\<rparr>"

definition encodeHeader :: "frame \<Rightarrow> (frame \<times> gerr option) option" where
  "encodeHeader f =
     do {
       let off = sb_w (f_buf f);
       (buf, t) \<leftarrow> WriteNBytes 1 (f_buf f);
       t \<leftarrow> sset t 0 (f_frameType f);
       let buf = write_back off t buf;
       let off = sb_w buf;
       (buf, t) \<leftarrow> WriteNBytes uint32Len buf;
       t \<leftarrow> PutUint32 t (Flags (f_meta f));
       let buf = write_back off t buf;
       t \<leftarrow> WriteBytes buf;
       (t, n, err) \<leftarrow> PutVarint t (StreamID (f_meta f));
       let buf = write_back (sb_w buf) t buf;
       if err \<noteq> None then Ret (f\<lparr>f_buf := buf\<rparr>, err)
       else do {
         let buf = AdvanceW n buf;
         t \<leftarrow> WriteBytes buf;
         (t, n, err) \<leftarrow> PutVarint t (FrameID (f_meta f));
         let buf = write_back (sb_w buf) t buf;
         if err \<noteq> None then Ret (f\<lparr>f_buf := buf\<rparr>, err)
         else Ret (f\<lparr>f_buf := AdvanceW n buf\<rparr>, None)
       }
     }"

definition decodeHeader :: "frame \<Rightarrow> (frame \<times> gerr option) option" where
  "decodeHeader f =
     do {
       (buf, t) \<leftarrow> ReadNBytes 1 (f_buf f);
       x \<leftarrow> sget t 0;
       (buf, t) \<leftarrow> ReadNBytes uint32Len buf;
       flags \<leftarrow> Uint32 t;
       let f = f\<lparr>f_frameType := x, f_meta := (f_meta f)\<lparr>Flags := flags\<rparr>, f_buf := buf\<rparr>;
       t \<leftarrow> ReadBytes buf;
       (streamID, n, err) \<leftarrow> Varint t;
       if err \<noteq> None then Ret (f, err)
       else do {
         let buf = AdvanceR n buf;
         let f = f\<lparr>f_meta := (f_meta f)\<lparr>StreamID := streamID\<rparr>, f_buf := buf\<rparr>;
         t \<leftarrow> ReadBytes buf;
         (frameID, n, err) \<leftarrow> Varint t;
         if err \<noteq> None then Ret (f, err)
         else Ret (f\<lparr>f_meta := (f_meta f)\<lparr>FrameID := frameID\<rparr>, f_buf := AdvanceR n buf\<rparr>, None)
       }
     }"

definition readFrom :: "frame \<Rightarrow> reader \<Rightarrow> u32 \<Rightarrow> (frame \<times> reader \<times> nat \<times> gerr option) option" where
  "readFrom f r limit =
     (case ReadFull (length (f_length f)) r of (x, err, r) \<Rightarrow>
      let f = f\<lparr>f_length := x @ drop (length x) (f_length f)\<rparr> in
      case err of
        Some e \<Rightarrow> Ret (f, r, 0, Some (ErrWrap ''reading frame length'' e))
      | None \<Rightarrow> do {
          frameLen \<leftarrow> Uint32 (Slice (f_length f) []);
          if frameLen > limit then Ret (f, r, length (f_length f), Some (ErrFrameLength frameLen limit))
          else do {
            buf \<leftarrow> Grow (unat frameLen) (buf_Reset (f_buf f));
            let off = sb_w buf;
            (buf, dataBuf) \<leftarrow> WriteNBytes (unat frameLen) buf;
            case ReadFull (slen dataBuf) r of (x, err, r) \<Rightarrow>
              let buf = write_back off (Slice (x @ drop (length x) (vis dataBuf)) (spare dataBuf)) buf;
                  f = f\<lparr>f_buf := buf\<rparr>;
                  n = length x + length (f_length f) in
              case err of
                Some e \<Rightarrow> Ret (f, r, n, Some (ErrWrap ''reading frame payload'' e))
              | None \<Rightarrow> do {
                  (f, err) \<leftarrow> decodeHeader f;
                  Ret (f, r, n, err)
                }
          }
        })"

definition ReadFrom :: "frame \<Rightarrow> reader \<Rightarrow> (frame \<times> reader \<times> nat \<times> gerr option) option" where
  "ReadFrom f r = readFrom f r (of_nat maxFrameSize)"

definition writeTo :: "frame \<Rightarrow> byte list \<Rightarrow> sink \<Rightarrow> (frame \<times> sink \<times> nat \<times> gerr option) option" where
  "writeTo f payload w =
     (let frameLen = of_int (buf_Len (f_buf f)) + of_nat (length payload) :: u64 in
      if frameLen > 0xFFFFFFFF then Ret (f, w, 0, Some (ErrFrameLimit frameLen))
      else do {
        len \<leftarrow> PutUint32 (Slice (f_length f) []) (ucast frameLen);
        let f = f\<lparr>f_length := vis len\<rparr>;
        case Write (f_length f) w of (w, n, err) \<Rightarrow>
          let written = n in
          if err \<noteq> None then Ret (f, w, written, err)
          else do {
            t \<leftarrow> ReadBytes (f_buf f);
            case Write (vis t) w of (w, n, err) \<Rightarrow>
              let written = written + n in
              if err \<noteq> None \<or> length payload = 0 then Ret (f, w, written, err)
              else (case Write payload w of (w, n, err) \<Rightarrow> Ret (f, w, written + n, err))
          }
      })"

definition WriteTo :: "frame \<Rightarrow> sink \<Rightarrow> (frame \<times> sink \<times> nat \<times> gerr option) option" where
  "WriteTo f w = writeTo f [] w"

section \<open>Frames of the pool\<close>

text \<open>
  What \<open>acquireFrame\<close> hands out: a new frame or a released one. Its buffer is empty, holds
  at least the initial size and what \<open>make\<close> allows, and its old contents \<open>free\<close> and \<open>s\<close> are arbitrary.
\<close>

abbreviation buf_size :: "nat \<Rightarrow> bool" where
  "buf_size n \<equiv> maxFrameSize \<le> n \<and> n \<le> max_alloc"

definition pool_frame :: "frame \<Rightarrow> bool" where
  "pool_frame f \<longleftrightarrow>
     sb_r (f_buf f) = 0 \<and> sb_w (f_buf f) = 0 \<and> buf_size (slen (sb_buf (f_buf f))) \<and>
     length (f_length f) = uint32Len \<and> f_meta f = no_meta \<and> f_frameType f = 0"

definition frame_inv :: "frame \<Rightarrow> bool" where
  "frame_inv f \<longleftrightarrow> buf_size (slen (sb_buf (f_buf f))) \<and> length (f_length f) = uint32Len"

lemma pool_frame_new: "newFrame = Ret f \<Longrightarrow> pool_frame f"
  by (auto simp: newFrame_def NewSliceBuffer_def smake_def pool_frame_def wire_defs bind_eq_Some_conv
      split: if_splits)

lemma newFrame_no_panic: "newFrame \<noteq> Panic"
  by (simp add: newFrame_def NewSliceBuffer_def smake_def max_alloc_def wire_defs)

lemma newFrame_pool: obtains f where "newFrame = Ret f" "pool_frame f"
  using newFrame_no_panic pool_frame_new by fastforce

lemma pool_frame_release: "frame_inv f \<Longrightarrow> pool_frame (releaseFrame f)"
  by (auto simp: pool_frame_def frame_inv_def releaseFrame_def buf_Reset_def)

lemma pool_frame_inv: "pool_frame f \<Longrightarrow> frame_inv f"
  by (auto simp: pool_frame_def frame_inv_def)

lemma pool_frame_SB:
  assumes "pool_frame f"
  obtains free s l where
    "f = \<lparr>f_buf = SB [] [] free s, f_length = l, f_meta = no_meta, f_frameType = 0\<rparr>"
    "buf_size (length free)" "length l = 4"
proof -
  obtain v s where "sb_buf (f_buf f) = Slice v s" by (cases "sb_buf (f_buf f)")
  with assms show ?thesis using that [of v s "f_length f"]
    by (cases f; cases "f_buf f") (auto simp: pool_frame_def SB_def wire_defs)
qed

section \<open>Headers\<close>

definition header_enc :: "byte \<Rightarrow> u32 \<Rightarrow> u64 \<Rightarrow> u64 \<Rightarrow> byte list" where
  "header_enc t fl sid fid = [t] @ be32 fl @ varint_enc sid @ varint_enc fid"

lemma length_header_le: "length (header_enc t fl sid fid) \<le> 25"
  using length_varint_enc_le [of sid] length_varint_enc_le [of fid] by (simp add: header_enc_def)

lemma be32_split: "\<exists>a b c d. be32 w = [a, b, c, d]"
  by (simp add: be32_def)

lemma take_split:
  assumes "n \<le> length xs"
  obtains ys zs where "xs = ys @ zs" "length ys = n"
  using assms that [of "take n xs" "drop n xs"] by simp

lemma encodeHeader_SB:
  assumes buf: "f_buf f = SB [] [] free s"
    and "length (header_enc (f_frameType f) (Flags (f_meta f)) (StreamID (f_meta f)) (FrameID (f_meta f)))
      \<le> length free"
  shows "encodeHeader f =
    (let h = header_enc (f_frameType f) (Flags (f_meta f)) (StreamID (f_meta f)) (FrameID (f_meta f))
     in Ret (f\<lparr>f_buf := SB [] h (drop (length h) free) s\<rparr>, None))"
proof -
  let ?t = "f_frameType f" and ?fl = "Flags (f_meta f)"
  let ?sid = "StreamID (f_meta f)" and ?fid = "FrameID (f_meta f)"
  have l: "5 + length (varint_enc ?sid) + length (varint_enc ?fid) \<le> length free"
    using assms(2) by (simp add: header_enc_def)
  then obtain x free1 where f1: "free = [x] @ free1"
    by (cases free) auto
  obtain y free2 where f2: "free1 = y @ free2" "length y = 4"
    using l f1 by (auto intro: take_split [of 4 free1])
  have l2: "length (varint_enc ?sid) + length (varint_enc ?fid) \<le> length free2"
    using l by (simp add: f1 f2)
  have p: "PutUint32 (Slice y z) ?fl = Ret (Slice (be32 ?fl) z)" for z
    using PutUint32_prefix [of y "[]" z ?fl] f2(2) by simp
  show ?thesis
    using l2 f2 WriteNBytes_SB [of "[x]" 1 "[]" "[]"] WriteNBytes_SB [of y 4 "[]" "[?t]"]
    by (simp add: encodeHeader_def buf f1 sset_def wire_defs write_back_SB
        write_back_free_SB p WriteBytes_SB PutVarint_fits AdvanceW_SB header_enc_def Let_def
        drop_Cons' add.commute)
qed

lemma decodeHeader_SB:
  assumes "f_buf f = SB [] (header_enc t fl sid fid @ dat) free s"
  shows "decodeHeader f =
    Ret (f\<lparr>f_buf := SB (header_enc t fl sid fid) dat free s, f_frameType := t,
           f_meta := \<lparr>Flags = fl, StreamID = sid, FrameID = fid\<rparr>\<rparr>, None)"
proof -
  note r = ReadNBytes_SB [of "[t]" 1 "[]"] ReadNBytes_SB [of "be32 fl" 4 "[t]"]
  show ?thesis
    using r assms
    by (cases f; cases "f_meta f")
      (simp add: decodeHeader_def header_enc_def wire_defs ReadBytes_SB Varint_enc AdvanceR_SB
        Uint32_be32 [where ys = "[]", simplified])
qed

text \<open>
  A frame shorter than its fixed header: reading the five bytes runs past the end of the frame
  into old contents of the buffer, and the next read panics whatever was there.
\<close>

lemma decodeHeader_short:
  assumes "f_buf f = SB [] dat free s" and "length dat < 5"
  shows "decodeHeader f = Panic"
  using assms
  by (auto simp: decodeHeader_def ReadNBytes_def ReadBytes_def SB_def sbetween_def wire_defs Let_def
      split: Option.bind_split if_splits)

section \<open>Reading a frame\<close>

lemma Uint32_four: "length x = 4 \<Longrightarrow> Uint32 (Slice x []) = Ret (be32_val x)"
  by (simp add: Uint32_def)

text \<open>What \<open>readFrom\<close> does once the length has arrived: everything but the header.\<close>

lemma readFrom_len:
  assumes "length (f_length f) = 4" and "rd_data r = be32 n @ t"
  shows "readFrom f r limit =
    (let f = f\<lparr>f_length := be32 n\<rparr>; r = r\<lparr>rd_data := t\<rparr> in
     if n > limit then Ret (f, r, 4, Some (ErrFrameLength n limit))
     else do {
       buf \<leftarrow> Grow (unat n) (buf_Reset (f_buf f));
       let off = sb_w buf;
       (buf, dataBuf) \<leftarrow> WriteNBytes (unat n) buf;
       case ReadFull (slen dataBuf) r of (x, err, r) \<Rightarrow>
         let buf = write_back off (Slice (x @ drop (length x) (vis dataBuf)) (spare dataBuf)) buf;
             f = f\<lparr>f_buf := buf\<rparr>;
             m = length x + 4 in
         case err of
           Some e \<Rightarrow> Ret (f, r, m, Some (ErrWrap ''reading frame payload'' e))
         | None \<Rightarrow> do {
             (f, err) \<leftarrow> decodeHeader f;
             Ret (f, r, m, err)
           }
     })"
  using assms
  by (simp add: readFrom_def ReadFull_def Uint32_four Let_def cong: option.case_cong prod.case_cong)

lemma frame_inv_SB:
  assumes "frame_inv f"
  obtains free s where "buf_Reset (f_buf f) = SB [] [] free s" "buf_size (length free)"
    "free = vis (sb_buf (f_buf f))"
  using assms
  by (cases "f_buf f"; cases "sb_buf (f_buf f)")
    (auto simp: frame_inv_def buf_Reset_def SB_def)

lemma unat_u32_alloc: "unat (n :: u32) \<le> max_alloc"
  using unsigned_less [of n, where ?'a = nat] by (simp add: max_alloc_def)

lemma readFrom_body:
  assumes "frame_inv f" and "rd_data r = be32 n @ body @ t" and "unat n = length body" and "n \<le> limit"
  obtains free s where "readFrom f r limit =
      do {
        (f, err) \<leftarrow> decodeHeader (f\<lparr>f_length := be32 n, f_buf := SB [] body free s\<rparr>);
        Ret (f, r\<lparr>rd_data := t\<rparr>, length body + 4, err)
      }"
    "length body + length free = max (length body) (slen (sb_buf (f_buf f)))"
proof -
  from assms(1) obtain fr0 s0 where b: "buf_Reset (f_buf f) = SB [] [] fr0 s0"
    and "fr0 = vis (sb_buf (f_buf f))" by (rule frame_inv_SB)
  obtain x free s where g: "Grow (unat n) (SB [] [] fr0 s0) = Ret (SB [] [] (x @ free) s)"
    and x: "length x = unat n" and l: "unat n + length free = max (unat n) (length fr0)"
    using unat_u32_alloc by (rule Grow_empty)
  have f4: "length (f_length f) = 4" using assms(1) by (simp add: frame_inv_def wire_defs)
  have "write_back 0 (Slice (body @ drop (length body) x) (free @ s)) (SB [] x free s) = SB [] body free s"
    using x assms(3) by (simp add: write_back_SB)
  then have "readFrom f r limit =
      do {
        (f, err) \<leftarrow> decodeHeader (f\<lparr>f_length := be32 n, f_buf := SB [] body free s\<rparr>);
        Ret (f, r\<lparr>rd_data := t\<rparr>, length body + 4, err)
      }"
    using x assms(3) leD [OF assms(4)] b g WriteNBytes_SB [of x "unat n" "[]" "[]" free s]
    by (subst readFrom_len [OF f4 assms(2)]) (simp add: ReadFull_def Let_def)
  with l assms(3) \<open>fr0 = _\<close> that show ?thesis by simp
qed

text \<open>A frame stays usable, and can go back to the pool, on every path of \<open>readFrom\<close>.\<close>

lemma decodeHeader_inv:
  "frame_inv f \<Longrightarrow> decodeHeader f = Ret (f', err) \<Longrightarrow> frame_inv f'"
  by (auto simp: decodeHeader_def frame_inv_def ReadNBytes_def AdvanceR_def Let_def bind_eq_Some_conv
      split: if_splits prod.splits)

lemma readFrom_inv:
  assumes "frame_inv f" and "readFrom f r limit = Ret (f', r', n, err)"
  shows "frame_inv f'"
proof -
  obtain x e r1 where x: "ReadFull 4 r = (x, e, r1)" by (cases "ReadFull 4 r")
  from assms(1) have f4: "length (f_length f) = 4" by (simp add: frame_inv_def wire_defs)
  let ?f = "f\<lparr>f_length := x @ drop (length x) (f_length f)\<rparr>"
  have xl: "length x \<le> 4" "e = None \<longrightarrow> length x = 4" using ReadFull_consumes [OF x] by auto
  with assms(1) f4 have inv: "frame_inv ?f" by (simp add: frame_inv_def wire_defs)
  show ?thesis
  proof (cases "e = None \<and> be32_val x \<le> limit")
    case False
    with assms(2) x xl f4 inv show ?thesis
      by (cases e) (auto simp: readFrom_def Let_def Uint32_def not_le)
  next
    case True
    let ?n = "be32_val x"
    from inv obtain fr0 s0 where b: "buf_Reset (f_buf ?f) = SB [] [] fr0 s0" "buf_size (length fr0)"
      by (rule frame_inv_SB)
    obtain y free s where g: "Grow (unat ?n) (SB [] [] fr0 s0) = Ret (SB [] [] (y @ free) s)"
      and y: "length y = unat ?n" and l: "unat ?n + length free = max (unat ?n) (length fr0)"
      using unat_u32_alloc by (rule Grow_empty)
    obtain z e2 r2 where z: "ReadFull (unat ?n) r1 = (z, e2, r2)" by (cases "ReadFull (unat ?n) r1")
    let ?y = "z @ drop (length z) y"
    have zl: "length z \<le> unat ?n" using ReadFull_consumes [OF z] by simp
    then have wb: "write_back 0 (Slice ?y (free @ s)) (SB [] y free s) = SB [] ?y free s"
      using y by (simp add: write_back_SB)
    have "frame_inv (?f\<lparr>f_buf := SB [] ?y free s\<rparr>)"
      using b(2) l y zl f4 xl unat_u32_alloc [of ?n] by (simp add: frame_inv_def SB_def wire_defs le_max_iff_disj)
    moreover from True have e: "e = None" and nl: "\<not> limit < ?n" by (simp_all add: not_less)
    have "f' = ?f\<lparr>f_buf := SB [] ?y free s\<rparr> \<or>
        decodeHeader (?f\<lparr>f_buf := SB [] ?y free s\<rparr>) = Ret (f', err)"
      using assms(2) e nl x xl f4 b(1) g y z wb WriteNBytes_SB [of y "unat ?n" "[]" "[]" free s]
      by (auto simp: readFrom_def Let_def Uint32_def bind_eq_Some_conv split: option.splits)
    ultimately show ?thesis using decodeHeader_inv by blast
  qed
qed

lemma readFrom_consumes:
  assumes "frame_inv f" and "readFrom f r limit = Ret (f', r', n, None)"
  shows "length (rd_data r') + 4 \<le> length (rd_data r)"
proof -
  obtain x e r1 where x: "ReadFull 4 r = (x, e, r1)" by (cases "ReadFull 4 r")
  have f4: "length (f_length f) = 4" using assms(1) by (simp add: frame_inv_def wire_defs)
  with assms(2) x have e: "e = None" by (cases e) (auto simp: readFrom_def Let_def)
  with x have r1: "length (rd_data r1) + 4 = length (rd_data r)"
    using ReadFull_consumes [OF x] by simp
  have "length (rd_data r') \<le> length (rd_data r1)"
    using assms(2) x f4 e
    by (auto simp: readFrom_def Let_def bind_eq_Some_conv case_prod_beta ReadFull_shorter
        split: if_splits option.splits)
  with r1 show ?thesis by simp
qed

text \<open>\<open>wire_frame\<close>: the bytes of a frame with its length.\<close>

definition wire_frame :: "byte \<Rightarrow> frameMetadata \<Rightarrow> byte list \<Rightarrow> byte list" where
  "wire_frame t m payload =
     (let body = header_enc t (Flags m) (StreamID m) (FrameID m) @ payload
      in be32 (of_nat (length body)) @ body)"

text \<open>
  A frame on the wire is read completely and exactly, with the fields and the payload it was
  sent with, whatever frame and old buffer the pool supplies.
\<close>

lemma readFrom_wire_ok:
  assumes "frame_inv f" and "rd_data r = wire_frame t m payload @ rest"
    and "length (header_enc t (Flags m) (StreamID m) (FrameID m) @ payload) \<le> unat limit"
  shows "\<exists>f' dat. readFrom f r limit = Ret (f', r\<lparr>rd_data := rest\<rparr>, length (wire_frame t m payload), None) \<and>
    f_frameType f' = t \<and> f_meta f' = m \<and> frame_inv f' \<and>
    ReadBytes (f_buf f') = Ret dat \<and> vis dat = payload"
proof -
  let ?h = "header_enc t (Flags m) (StreamID m) (FrameID m)"
  let ?n = "of_nat (length (?h @ payload)) :: u32"
  have n: "unat ?n = length (?h @ payload)"
    using assms(3) unsigned_less [of limit, where ?'a = nat]
    by (simp only: unat_of_nat) (simp add: take_bit_nat_eq_self)
  with assms(3) have le: "?n \<le> limit" by (simp add: word_le_nat_alt)
  from assms(2) have r: "rd_data r = be32 ?n @ (?h @ payload) @ rest"
    by (simp add: wire_frame_def Let_def)
  obtain free s where rf: "readFrom f r limit =
      do {
        (f, err) \<leftarrow> decodeHeader (f\<lparr>f_length := be32 ?n, f_buf := SB [] (?h @ payload) free s\<rparr>);
        Ret (f, r\<lparr>rd_data := rest\<rparr>, length (?h @ payload) + 4, err)
      }" and l: "length (?h @ payload) + length free = max (length (?h @ payload)) (slen (sb_buf (f_buf f)))"
    by (rule readFrom_body [OF assms(1) r n le])
  have d: "decodeHeader (f\<lparr>f_length := be32 ?n, f_buf := SB [] (?h @ payload) free s\<rparr>) =
      Ret (f\<lparr>f_length := be32 ?n, f_buf := SB ?h payload free s, f_frameType := t, f_meta := m\<rparr>, None)"
    using decodeHeader_SB [of "f\<lparr>f_length := be32 ?n, f_buf := SB [] (?h @ payload) free s\<rparr>"
      t "Flags m" "StreamID m" "FrameID m" payload free s]
    by (cases m) simp
  have "frame_inv (f\<lparr>f_length := be32 ?n, f_buf := SB ?h payload free s, f_frameType := t, f_meta := m\<rparr>)"
    using assms(1) l n unat_u32_alloc [of ?n]
    by (simp add: frame_inv_def SB_def wire_defs le_max_iff_disj add.assoc)
  then show ?thesis
    using rf d by (simp add: ReadBytes_SB wire_frame_def Let_def add.commute)
qed

text \<open>
  A frame that announces more than the limit is refused after its length: nothing else is read
  and nothing is allocated.
\<close>

lemma readFrom_limit:
  assumes "frame_inv f" and "rd_data r = be32 n @ t" and "limit < n"
  shows "readFrom f r limit =
    Ret (f\<lparr>f_length := be32 n\<rparr>, r\<lparr>rd_data := t\<rparr>, 4, Some (ErrFrameLength n limit))"
  using assms by (subst readFrom_len) (auto simp: frame_inv_def wire_defs)

text \<open>A frame of fewer than five bytes makes \<open>readFrom\<close> panic, with every pooled buffer.\<close>

theorem readFrom_short_panics:
  assumes "frame_inv f" and "rd_data r = be32 (of_nat (length body)) @ body @ t"
    and "length body < 5" and "of_nat (length body) \<le> limit"
  shows "readFrom f r limit = Panic"
proof -
  have "unat (of_nat (length body) :: u32) = length body"
    using assms(3) by (simp add: unat_of_nat take_bit_nat_eq_self)
  from assms(1,2) this assms(4) obtain free s where
    rf: "readFrom f r limit =
      do {
        (f, err) \<leftarrow> decodeHeader (f\<lparr>f_length := be32 (of_nat (length body)), f_buf := SB [] body free s\<rparr>);
        Ret (f, r\<lparr>rd_data := t\<rparr>, length body + 4, err)
      }"
    by (rule readFrom_body)
  have "decodeHeader (f\<lparr>f_length := be32 (of_nat (length body)), f_buf := SB [] body free s\<rparr>) = Panic"
    using assms(3) by (intro decodeHeader_short [of _ body free s]) simp_all
  with rf show ?thesis by simp
qed

lemma readFrom_short_panics_witness:
  "\<exists>f. newFrame = Ret f \<and> readFrom f \<lparr>rd_data = be32 1 @ [3], rd_err = ErrEOF\<rparr> 300 = Panic"
proof -
  obtain f where f: "newFrame = Ret f" "pool_frame f" by (rule newFrame_pool)
  with readFrom_short_panics [OF pool_frame_inv [OF f(2)],
      of "\<lparr>rd_data = be32 1 @ [3], rd_err = ErrEOF\<rparr>" "[3]" "[]" 300]
  show ?thesis by auto
qed

end
