(* ===== verification/KVFormat.thy ===== *)
theory KVFormat
  imports Encoding
begin

text \<open>
  The abstract specification of the SPOP key-value lists and of the writers that produce
  them: typed values, their reference encoding, and the contract of an appending writer
  (locale \<open>appender\<close>) with what its clients get from it for whole lists of values.
\<close>

datatype kval =
    VNull
  | VBool bool
  | VInt32 u32
  | VUInt32 u32
  | VInt64 u64
  | VUInt64 u64
  | VAddr addr
  | VString "byte list"
  | VBinary "byte list"

text \<open>A Go conversion to \<open>int64\<close> sign-extends an \<open>int32\<close> and zero-extends a \<open>uint32\<close>.\<close>

fun val_enc :: "kval \<Rightarrow> byte list" where
  "val_enc VNull = [DataTypeNull]"
| "val_enc (VBool v) = [if v then DataTypeBool OR dataFlagTrue else DataTypeBool]"
| "val_enc (VInt32 w) = DataTypeInt32 # varint_enc (scast w)"
| "val_enc (VUInt32 w) = DataTypeUInt32 # varint_enc (ucast w)"
| "val_enc (VInt64 w) = DataTypeInt64 # varint_enc w"
| "val_enc (VUInt64 w) = DataTypeUInt64 # varint_enc w"
| "val_enc (VAddr a) = (if Is6 a then DataTypeIPV6 else DataTypeIPV4) # AsSlice a"
| "val_enc (VString v) = DataTypeString # bytes_enc v"
| "val_enc (VBinary v) = DataTypeBinary # bytes_enc v"

fun wf_val :: "kval \<Rightarrow> bool" where
  "wf_val (VAddr a) = (wf_addr a \<and> a \<noteq> NoAddr)"
| "wf_val (VString v) = len_ok v"
| "wf_val (VBinary v) = len_ok v"
| "wf_val _ = True"

type_synonym kv = "byte list \<times> kval"

definition kv_enc :: "kv \<Rightarrow> byte list" where
  "kv_enc kv = bytes_enc (fst kv) @ val_enc (snd kv)"

definition wf_kv :: "kv \<Rightarrow> bool" where
  "wf_kv kv \<longleftrightarrow> len_ok (fst kv) \<and> wf_val (snd kv)"

section \<open>Appending writers\<close>

fun write_all :: "('v \<Rightarrow> 'w \<Rightarrow> ('w \<times> gerr option) option) \<Rightarrow> 'v list \<Rightarrow> 'w \<Rightarrow> ('w \<times> gerr option) option" where
  "write_all op [] w = Ret (w, None)"
| "write_all op (v # vs) w = then_ok (op v w) (write_all op vs)"

locale appender =
  fixes op :: "'v \<Rightarrow> 'w \<Rightarrow> ('w \<times> gerr option) option"
    and enc :: "'v \<Rightarrow> byte list"
    and valid :: "'v \<Rightarrow> bool"
    and inv :: "'w \<Rightarrow> bool"
    and out :: "'w \<Rightarrow> byte list"
    and room :: "'w \<Rightarrow> nat \<Rightarrow> bool"
  assumes op_ok: "valid v \<Longrightarrow> inv w \<Longrightarrow> room w (length (enc v)) \<Longrightarrow>
      \<exists>w'. op v w = Ret (w', None) \<and> inv w' \<and> out w' = out w @ enc v \<and>
        (\<forall>k. room w (length (enc v) + k) \<longrightarrow> room w' k)"
    and room_mono: "room w n \<Longrightarrow> m \<le> n \<Longrightarrow> room w m"
begin

lemma op_exact:
  assumes "valid v" "inv w" "room w (length (enc v))" "op v w = Ret (w', err)"
  shows "err = None \<and> inv w' \<and> out w' = out w @ enc v"
  using op_ok [OF assms(1-3)] assms(4) by auto

lemma write_all_ok:
  assumes "\<forall>v \<in> set vs. valid v" and "inv w" and "room w (length (concat (map enc vs)))"
  shows "\<exists>w'. write_all op vs w = Ret (w', None) \<and> inv w' \<and> out w' = out w @ concat (map enc vs)"
  using assms
proof (induction vs arbitrary: w)
  case (Cons v vs)
  then have "room w (length (enc v))" by (auto intro: room_mono)
  with Cons.prems obtain w1 where w1: "op v w = Ret (w1, None)" "inv w1" "out w1 = out w @ enc v"
    "room w1 (length (concat (map enc vs)))"
    using op_ok [of v w] by auto
  with Cons.IH [of w1] Cons.prems(1) show ?case by auto
qed simp

end

end
