(* ===== verification/WriteBuf.thy ===== *)
theory WriteBuf
  imports Encoding
begin

text \<open>
  What the structs \<open>KVWriter\<close> and \<open>ActionWriter\<close> of pkg/encoding have in common: both hold
  a slice \<open>data\<close> and the offset \<open>off\<close> up to which it is written, and their methods are
  made of the same two steps.
\<close>

record wbuf =
  wb_data :: slice
  wb_off :: nat

text \<open>
  The two steps every setter is made of: \<open>n, err := Put(aw.data[aw.off:], ..)\<close> with its
  early return and the advance of the offset, and the write of one byte.
\<close>

definition wb_put ::
  "(slice \<Rightarrow> (slice \<times> nat \<times> gerr option) option) \<Rightarrow> wbuf \<Rightarrow> (wbuf \<times> gerr option) option" where
  "wb_put put aw =
     do {
       (d, n, err) \<leftarrow> put_at (wb_data aw) (wb_off aw) put;
       case err of
         Some e \<Rightarrow> Ret (aw\<lparr>wb_data := d\<rparr>, Some e)
       | None \<Rightarrow> Ret (aw\<lparr>wb_data := d, wb_off := wb_off aw + n\<rparr>, None)
     }"

definition wb_byte :: "byte \<Rightarrow> wbuf \<Rightarrow> wbuf option" where
  "wb_byte x aw =
     do {
       d \<leftarrow> sset (wb_data aw) (wb_off aw) x;
       Ret (aw\<lparr>wb_data := d, wb_off := wb_off aw + 1\<rparr>)
     }"

definition wb_bool :: "bool \<Rightarrow> wbuf \<Rightarrow> wbuf option" where
  "wb_bool v aw =
     do {
       d \<leftarrow> sset (wb_data aw) (wb_off aw) DataTypeBool;
       d \<leftarrow> (if v then do {
               x \<leftarrow> sget d (wb_off aw);
               sset d (wb_off aw) (x OR dataFlagTrue)
             } else Ret d);
       Ret (aw\<lparr>wb_data := d, wb_off := wb_off aw + 1\<rparr>)
     }"

text \<open>A writer with \<open>out\<close> written and \<open>free\<close> left; every state of use has this form.\<close>

definition WB :: "byte list \<Rightarrow> byte list \<Rightarrow> byte list \<Rightarrow> wbuf" where
  "WB out free s = \<lparr>wb_data = Slice (out @ free) s, wb_off = length out\<rparr>"

lemma wb_off_WB [simp]: "wb_off (WB out free s) = length out"
  by (simp add: WB_def)

lemma WB_cases:
  assumes "wb_off w \<le> slen (wb_data w)"
  obtains out free s where "w = WB out free s"
proof -
  have "w = WB (take (wb_off w) (vis (wb_data w))) (drop (wb_off w) (vis (wb_data w))) (spare (wb_data w))"
    using assms by (cases w; cases "wb_data w") (simp add: WB_def min_def)
  then show ?thesis by (rule that)
qed

lemma wb_put_fits:
  assumes "put (Slice free s) = Ret (Slice (e @ drop (length e) free) s, length e, None)"
    and "length e \<le> length free"
  shows "wb_put put (WB out free s) = Ret (WB (out @ e) (drop (length e) free) s, None)"
  using assms by (simp add: wb_put_def put_at_def WB_def splice_tail)

lemma wb_byte_fits: "wb_byte x (WB out (y # free) s) = Ret (WB (out @ [x]) free s)"
  by (simp add: wb_byte_def WB_def sset_mid)

lemma wb_byte_full: "wb_byte x (WB out [] s) = Panic"
  by (simp add: wb_byte_def WB_def sset_def)

lemma wb_bool_fits:
  "wb_bool v (WB out (y # free) s) =
     Ret (WB (out @ [if v then DataTypeBool OR dataFlagTrue else DataTypeBool]) free s)"
  by (simp add: wb_bool_def WB_def sset_mid sget_def)

lemma wb_bool_full: "wb_bool v (WB out [] s) = Panic"
  by (simp add: wb_bool_def WB_def sset_def)

lemma wb_put_bytes:
  "length (bytes_enc v) \<le> length free \<Longrightarrow>
   wb_put (\<lambda>b. PutBytes b v) (WB out free s) =
     Ret (WB (out @ bytes_enc v) (drop (length (bytes_enc v)) free) s, None)"
  by (rule wb_put_fits) (auto simp: PutBytes_fits)

lemma wb_put_varint:
  "length (varint_enc v) \<le> length free \<Longrightarrow>
   wb_put (\<lambda>b. PutVarint b v) (WB out free s) =
     Ret (WB (out @ varint_enc v) (drop (length (varint_enc v)) free) s, None)"
  by (rule wb_put_fits) (auto simp: PutVarint_fits)

lemma wb_put_addr:
  "length (AsSlice a) \<le> length free \<Longrightarrow>
   wb_put (\<lambda>b. PutAddr b a) (WB out free s) =
     Ret (WB (out @ AsSlice a) (drop (length (AsSlice a)) free) s, None)"
  by (rule wb_put_fits) (auto simp: PutAddr_fits)

text \<open>Too little space: the error is reported, and the offset stays.\<close>

lemma wb_put_short:
  assumes "put (Slice free s) = Ret (Slice zs s, n, Some e)" and "length zs = length free"
  shows "wb_put put (WB out free s) = Ret (WB out zs s, Some e)"
  using assms by (simp add: wb_put_def put_at_def WB_def splice_tail)

lemma wb_put_bytes_short:
  assumes "length free < length (bytes_enc v)"
  shows "\<exists>zs. length zs = length free \<and>
    wb_put (\<lambda>b. PutBytes b v) (WB out free s) = Ret (WB out zs s, Some ErrInsufficientSpace)"
  by (rule PutBytes_short [OF assms, of s]) (metis wb_put_short)

lemma wb_put_varint_short:
  assumes "length free < length (varint_enc v)"
  shows "\<exists>zs. length zs = length free \<and>
    wb_put (\<lambda>b. PutVarint b v) (WB out free s) = Ret (WB out zs s, Some ErrInsufficientSpace)"
  by (rule PutVarint_short [OF assms, of s]) (metis wb_put_short)

lemma wb_put_addr_short:
  assumes "length free < length (AsSlice a)"
  shows "\<exists>zs. length zs = length free \<and>
    wb_put (\<lambda>b. PutAddr b a) (WB out free s) = Ret (WB out zs s, Some ErrInsufficientSpace)"
proof -
  have "PutAddr (Slice free s) a = Ret (Slice free s, 0, Some ErrInsufficientSpace)"
    using assms by (simp add: PutAddr_def Let_def)
  then show ?thesis by (metis wb_put_short)
qed

lemmas wb_shorts = wb_put_bytes_short wb_put_varint_short wb_put_addr_short

lemmas wb_fits = wb_byte_fits wb_bool_fits wb_put_bytes wb_put_varint wb_put_addr

end
