(* ===== verification/KVWriter.thy ===== *)
theory KVWriter
  imports KVFormat WriteBuf
begin

text \<open>
  The key-value writer (pkg/encoding/kvwriter.go): a slice and the offset up to which it is
  written. Go strings are their bytes.
\<close>

type_synonym kvwriter = wbuf

definition NewKVWriter :: "slice \<Rightarrow> nat \<Rightarrow> kvwriter" where
  "NewKVWriter buf off = \<lparr>wb_data = buf, wb_off = off\<rparr>"

text \<open>
  Pooled writers: a writer is cleared before it goes back, so every one that is handed out is
  \<open>NewKVWriter nil 0\<close> with its two fields set.
\<close>

definition ReleaseKVWriter :: "kvwriter \<Rightarrow> kvwriter" where
  "ReleaseKVWriter w = w\<lparr>wb_data := Slice [] [], wb_off := 0\<rparr>"

definition AcquireKVWriter :: "kvwriter \<Rightarrow> slice \<Rightarrow> nat \<Rightarrow> kvwriter" where
  "AcquireKVWriter pooled buf off = pooled\<lparr>wb_data := buf, wb_off := off\<rparr>"

definition KVWriter_Off :: "kvwriter \<Rightarrow> nat" where
  "KVWriter_Off aw = wb_off aw"

definition KVWriter_Bytes :: "kvwriter \<Rightarrow> slice option" where
  "KVWriter_Bytes aw = supto (wb_data aw) (wb_off aw)"

definition writeKey :: "byte list \<Rightarrow> kvwriter \<Rightarrow> (kvwriter \<times> gerr option) option" where
  "writeKey name aw = wb_put (\<lambda>b. PutBytes b name) aw"

definition SetString :: "byte list \<Rightarrow> byte list \<Rightarrow> kvwriter \<Rightarrow> (kvwriter \<times> gerr option) option" where
  "SetString name v aw =
     then_ok (writeKey name aw) (\<lambda>aw. do {
       aw \<leftarrow> wb_byte DataTypeString aw;
       wb_put (\<lambda>b. PutBytes b v) aw
     })"

definition SetBinary :: "byte list \<Rightarrow> byte list \<Rightarrow> kvwriter \<Rightarrow> (kvwriter \<times> gerr option) option" where
  "SetBinary name v aw =
     then_ok (writeKey name aw) (\<lambda>aw. do {
       aw \<leftarrow> wb_byte DataTypeBinary aw;
       wb_put (\<lambda>b. PutBytes b v) aw
     })"

definition SetNull :: "byte list \<Rightarrow> kvwriter \<Rightarrow> (kvwriter \<times> gerr option) option" where
  "SetNull name aw =
     then_ok (writeKey name aw) (\<lambda>aw. do {
       aw \<leftarrow> wb_byte DataTypeNull aw;
       Ret (aw, None)
     })"

definition SetBool :: "byte list \<Rightarrow> bool \<Rightarrow> kvwriter \<Rightarrow> (kvwriter \<times> gerr option) option" where
  "SetBool name v aw =
     then_ok (writeKey name aw) (\<lambda>aw. do {
       aw \<leftarrow> wb_bool v aw;
       Ret (aw, None)
     })"

definition setInt :: "byte list \<Rightarrow> byte \<Rightarrow> u64 \<Rightarrow> kvwriter \<Rightarrow> (kvwriter \<times> gerr option) option" where
  "setInt name d v aw =
     then_ok (writeKey name aw) (\<lambda>aw. do {
       aw \<leftarrow> wb_byte d aw;
       wb_put (\<lambda>b. PutVarint b v) aw
     })"

definition SetUInt32 :: "byte list \<Rightarrow> u32 \<Rightarrow> kvwriter \<Rightarrow> (kvwriter \<times> gerr option) option" where
  "SetUInt32 name v = setInt name DataTypeUInt32 (ucast v)"

definition SetInt32 :: "byte list \<Rightarrow> u32 \<Rightarrow> kvwriter \<Rightarrow> (kvwriter \<times> gerr option) option" where
  "SetInt32 name v = setInt name DataTypeInt32 (scast v)"

definition SetInt64 :: "byte list \<Rightarrow> u64 \<Rightarrow> kvwriter \<Rightarrow> (kvwriter \<times> gerr option) option" where
  "SetInt64 name v = setInt name DataTypeInt64 v"

definition SetUInt64 :: "byte list \<Rightarrow> u64 \<Rightarrow> kvwriter \<Rightarrow> (kvwriter \<times> gerr option) option" where
  "SetUInt64 name v = setInt name DataTypeUInt64 v"

definition SetAddr :: "byte list \<Rightarrow> addr \<Rightarrow> kvwriter \<Rightarrow> (kvwriter \<times> gerr option) option" where
  "SetAddr name v aw =
     then_ok (writeKey name aw) (\<lambda>aw.
       if Is6 v then do {
         aw \<leftarrow> wb_byte DataTypeIPV6 aw;
         wb_put (\<lambda>b. PutAddr b v) aw
       }
       else if Is4 v then do {
         aw \<leftarrow> wb_byte DataTypeIPV4 aw;
         wb_put (\<lambda>b. PutAddr b v) aw
       }
       else Ret (aw, Some ErrInvalidAddress))"

section \<open>What the setters write\<close>

lemma writeKey_fits:
  "length (bytes_enc name) \<le> length free \<Longrightarrow>
   writeKey name (WB out free s) = Ret (WB (out @ bytes_enc name) (drop (length (bytes_enc name)) free) s, None)"
  unfolding writeKey_def by (rule wb_put_bytes)

text \<open>The setter that matches a typed value, as the callers choose it.\<close>

fun kv_set :: "kv \<Rightarrow> kvwriter \<Rightarrow> (kvwriter \<times> gerr option) option" where
  "kv_set (name, VNull) = SetNull name"
| "kv_set (name, VBool v) = SetBool name v"
| "kv_set (name, VInt32 v) = SetInt32 name v"
| "kv_set (name, VUInt32 v) = SetUInt32 name v"
| "kv_set (name, VInt64 v) = SetInt64 name v"
| "kv_set (name, VUInt64 v) = SetUInt64 name v"
| "kv_set (name, VAddr v) = SetAddr name v"
| "kv_set (name, VString v) = SetString name v"
| "kv_set (name, VBinary v) = SetBinary name v"

lemmas kv_setters = SetNull_def SetBool_def SetInt32_def SetUInt32_def SetInt64_def SetUInt64_def
  setInt_def SetAddr_def SetString_def SetBinary_def

lemma kv_set_fits:
  assumes "length (kv_enc kv) \<le> length free" and "wf_kv kv"
  shows "kv_set kv (WB out free s) = Ret (WB (out @ kv_enc kv) (drop (length (kv_enc kv)) free) s, None)"
proof -
  obtain name v where kv: "kv = (name, v)" by (cases kv)
  define free1 where "free1 = drop (length (bytes_enc name)) free"
  have k: "writeKey name (WB out free s) = Ret (WB (out @ bytes_enc name) free1 s, None)"
    using assms(1) unfolding free1_def by (intro writeKey_fits) (simp add: kv kv_enc_def)
  have "length (val_enc v) \<le> length free1"
    using assms(1) by (simp add: free1_def kv kv_enc_def)
  moreover have "val_enc v \<noteq> []" by (cases v) auto
  ultimately obtain y free2 where f: "free1 = y # free2" "length (val_enc v) \<le> Suc (length free2)"
    by (cases free1) auto
  from k f have "kv_set kv (WB out free s) =
      Ret (WB ((out @ bytes_enc name) @ val_enc v) (drop (length (val_enc v)) free1) s, None)"
    using assms(2)
    by (cases v)
      (auto simp: kv kv_setters wf_kv_def wb_fits elim: Is4.elims Is6.elims)
  then show ?thesis by (simp add: free1_def kv kv_enc_def add.commute)
qed

text \<open>
  With too little space a setter reports it, except where the key fills the slice to the last
  byte: then the write of the type byte is out of range.
\<close>

lemma kv_set_short:
  assumes "length free < length (kv_enc kv)" and "wf_kv kv"
    and "length free \<noteq> length (bytes_enc (fst kv))"
  shows "\<exists>w. kv_set kv (WB out free s) = Ret (w, Some ErrInsufficientSpace)"
proof -
  obtain name v where kv: "kv = (name, v)" by (cases kv)
  show ?thesis
  proof (cases "length (bytes_enc name) \<le> length free")
    case False
    then obtain zs where "writeKey name (WB out free s) = Ret (WB out zs s, Some ErrInsufficientSpace)"
      using wb_put_bytes_short [of free name out s] unfolding writeKey_def by (auto simp: not_le)
    then show ?thesis by (cases v) (simp_all add: kv kv_setters)
  next
    case True
    let ?out = "out @ bytes_enc name"
    from True assms(3) kv obtain y free2 where f: "drop (length (bytes_enc name)) free = y # free2"
      by (cases "drop (length (bytes_enc name)) free") auto
    then have l: "length free = length (bytes_enc name) + Suc (length free2)"
      by (metis True le_add_diff_inverse length_drop length_Cons)
    from True f have k: "writeKey name (WB out free s) = Ret (WB ?out (y # free2) s, None)"
      by (simp add: writeKey_fits)
    show ?thesis
      using k l assms(1,2) wb_shorts [of free2 _ "?out @ [_]" s]
      by (cases v) (fastforce simp: kv kv_setters wf_kv_def kv_enc_def wb_byte_fits
          elim: Is4.elims Is6.elims split: if_splits)+
  qed
qed

lemma kv_set_key_fills:
  assumes "length free = length (bytes_enc (fst kv))" and "wf_kv kv"
  shows "kv_set kv (WB out free s) = Panic"
proof -
  obtain name v where kv: "kv = (name, v)" by (cases kv)
  with assms(1) have "writeKey name (WB out free s) = Ret (WB (out @ bytes_enc name) [] s, None)"
    by (simp add: writeKey_fits)
  then show ?thesis using assms(2)
    by (cases v) (auto simp: kv kv_setters wf_kv_def wb_byte_full wb_bool_full elim: Is4.elims Is6.elims)
qed

text \<open>The key-value writer is an appending writer.\<close>

definition kw_inv :: "kvwriter \<Rightarrow> bool" where
  "kw_inv w \<longleftrightarrow> wb_off w \<le> slen (wb_data w)"

definition wb_out :: "wbuf \<Rightarrow> byte list" where
  "wb_out w = take (wb_off w) (vis (wb_data w))"

definition kw_room :: "kvwriter \<Rightarrow> nat \<Rightarrow> bool" where
  "kw_room w n \<longleftrightarrow> wb_off w + n \<le> slen (wb_data w)"

lemma wb_out_WB [simp]: "wb_out (WB out free s) = out"
  by (simp add: wb_out_def WB_def)

lemma kw_inv_WB [simp]: "kw_inv (WB out free s)"
  by (simp add: kw_inv_def WB_def)

lemma kw_room_WB [simp]: "kw_room (WB out free s) n \<longleftrightarrow> n \<le> length free"
  by (simp add: kw_room_def WB_def)

interpretation kvw: appender kv_set kv_enc wf_kv kw_inv wb_out kw_room
proof unfold_locales
  fix v w
  assume v: "wf_kv v" and "kw_inv w" and r: "kw_room w (length (kv_enc v))"
  then obtain out free s where w: "w = WB out free s"
    unfolding kw_inv_def by (metis WB_cases)
  from r have f: "length (kv_enc v) \<le> length free" by (simp add: w)
  show "\<exists>w'. kv_set v w = Ret (w', None) \<and> kw_inv w' \<and> wb_out w' = wb_out w @ kv_enc v \<and>
      (\<forall>k. kw_room w (length (kv_enc v) + k) \<longrightarrow> kw_room w' k)"
    using kv_set_fits [OF f v, of out s] by (auto simp: w)
qed (auto simp: kw_room_def)

text \<open>C30: a setter of the key-value writer appends the encoding of its key and value when it
  fits; otherwise it never reports success: it returns \<open>ErrInsufficientSpace\<close>, or panics
  when the key takes exactly the space that is left.\<close>

theorem kvwriter_set:
  assumes "wf_kv kv" and "kw_inv w"
  shows "if kw_room w (length (kv_enc kv))
         then \<exists>w'. kv_set kv w = Ret (w', None) \<and> kw_inv w' \<and> wb_out w' = wb_out w @ kv_enc kv
         else if wb_off w + length (bytes_enc (fst kv)) = slen (wb_data w)
         then kv_set kv w = Panic
         else \<exists>w'. kv_set kv w = Ret (w', Some ErrInsufficientSpace)"
proof (cases "kw_room w (length (kv_enc kv))")
  case True
  with kvw.op_ok [OF assms] show ?thesis by auto
next
  case False
  from assms(2) obtain out free s where w: "w = WB out free s"
    unfolding kw_inv_def by (metis WB_cases)
  from False have f: "length free < length (kv_enc kv)" by (simp add: w)
  then show ?thesis
    using False kv_set_short [OF f assms(1), of out s] kv_set_key_fills [of free kv out s] assms(1)
    by (auto simp: w WB_def)
qed

lemma kvwriter_set_witness:
  "kv_set ([1], VNull) \<lparr>wb_data = Slice [0, 0] [], wb_off = 0\<rparr> = Panic"
proof -
  have "wf_kv ([1], VNull)" and "kw_inv \<lparr>wb_data = Slice [0, 0] [], wb_off = 0\<rparr>"
    by (simp_all add: wf_kv_def len_ok_def kw_inv_def)
  from kvwriter_set [OF this] show ?thesis
    by (simp add: kw_room_def kv_enc_def bytes_enc_def varint_enc_def)
qed

end
