(* ===== verification/ActionWriter.thy ===== *)
theory ActionWriter
  imports KVWriter
begin

text \<open>
  The writer of the actions an agent answers with (pkg/encoding/actionwriter.go). Unlike the
  key-value writer it grows its slice: \<open>grow\<close> moves the written part to a larger one.
\<close>

type_synonym actionwriter = wbuf

section \<open>The code\<close>

definition ActionTypeSetVar :: byte where [wire_defs]: "ActionTypeSetVar = 1"
definition ActionTypeUnsetVar :: byte where [wire_defs]: "ActionTypeUnsetVar = 2"

definition VarScopeProcess :: byte where [wire_defs]: "VarScopeProcess = 0"
definition VarScopeSession :: byte where [wire_defs]: "VarScopeSession = 1"
definition VarScopeTransaction :: byte where [wire_defs]: "VarScopeTransaction = 2"
definition VarScopeRequest :: byte where [wire_defs]: "VarScopeRequest = 3"
definition VarScopeResponse :: byte where [wire_defs]: "VarScopeResponse = 4"

definition NewActionWriter :: "slice \<Rightarrow> nat \<Rightarrow> actionwriter" where
  "NewActionWriter buf off = \<lparr>wb_data = buf, wb_off = off\<rparr>"

definition ReleaseActionWriter :: "actionwriter \<Rightarrow> actionwriter" where
  "ReleaseActionWriter w = w\<lparr>wb_data := Slice [] [], wb_off := 0\<rparr>"

definition AcquireActionWriter :: "actionwriter \<Rightarrow> slice \<Rightarrow> nat \<Rightarrow> actionwriter" where
  "AcquireActionWriter pooled buf off = pooled\<lparr>wb_data := buf, wb_off := off\<rparr>"

definition ActionWriter_Off :: "actionwriter \<Rightarrow> nat" where
  "ActionWriter_Off aw = wb_off aw"

definition ActionWriter_Bytes :: "actionwriter \<Rightarrow> slice option" where
  "ActionWriter_Bytes aw = supto (wb_data aw) (wb_off aw)"

definition grow :: "nat \<Rightarrow> actionwriter \<Rightarrow> actionwriter option" where
  "grow n aw =
     (if int n \<le> int (slen (wb_data aw)) - int (wb_off aw) then Ret aw
      else do {
        let size = slen (wb_data aw) * 2;
        let required = wb_off aw + n;
        let size = (if size < required then required else size);
        data \<leftarrow> smake size;
        old \<leftarrow> supto (wb_data aw) (wb_off aw);
        Ret (aw\<lparr>wb_data := fst (scopy data (vis old))\<rparr>)
      })"

function varintLen_loop :: "u64 \<Rightarrow> nat \<Rightarrow> nat" where
  "varintLen_loop v n = (if v \<ge> 128 then varintLen_loop (drop_bit 7 (v - 128)) (n + 1) else n)"
  by pat_completeness auto
termination
  by (relation "measure (\<lambda>(v, n). unat v)") (auto simp: unat_drop7_less)

declare varintLen_loop.simps [simp del]

definition varintLen :: "u64 \<Rightarrow> nat" where
  "varintLen v = (if v < 240 then 1 else varintLen_loop (drop_bit 4 (v - 240)) 2)"

definition actionHeader :: "byte \<Rightarrow> byte \<Rightarrow> byte list \<Rightarrow> actionwriter \<Rightarrow> (actionwriter \<times> gerr option) option" where
  "actionHeader t s name aw =
     do {
       aw \<leftarrow> grow (3 + varintLen (of_nat (length name)) + length name) aw;
       aw \<leftarrow> wb_byte t aw;
       nbArgs \<leftarrow> (if t = ActionTypeSetVar then Ret 3
                   else if t = ActionTypeUnsetVar then Ret 2
                   else Panic);
       aw \<leftarrow> wb_byte nbArgs aw;
       aw \<leftarrow> wb_byte s aw;
       wb_put (\<lambda>b. PutBytes b name) aw
     }"

definition Unset :: "byte \<Rightarrow> byte list \<Rightarrow> actionwriter \<Rightarrow> (actionwriter \<times> gerr option) option" where
  "Unset s name = actionHeader ActionTypeUnsetVar s name"

definition Action_SetStringBytes ::
  "byte \<Rightarrow> byte list \<Rightarrow> byte list \<Rightarrow> actionwriter \<Rightarrow> (actionwriter \<times> gerr option) option" where
  "Action_SetStringBytes s name v aw =
     then_ok (actionHeader ActionTypeSetVar s name aw) (\<lambda>aw. do {
       aw \<leftarrow> grow (1 + varintLen (of_nat (length v)) + length v) aw;
       aw \<leftarrow> wb_byte DataTypeString aw;
       wb_put (\<lambda>b. PutBytes b v) aw
     })"

definition Action_SetString ::
  "byte \<Rightarrow> byte list \<Rightarrow> byte list \<Rightarrow> actionwriter \<Rightarrow> (actionwriter \<times> gerr option) option" where
  "Action_SetString s name v = Action_SetStringBytes s name v"

definition Action_SetBinary ::
  "byte \<Rightarrow> byte list \<Rightarrow> byte list \<Rightarrow> actionwriter \<Rightarrow> (actionwriter \<times> gerr option) option" where
  "Action_SetBinary s name v aw =
     then_ok (actionHeader ActionTypeSetVar s name aw) (\<lambda>aw. do {
       aw \<leftarrow> grow (1 + varintLen (of_nat (length v)) + length v) aw;
       aw \<leftarrow> wb_byte DataTypeBinary aw;
       wb_put (\<lambda>b. PutBytes b v) aw
     })"

definition Action_SetNull :: "byte \<Rightarrow> byte list \<Rightarrow> actionwriter \<Rightarrow> (actionwriter \<times> gerr option) option" where
  "Action_SetNull s name aw =
     then_ok (actionHeader ActionTypeSetVar s name aw) (\<lambda>aw. do {
       aw \<leftarrow> grow 1 aw;
       aw \<leftarrow> wb_byte DataTypeNull aw;
       Ret (aw, None)
     })"

definition Action_SetBool ::
  "byte \<Rightarrow> byte list \<Rightarrow> bool \<Rightarrow> actionwriter \<Rightarrow> (actionwriter \<times> gerr option) option" where
  "Action_SetBool s name v aw =
     then_ok (actionHeader ActionTypeSetVar s name aw) (\<lambda>aw. do {
       aw \<leftarrow> grow 1 aw;
       aw \<leftarrow> wb_bool v aw;
       Ret (aw, None)
     })"

definition Action_SetInt64 ::
  "byte \<Rightarrow> byte list \<Rightarrow> u64 \<Rightarrow> actionwriter \<Rightarrow> (actionwriter \<times> gerr option) option" where
  "Action_SetInt64 s name v aw =
     then_ok (actionHeader ActionTypeSetVar s name aw) (\<lambda>aw. do {
       aw \<leftarrow> grow (1 + varintLen v) aw;
       aw \<leftarrow> wb_byte DataTypeInt64 aw;
       wb_put (\<lambda>b. PutVarint b v) aw
     })"

definition Action_SetUInt32 ::
  "byte \<Rightarrow> byte list \<Rightarrow> u32 \<Rightarrow> actionwriter \<Rightarrow> (actionwriter \<times> gerr option) option" where
  "Action_SetUInt32 s name v = Action_SetInt64 s name (ucast v)"

definition Action_SetInt32 ::
  "byte \<Rightarrow> byte list \<Rightarrow> u32 \<Rightarrow> actionwriter \<Rightarrow> (actionwriter \<times> gerr option) option" where
  "Action_SetInt32 s name v = Action_SetInt64 s name (scast v)"

definition Action_SetUInt64 ::
  "byte \<Rightarrow> byte list \<Rightarrow> u64 \<Rightarrow> actionwriter \<Rightarrow> (actionwriter \<times> gerr option) option" where
  "Action_SetUInt64 s name v = Action_SetInt64 s name v"

definition Action_SetAddr ::
  "byte \<Rightarrow> byte list \<Rightarrow> addr \<Rightarrow> actionwriter \<Rightarrow> (actionwriter \<times> gerr option) option" where
  "Action_SetAddr s name v aw =
     then_ok (actionHeader ActionTypeSetVar s name aw) (\<lambda>aw. do {
       aw \<leftarrow> grow (1 + BitLen v div 8) aw;
       if Is6 v then do {
         aw \<leftarrow> wb_byte DataTypeIPV6 aw;
         wb_put (\<lambda>b. PutAddr b v) aw
       }
       else if Is4 v then do {
         aw \<leftarrow> wb_byte DataTypeIPV4 aw;
         wb_put (\<lambda>b. PutAddr b v) aw
       }
       else Ret (aw, Some ErrInvalidAddress)
     })"

section \<open>The actions and their encoding\<close>

text \<open>
  Integers of all four types are sent as signed 64-bit values: the setters for the other
  widths convert and call \<open>SetInt64\<close>.
\<close>

datatype action = SetVar byte "byte list" kval | UnsetVar byte "byte list"

fun action_val :: "kval \<Rightarrow> kval" where
  "action_val (VInt32 w) = VInt64 (scast w)"
| "action_val (VUInt32 w) = VInt64 (ucast w)"
| "action_val (VUInt64 w) = VInt64 w"
| "action_val v = v"

fun action_enc :: "action \<Rightarrow> byte list" where
  "action_enc (SetVar s name v) =
     ActionTypeSetVar # 3 # s # bytes_enc name @ val_enc (action_val v)"
| "action_enc (UnsetVar s name) = ActionTypeUnsetVar # 2 # s # bytes_enc name"

fun wf_action :: "action \<Rightarrow> bool" where
  "wf_action (SetVar s name v) = wf_val v"
| "wf_action (UnsetVar s name) = True"

fun action_write :: "action \<Rightarrow> actionwriter \<Rightarrow> (actionwriter \<times> gerr option) option" where
  "action_write (UnsetVar s name) = Unset s name"
| "action_write (SetVar s name VNull) = Action_SetNull s name"
| "action_write (SetVar s name (VBool v)) = Action_SetBool s name v"
| "action_write (SetVar s name (VInt32 v)) = Action_SetInt32 s name v"
| "action_write (SetVar s name (VUInt32 v)) = Action_SetUInt32 s name v"
| "action_write (SetVar s name (VInt64 v)) = Action_SetInt64 s name v"
| "action_write (SetVar s name (VUInt64 v)) = Action_SetUInt64 s name v"
| "action_write (SetVar s name (VAddr v)) = Action_SetAddr s name v"
| "action_write (SetVar s name (VString v)) = Action_SetString s name v"
| "action_write (SetVar s name (VBinary v)) = Action_SetBinary s name v"

lemmas action_setters = Unset_def Action_SetNull_def Action_SetBool_def Action_SetInt32_def
  Action_SetUInt32_def Action_SetInt64_def Action_SetUInt64_def Action_SetAddr_def
  Action_SetString_def Action_SetStringBytes_def Action_SetBinary_def

section \<open>Properties\<close>

lemma varintLen_loop_eq: "varintLen_loop v n = n + length (varint_rest v) - 1"
proof (induction v n rule: varintLen_loop.induct)
  case (1 v n)
  then show ?case
    by (cases "128 \<le> v")
      (simp_all add: varintLen_loop.simps [of v] varint_rest.simps [of v])
qed

lemma varintLen_eq: "varintLen v = length (varint_enc v)"
  by (simp add: varintLen_def varint_enc_def varintLen_loop_eq)

text \<open>Growing keeps what is written and makes room; it may only fail beyond \<open>max_alloc\<close>.\<close>

lemma grow_WB:
  assumes "2 * (length out + n) \<le> max_alloc"
  obtains free' s' where "grow n (WB out free s) = Ret (WB out free' s')" "n \<le> length free'"
proof (cases "n \<le> length free")
  case True
  then have "grow n (WB out free s) = Ret (WB out free s)" by (simp add: grow_def WB_def)
  with True that show ?thesis by blast
next
  case False
  let ?size = "max (2 * (length out + length free)) (length out + n)"
  have "grow n (WB out free s) = Ret (WB out (replicate (?size - length out) 0) [])"
    using False assms by (auto simp: grow_def WB_def Let_def smake_def scopy_def max_def)
  moreover have "n \<le> length (replicate (?size - length out) (0::byte))" by simp
  ultimately show ?thesis using that by blast
qed

lemma length_bytes_enc: "length (bytes_enc v) = varintLen (of_nat (length v)) + length v"
  by (simp add: bytes_enc_def varintLen_eq)

lemma varint_length_plus: "length (varint_enc (of_nat (length v))) + length v = length (bytes_enc v)"
  by (simp add: bytes_enc_def)

lemma actionHeader_WB:
  assumes "(t, nb) \<in> {(ActionTypeSetVar, 3), (ActionTypeUnsetVar, 2)}"
    and "2 * (length out + (3 + length (bytes_enc name))) \<le> max_alloc"
  obtains free' s' where
    "actionHeader t sc name (WB out free s) = Ret (WB (out @ t # nb # sc # bytes_enc name) free' s', None)"
proof -
  have l: "3 + varintLen (of_nat (length name)) + length name = 3 + length (bytes_enc name)"
    by (simp add: length_bytes_enc)
  from assms(2) obtain f1 s1 where g: "grow (3 + length (bytes_enc name)) (WB out free s) = Ret (WB out f1 s1)"
    and f1: "3 + length (bytes_enc name) \<le> length f1"
    by (rule grow_WB)
  then obtain a b c f2 where f2: "f1 = a # b # c # f2"
    by (metis Suc_le_length_iff add_leD1 numeral_3_eq_3)
  with f1 have "length (bytes_enc name) \<le> length f2" by simp
  with g f2 assms(1)
  have "actionHeader t sc name (WB out free s) =
      Ret (WB (out @ t # nb # sc # bytes_enc name) (drop (length (bytes_enc name)) f2) s1, None)"
    by (auto simp: actionHeader_def l wb_fits wire_defs)
  then show ?thesis by (rule that)
qed

text \<open>The value part of a setter: room for the type byte and the value, then both.\<close>

lemma action_value_WB:
  assumes "2 * (length out + Suc n) \<le> max_alloc"
  obtains y f1 s1 where "grow (Suc n) (WB out free s) = Ret (WB out (y # f1) s1)" "n \<le> length f1"
proof -
  from assms obtain f s1 where "grow (Suc n) (WB out free s) = Ret (WB out f s1)" "Suc n \<le> length f"
    by (rule grow_WB)
  then show ?thesis using that by (cases f) auto
qed

lemma action_write_WB:
  assumes "wf_action a" and "2 * (length out + length (action_enc a)) \<le> max_alloc"
  shows "\<exists>free' s'. action_write a (WB out free s) = Ret (WB (out @ action_enc a) free' s', None)"
proof (cases a)
  case (UnsetVar sc name)
  with assms(2) obtain f' s' where "actionHeader ActionTypeUnsetVar sc name (WB out free s) =
      Ret (WB (out @ action_enc a) f' s', None)"
    by (auto intro: actionHeader_WB [of ActionTypeUnsetVar 2 out name sc free s])
  with UnsetVar show ?thesis by (auto simp: Unset_def)
next
  case (SetVar sc name v)
  define h where "h = out @ ActionTypeSetVar # 3 # sc # bytes_enc name"
  define n where "n = length (val_enc (action_val v)) - 1"
  have n: "length (val_enc (action_val v)) = Suc n"
    unfolding n_def by (cases v) auto
  from SetVar assms(2) obtain f s1 where hd:
    "actionHeader ActionTypeSetVar sc name (WB out free s) = Ret (WB h f s1, None)"
    unfolding h_def by (auto intro: actionHeader_WB [of ActionTypeSetVar 3 out name sc free s])
  have "2 * (length h + Suc n) \<le> max_alloc"
    using assms(2) n by (simp add: SetVar h_def)
  then obtain y f1 s2 where g: "grow (Suc n) (WB h f s1) = Ret (WB h (y # f1) s2)" "n \<le> length f1"
    by (rule action_value_WB)
  have "action_write a (WB out free s) = Ret (WB (h @ val_enc (action_val v)) (drop n f1) s2, None)"
    using hd g n assms(1)
    by (cases v)
      (auto simp: SetVar action_setters wb_fits varint_length_plus varintLen_eq BitLen_AsSlice
        elim!: Is4.elims Is6.elims)
  then show ?thesis by (auto simp: SetVar h_def)
qed

text \<open>
  A writer in use: the offset is inside the data, and the length of the data is a Go int. Every
  method keeps this on every path, errors included.
\<close>

definition aw_ok :: "actionwriter \<Rightarrow> bool" where
  "aw_ok w \<longleftrightarrow> kw_inv w \<and> slen (wb_data w) < 2 ^ 63"

lemma aw_ok_WB [simp]: "aw_ok (WB out free s) \<longleftrightarrow> length out + length free < 2 ^ 63"
  by (simp add: aw_ok_def WB_def kw_inv_def)

lemma aw_ok_cases:
  assumes "aw_ok w"
  obtains out free s where "w = WB out free s" "length out + length free < 2 ^ 63"
  using assms aw_ok_WB by (metis WB_cases aw_ok_def kw_inv_def)

lemma aw_ok_inv: "aw_ok w \<Longrightarrow> kw_inv w \<and> wb_off w < 2 ^ 63"
  by (auto simp: aw_ok_def kw_inv_def)

lemma grow_ok: "grow n w = Ret w' \<Longrightarrow> aw_ok w \<Longrightarrow> aw_ok w'"
  by (auto simp: grow_def aw_ok_def kw_inv_def smake_def scopy_def max_alloc_def bind_eq_Some_conv Let_def
      split: if_splits)

lemma wb_byte_ok: "wb_byte x w = Ret w' \<Longrightarrow> aw_ok w \<Longrightarrow> aw_ok w'"
  by (erule aw_ok_cases, rename_tac out free s, case_tac free)
    (auto simp: wb_byte_full wb_byte_fits)

lemma wb_bool_ok: "wb_bool v w = Ret w' \<Longrightarrow> aw_ok w \<Longrightarrow> aw_ok w'"
  by (erule aw_ok_cases, rename_tac out free s, case_tac free)
    (auto simp: wb_bool_full wb_bool_fits)

lemma wb_put_ok:
  assumes "aw_ok w"
  shows "wb_put (\<lambda>b. PutBytes b v) w = Ret (w', err) \<Longrightarrow> aw_ok w'"
    and "wb_put (\<lambda>b. PutVarint b n) w = Ret (w', err) \<Longrightarrow> aw_ok w'"
    and "wb_put (\<lambda>b. PutAddr b a) w = Ret (w', err) \<Longrightarrow> aw_ok w'"
proof -
  from assms obtain out free s where w: "w = WB out free s" "length out + length free < 2 ^ 63"
    by (rule aw_ok_cases)
  show "aw_ok w'" if "wb_put (\<lambda>b. PutBytes b v) w = Ret (w', err)"
    using that w wb_put_bytes [of v free out s] wb_put_bytes_short [of free v out s]
    by (cases "length (bytes_enc v) \<le> length free") auto
  show "aw_ok w'" if "wb_put (\<lambda>b. PutVarint b n) w = Ret (w', err)"
    using that w wb_put_varint [of n free out s] wb_put_varint_short [of free n out s]
    by (cases "length (varint_enc n) \<le> length free") auto
  show "aw_ok w'" if "wb_put (\<lambda>b. PutAddr b a) w = Ret (w', err)"
    using that w wb_put_addr [of a free out s] wb_put_addr_short [of free a out s]
    by (cases "length (AsSlice a) \<le> length free") auto
qed

lemmas aw_steps_ok = grow_ok wb_byte_ok wb_bool_ok wb_put_ok

lemma actionHeader_ok: "actionHeader t s name w = Ret (w', err) \<Longrightarrow> aw_ok w \<Longrightarrow> aw_ok w'"
  by (auto simp: actionHeader_def bind_eq_Some_conv dest!: aw_steps_ok(1,2) elim: aw_steps_ok(4) [rotated])

lemma action_value_ok:
  assumes "then_ok (actionHeader t s name w) k = Ret (w', err)" and "aw_ok w"
    and "\<And>w1 w2 e. k w1 = Ret (w2, e) \<Longrightarrow> aw_ok w1 \<Longrightarrow> aw_ok w2"
  shows "aw_ok w'"
  using assms(1,2) by (auto simp: then_ok_def bind_eq_Some_conv split: option.splits
      intro: actionHeader_ok assms(3))

lemma action_write_ok: "action_write a w = Ret (w', err) \<Longrightarrow> aw_ok w \<Longrightarrow> aw_ok w'"
  by (induction a rule: action_write.induct)
    (auto simp: action_setters bind_eq_Some_conv split: if_splits
      elim!: action_value_ok dest!: aw_steps_ok(1-3) elim: aw_steps_ok(4-6) [rotated] actionHeader_ok)

definition aw_room :: "actionwriter \<Rightarrow> nat \<Rightarrow> bool" where
  "aw_room w n \<longleftrightarrow> 2 * (wb_off w + n) \<le> max_alloc"

lemma aw_room_WB [simp]: "aw_room (WB out free s) n \<longleftrightarrow> 2 * (length out + n) \<le> max_alloc"
  by (simp add: aw_room_def)

interpretation actw: appender action_write action_enc wf_action kw_inv wb_out aw_room
proof unfold_locales
  fix v w
  assume v: "wf_action v" and "kw_inv w" and r: "aw_room w (length (action_enc v))"
  then obtain out free s where w: "w = WB out free s"
    unfolding kw_inv_def by (metis WB_cases)
  from r have "2 * (length out + length (action_enc v)) \<le> max_alloc" by (simp add: w)
  from action_write_WB [OF v this, of free s] obtain f' s' where
    "action_write v w = Ret (WB (out @ action_enc v) f' s', None)" by (auto simp: w)
  then show "\<exists>w'. action_write v w = Ret (w', None) \<and> kw_inv w' \<and> wb_out w' = wb_out w @ action_enc v \<and>
      (\<forall>k. aw_room w (length (action_enc v) + k) \<longrightarrow> aw_room w' k)"
    by (auto simp: w)
qed (auto simp: aw_room_def)

text \<open>Whatever the initial slice, a list of actions is written completely and in order,
  without an error and without a panic, as long as the allocator can serve the doubled size.\<close>

lemma actionwriter_writes_all:
  assumes "\<forall>a \<in> set as. wf_action a" and "kw_inv w"
    and "2 * (wb_off w + length (concat (map action_enc as))) \<le> max_alloc"
  shows "\<exists>w'. write_all action_write as w = Ret (w', None) \<and>
    wb_out w' = wb_out w @ concat (map action_enc as)"
  using actw.write_all_ok [OF assms(1,2)] assms(3) by (auto simp: aw_room_def)

text \<open>\<open>SetAddr\<close> with the zero address returns an error but leaves the action header,
  an action without its value, in the written part.\<close>

theorem setaddr_invalid_leaves_header:
  assumes "kw_inv w" and "2 * (wb_off w + (3 + length (bytes_enc name)) + 1) \<le> max_alloc"
  shows "\<exists>w'. Action_SetAddr s name NoAddr w = Ret (w', Some ErrInvalidAddress) \<and>
    wb_out w' = wb_out w @ ActionTypeSetVar # 3 # s # bytes_enc name"
proof -
  from assms(1) obtain out free sp where w: "w = WB out free sp"
    unfolding kw_inv_def by (metis WB_cases)
  let ?h = "out @ ActionTypeSetVar # 3 # s # bytes_enc name"
  from assms(2) obtain f1 s1 where
    "actionHeader ActionTypeSetVar s name (WB out free sp) = Ret (WB ?h f1 s1, None)"
    by (auto simp: w intro: actionHeader_WB [of ActionTypeSetVar 3 out name s free sp])
  moreover obtain f2 s2 where "grow 1 (WB ?h f1 s1) = Ret (WB ?h f2 s2)"
    using assms(2) by (auto simp: w intro: grow_WB [of ?h 1 f1 s1])
  ultimately show ?thesis by (simp add: w Action_SetAddr_def)
qed

lemma setaddr_invalid_leaves_header_witness:
  "\<exists>w'. Action_SetAddr 2 [7] NoAddr (NewActionWriter (Slice [] []) 0) = Ret (w', Some ErrInvalidAddress) \<and>
    wb_out w' = [1, 3, 2, 1, 7]"
proof -
  have e: "bytes_enc [7] = [1, 7]" by (simp add: bytes_enc_def varint_enc_def)
  have "kw_inv (NewActionWriter (Slice [] []) 0)"
    and "2 * (wb_off (NewActionWriter (Slice [] []) 0) + (3 + length (bytes_enc [7])) + 1) \<le> max_alloc"
    by (simp_all add: kw_inv_def NewActionWriter_def max_alloc_def e)
  from setaddr_invalid_leaves_header [OF this, of 2] show ?thesis
    by (simp add: e wire_defs NewActionWriter_def wb_out_def)
qed

end
