(* ===== verification/Frames.thy ===== *)
theory Frames
  imports Frame KVWriter ActionWriter
begin

text \<open>
  The frames an agent sends (spop/frames.go) and the error codes (spop/error.go). Every
  \<open>WriteTo\<close> takes the frame that \<open>acquireFrame\<close> hands out and returns it released.
\<close>

section \<open>Error codes\<close>

definition ErrorNone :: int where [wire_defs]: "ErrorNone = 0"
definition ErrorIO :: int where [wire_defs]: "ErrorIO = 1"
definition ErrorTimeout :: int where [wire_defs]: "ErrorTimeout = 2"
definition ErrorTooBig :: int where [wire_defs]: "ErrorTooBig = 3"
definition ErrorInvalid :: int where [wire_defs]: "ErrorInvalid = 4"
definition ErrorNoVSN :: int where [wire_defs]: "ErrorNoVSN = 5"
definition ErrorNoFrameSize :: int where [wire_defs]: "ErrorNoFrameSize = 6"
definition ErrorNoCap :: int where [wire_defs]: "ErrorNoCap = 7"
definition ErrorBadVsn :: int where [wire_defs]: "ErrorBadVsn = 8"
definition ErrorBadFrameSize :: int where [wire_defs]: "ErrorBadFrameSize = 9"
definition ErrorFragNotSupported :: int where [wire_defs]: "ErrorFragNotSupported = 10"
definition ErrorInterlacedFrames :: int where [wire_defs]: "ErrorInterlacedFrames = 11"
definition ErrorFrameIDNotfound :: int where [wire_defs]: "ErrorFrameIDNotfound = 12"
definition ErrorRes :: int where [wire_defs]: "ErrorRes = 13"
definition ErrorUnknown :: int where [wire_defs]: "ErrorUnknown = 99"

definition errorCode_String :: "int \<Rightarrow> string" where
  "errorCode_String e =
     (if e = ErrorNone then ''normal''
      else if e = ErrorIO then ''I/O error''
      else if e = ErrorTimeout then ''a timeout occurred''
      else if e = ErrorTooBig then ''frame is too big''
      else if e = ErrorInvalid then ''invalid frame received''
      else if e = ErrorNoVSN then ''version value not found''
      else if e = ErrorNoFrameSize then ''max-frame-size value not found''
      else if e = ErrorNoCap then ''capabilities value not found''
      else if e = ErrorBadVsn then ''unsupported version''
      else if e = ErrorBadFrameSize then ''max-frame-size too big or too small''
      else if e = ErrorFragNotSupported then ''fragmentation not supported''
      else if e = ErrorInterlacedFrames then ''invalid interlaced frames''
      else if e = ErrorFrameIDNotfound then ''frame-id not found''
      else if e = ErrorRes then ''resource allocation error''
      else if e = ErrorUnknown then ''an unknown error occurred''
      else ''unknown spoe error code: '' @ show_int e)"

section \<open>Frame types and flags\<close>

definition frameFlagFin :: u32 where [wire_defs]: "frameFlagFin = 1"
definition frameFlagAbrt :: u32 where [wire_defs]: "frameFlagAbrt = 2"

definition frameTypeIDHaproxyHello :: byte where [wire_defs]: "frameTypeIDHaproxyHello = 1"
definition frameTypeIDHaproxyDisconnect :: byte where [wire_defs]: "frameTypeIDHaproxyDisconnect = 2"
definition frameTypeIDNotify :: byte where [wire_defs]: "frameTypeIDNotify = 3"
definition frameTypeIDAgentHello :: byte where [wire_defs]: "frameTypeIDAgentHello = 101"
definition frameTypeIDAgentDisconnect :: byte where [wire_defs]: "frameTypeIDAgentDisconnect = 102"
definition frameTypeIDAck :: byte where [wire_defs]: "frameTypeIDAck = 103"

definition helloKeyMaxFrameSize :: "byte list" where "helloKeyMaxFrameSize = str ''max-frame-size''"
definition helloKeySupportedVersions :: "byte list" where "helloKeySupportedVersions = str ''supported-versions''"
definition helloKeyVersion :: "byte list" where "helloKeyVersion = str ''version''"
definition helloKeyCapabilities :: "byte list" where "helloKeyCapabilities = str ''capabilities''"
definition helloKeyHealthcheck :: "byte list" where "helloKeyHealthcheck = str ''healthcheck''"
definition helloKeyEngineID :: "byte list" where "helloKeyEngineID = str ''engine-id''"
definition statusCodeKey :: "byte list" where "statusCodeKey = str ''status-code''"
definition messageKey :: "byte list" where "messageKey = str ''message''"

section \<open>WriteTo\<close>

definition AgentDisconnect_WriteTo ::
  "int \<Rightarrow> frame \<Rightarrow> sink \<Rightarrow> (frame \<times> sink \<times> nat \<times> gerr option) option" where
  "AgentDisconnect_WriteTo ErrCode f w =
     do {
       let f = f\<lparr>f_frameType := frameTypeIDAgentDisconnect,
                 f_meta := \<lparr>Flags = frameFlagFin, StreamID = 0, FrameID = 0\<rparr>\<rparr>;
       (f, err) \<leftarrow> encodeHeader f;
       if err \<noteq> None then Ret (releaseFrame f, w, 0, err)
       else do {
         t \<leftarrow> WriteBytes (f_buf f);
         (kvw, err) \<leftarrow>
           then_ok (SetUInt32 statusCodeKey (of_int ErrCode) (NewKVWriter t 0)) (\<lambda>kvw.
             SetString messageKey (str (errorCode_String ErrCode)) kvw);
         let f = f\<lparr>f_buf := write_back (sb_w (f_buf f)) (wb_data kvw) (f_buf f)\<rparr>;
         if err \<noteq> None then Ret (releaseFrame f, w, 0, err)
         else do {
           (f, w, n, err) \<leftarrow> WriteTo (f\<lparr>f_buf := AdvanceW (KVWriter_Off kvw) (f_buf f)\<rparr>) w;
           Ret (releaseFrame f, w, n, err)
         }
       }
     }"

record agentHello =
  ah_Version :: "byte list"
  ah_Capabilities :: "byte list list"
  ah_MaxFrameSize :: u32

definition AgentHello_WriteTo ::
  "agentHello \<Rightarrow> frame \<Rightarrow> sink \<Rightarrow> (frame \<times> sink \<times> nat \<times> gerr option) option" where
  "AgentHello_WriteTo a f w =
     do {
       let f = f\<lparr>f_frameType := frameTypeIDAgentHello,
                 f_meta := \<lparr>Flags = frameFlagFin, StreamID = 0, FrameID = 0\<rparr>\<rparr>;
       (f, err) \<leftarrow> encodeHeader f;
       if err \<noteq> None then Ret (releaseFrame f, w, 0, err)
       else do {
         t \<leftarrow> WriteBytes (f_buf f);
         (kvw, err) \<leftarrow>
           then_ok (SetString helloKeyVersion (ah_Version a) (NewKVWriter t 0)) (\<lambda>kvw.
           then_ok (SetUInt32 helloKeyMaxFrameSize (ah_MaxFrameSize a) kvw) (\<lambda>kvw.
             SetString helloKeyCapabilities (Join (ah_Capabilities a) (str '','')) kvw));
         let f = f\<lparr>f_buf := write_back (sb_w (f_buf f)) (wb_data kvw) (f_buf f)\<rparr>;
         if err \<noteq> None then Ret (releaseFrame f, w, 0, err)
         else do {
           (f, w, n, err) \<leftarrow> WriteTo (f\<lparr>f_buf := AdvanceW (KVWriter_Off kvw) (f_buf f)\<rparr>) w;
           Ret (releaseFrame f, w, n, err)
         }
       }
     }"

text \<open>
  The callback of an ACK frame fills the action writer; \<open>'h\<close> is the state of the code it
  closes over, which keeps what the callback did before a panic. The writer starts on the free
  part of the frame's buffer and may move away from it; the payload is written from the action
  writer, so what it leaves in the frame's buffer behind the header is old contents of a
  released buffer.
\<close>

type_synonym 'h callback = "'h \<Rightarrow> actionwriter \<Rightarrow> 'h \<times> (actionwriter \<times> gerr option) option"

definition pooled_writer :: actionwriter where
  "pooled_writer = NewActionWriter (Slice [] []) 0"

definition Ack_writeTo ::
  "'h callback \<Rightarrow> u64 \<Rightarrow> u64 \<Rightarrow> frame \<Rightarrow> u32 \<Rightarrow> 'h \<Rightarrow> sink \<Rightarrow>
   'h \<times> (frame \<times> sink \<times> nat \<times> gerr option) option" where
  "Ack_writeTo callback fid sid f limit h w =
     (let f = f\<lparr>f_frameType := frameTypeIDAck,
                f_meta := \<lparr>Flags = frameFlagFin, StreamID = sid, FrameID = fid\<rparr>\<rparr> in
      case encodeHeader f of
        None \<Rightarrow> (h, Panic)
      | Some (f, Some e) \<Rightarrow> (h, Ret (releaseFrame f, w, 0, Some (ErrWrap ''encoding header'' e)))
      | Some (f, None) \<Rightarrow>
          (case WriteBytes (f_buf f) of
             None \<Rightarrow> (h, Panic)
           | Some t \<Rightarrow>
               (case callback h (AcquireActionWriter pooled_writer t 0) of
                  (h, None) \<Rightarrow> (h, Panic)
                | (h, Some (aw, err)) \<Rightarrow>
                    (h, if err \<noteq> None then Ret (releaseFrame f, w, 0, err)
                        else let frameLen = of_int (buf_Len (f_buf f)) + of_nat (ActionWriter_Off aw) :: u64 in
                          if frameLen > ucast limit then
                            Ret (releaseFrame f, w, 0, Some (ErrFrameExceeds frameLen limit))
                          else do {
                            payload \<leftarrow> ActionWriter_Bytes aw;
                            (f, w, n, err) \<leftarrow> writeTo f (vis payload) w;
                            Ret (releaseFrame f, w, n, err)
                          }))))"

definition Ack_WriteTo ::
  "'h callback \<Rightarrow> u64 \<Rightarrow> u64 \<Rightarrow> frame \<Rightarrow> 'h \<Rightarrow> sink \<Rightarrow>
   'h \<times> (frame \<times> sink \<times> nat \<times> gerr option) option" where
  "Ack_WriteTo callback fid sid f h w = Ack_writeTo callback fid sid f (of_nat maxFrameSize) h w"

section \<open>What a frame leaves on the wire\<close>

text \<open>
  \<open>sent w bytes w' n err\<close>: a prefix of \<open>bytes\<close> went out, all of them if there was no error,
  and there is none on a connection that does not fail; after an error nothing goes out any more.
\<close>

definition sent :: "sink \<Rightarrow> byte list \<Rightarrow> sink \<Rightarrow> nat \<Rightarrow> gerr option \<Rightarrow> bool" where
  "sent w bytes w' n err \<longleftrightarrow>
     sk_out w' = sk_out w @ take n bytes \<and> n \<le> length bytes \<and> (err = None \<longrightarrow> n = length bytes) \<and>
     (healthy w \<longrightarrow> err = None) \<and> (healthy w' \<longleftrightarrow> healthy w) \<and>
     (sk_room w' = None \<longleftrightarrow> sk_room w = None) \<and> (sk_closed w' \<longleftrightarrow> sk_closed w) \<and>
     (sk_closed w \<longrightarrow> n = 0 \<and> sk_room w' = sk_room w) \<and>
     (err \<noteq> None \<longrightarrow> sk_room w' = Some 0 \<or> sk_closed w) \<and> (sk_room w = Some 0 \<longrightarrow> n = 0 \<and> sk_room w' = Some 0)"

lemma Write_sent: "Write p w = (w', n, err) \<Longrightarrow> sent w p w' n err"
  by (auto simp: sent_def Write_def healthy_def split: option.splits if_splits)

lemma sent_stop: "sent w p w' n err \<Longrightarrow> err \<noteq> None \<Longrightarrow> sent w (p @ q) w' n err"
  by (auto simp: sent_def)

lemma sent_append: "sent w p w1 n None \<Longrightarrow> sent w1 q w2 m err \<Longrightarrow> sent w (p @ q) w2 (n + m) err"
  by (auto simp: sent_def)

lemma ucast_of_nat_small:
  assumes "n < 2 ^ 64"
  shows "ucast (of_nat n :: u64) = (of_nat n :: 'a::len word)"
proof -
  have "unat (of_nat n :: u64) = n" using assms by (simp add: unat_of_nat take_bit_nat_eq_self)
  then show ?thesis by (metis of_nat_unat)
qed

text \<open>Writing a frame whose buffer holds \<open>body\<close>, with a separate payload.\<close>

lemma writeTo_SB:
  assumes "f_buf f = SB [] body free s" and "length (f_length f) = 4"
    and "length body + length payload < 2 ^ 32"
  shows "\<exists>w' n err. writeTo f payload w =
      Ret (f\<lparr>f_length := be32 (of_nat (length body + length payload))\<rparr>, w', n, err) \<and>
    sent w (be32 (of_nat (length body + length payload)) @ body @ payload) w' n err"
proof -
  let ?l = "length body + length payload"
  let ?b = "be32 (of_nat ?l)"
  have u: "of_int (int (length body)) + of_nat (length payload) = (of_nat ?l :: u64)" by simp
  have le: "\<not> (of_nat ?l :: u64) > 0xFFFFFFFF"
    using assms(3) by (simp only: word_less_nat_alt unat_of_nat) (simp add: take_bit_nat_eq_self)
  have c: "ucast (of_nat ?l :: u64) = (of_nat ?l :: u32)"
    using assms(3) by (intro ucast_of_nat_small) simp
  have p: "PutUint32 (Slice (f_length f) []) (of_nat ?l) = Ret (Slice ?b [])"
    using assms(2) by (simp add: PutUint32_def)
  obtain w1 n1 e1 where w1: "Write ?b w = (w1, n1, e1)" by (cases "Write ?b w")
  obtain w2 n2 e2 where w2: "Write body w1 = (w2, n2, e2)" by (cases "Write body w1")
  obtain w3 n3 e3 where w3: "Write payload w2 = (w3, n3, e3)" by (cases "Write payload w2")
  note s = Write_sent [OF w1] Write_sent [OF w2] Write_sent [OF w3]
  have eq: "writeTo f payload w =
      Ret (f\<lparr>f_length := ?b\<rparr>,
        if e1 \<noteq> None then (w1, n1, e1)
        else if e2 \<noteq> None \<or> payload = [] then (w2, n1 + n2, e2) else (w3, n1 + n2 + n3, e3))"
    using le w1 w2 w3 unfolding writeTo_def Let_def assms(1) buf_Len_SB u c p
    by (simp add: assms(1) ReadBytes_SB)
  obtain w' n err where r: "(if e1 \<noteq> None then (w1, n1, e1)
      else if e2 \<noteq> None \<or> payload = [] then (w2, n1 + n2, e2) else (w3, n1 + n2 + n3, e3)) = (w', n, err)"
    by (metis prod_cases3)
  have "sent w (?b @ body @ payload) w' n err"
    using r s sent_stop [of w ?b w1 n1 e1 "body @ payload"]
      sent_append [of w ?b w1 n1 "body @ payload"] sent_append [of w1 body w2 n2 payload]
      sent_stop [of w1 body w2 n2 e2 payload]
    by (cases e1; cases e2; cases "payload = []") (simp_all add: add.assoc, auto simp: add.assoc)
  with eq r show ?thesis by simp
qed

lemma then_ok_Ret [simp]: "then_ok m (\<lambda>w. Ret (w, None)) = m"
  by (auto simp: then_ok_def split: Option.bind_split option.splits)

lemma kv_write_all_fits:
  assumes "length (concat (map kv_enc kvs)) \<le> length free" and "\<forall>kv \<in> set kvs. wf_kv kv"
  shows "write_all kv_set kvs (WB out free s) =
    Ret (WB (out @ concat (map kv_enc kvs)) (drop (length (concat (map kv_enc kvs))) free) s, None)"
  using assms
proof (induction kvs arbitrary: out free)
  case (Cons kv kvs)
  then show ?case
    using kv_set_fits [of kv free out s] by (simp add: add.commute)
qed simp

lemma NewKVWriter_WB: "NewKVWriter (Slice free s) 0 = WB [] free s"
  by (simp add: NewKVWriter_def WB_def)

definition pool_header :: "byte \<Rightarrow> frameMetadata \<Rightarrow> byte list" where
  "pool_header t m = header_enc t (Flags m) (StreamID m) (FrameID m)"

lemma length_pool_header: "length (pool_header t m) \<le> 25"
  unfolding pool_header_def by (rule length_header_le)

lemma wire_frame_pool_header:
  "wire_frame t m p = be32 (of_nat (length (pool_header t m) + length p)) @ pool_header t m @ p"
  by (simp add: wire_frame_def pool_header_def Let_def)

text \<open>The header goes to the start of the buffer, whatever the pool left there.\<close>

lemma encodeHeader_pool:
  assumes "pool_frame f"
  obtains free s l where
    "encodeHeader (f\<lparr>f_frameType := t, f_meta := m\<rparr>) =
       Ret (\<lparr>f_buf = SB [] (pool_header t m) free s, f_length = l, f_meta = m, f_frameType = t\<rparr>, None)"
    "length l = 4" "buf_size (length (pool_header t m) + length free)"
proof -
  from assms obtain free s l where f:
    "f = \<lparr>f_buf = SB [] [] free s, f_length = l, f_meta = no_meta, f_frameType = 0\<rparr>"
    "buf_size (length free)" "length l = 4" by (rule pool_frame_SB)
  have h: "length (pool_header t m) \<le> length free"
    using length_pool_header [of t m] f(2) by (simp add: wire_defs)
  have "encodeHeader (f\<lparr>f_frameType := t, f_meta := m\<rparr>) =
      Ret (\<lparr>f_buf = SB [] (pool_header t m) (drop (length (pool_header t m)) free) s, f_length = l,
            f_meta = m, f_frameType = t\<rparr>, None)"
    using encodeHeader_SB [of "f\<lparr>f_frameType := t, f_meta := m\<rparr>" free s] h f
    by (simp add: pool_header_def Let_def)
  then show ?thesis using that f(2,3) h by simp
qed

lemma releaseFrame_sent:
  "length l = 4 \<Longrightarrow> buf_size (length dat + length free) \<Longrightarrow>
   pool_frame (releaseFrame \<lparr>f_buf = SB [] dat free s, f_length = l, f_meta = m, f_frameType = t\<rparr>)"
  by (rule pool_frame_release) (simp add: frame_inv_def SB_def wire_defs)

text \<open>C17: a frame that is written is read back: whatever the two buffers held before, \<open>readFrom\<close>
  delivers the type, the flags, the identifiers and the payload given to \<open>writeTo\<close>, and takes
  from the connection exactly the bytes that were written.\<close>

theorem frame_roundtrip:
  assumes "pool_frame f" and "frame_inv g" and "healthy w" and "25 + length payload \<le> unat limit"
  shows "\<exists>f1 f2 w' n bytes g' dat.
    encodeHeader (f\<lparr>f_frameType := t, f_meta := m\<rparr>) = Ret (f1, None) \<and>
    writeTo f1 payload w = Ret (f2, w', n, None) \<and> sk_out w' = sk_out w @ bytes \<and> length bytes = n \<and>
    readFrom g \<lparr>rd_data = bytes @ rest, rd_err = e\<rparr> limit = Ret (g', \<lparr>rd_data = rest, rd_err = e\<rparr>, n, None) \<and>
    f_frameType g' = t \<and> f_meta g' = m \<and> ReadBytes (f_buf g') = Ret dat \<and> vis dat = payload"
proof -
  let ?bytes = "wire_frame t m payload" and ?h = "pool_header t m"
  from assms(1) obtain free s l where f:
    "encodeHeader (f\<lparr>f_frameType := t, f_meta := m\<rparr>) =
       Ret (\<lparr>f_buf = SB [] ?h free s, f_length = l, f_meta = m, f_frameType = t\<rparr>, None)"
    (is "_ = Ret (?f1, None)")
    "length l = 4" "buf_size (length ?h + length free)" by (rule encodeHeader_pool)
  have len: "length ?h + length payload \<le> unat limit" using assms(4) length_pool_header [of t m] by simp
  then have "length ?h + length payload < 2 ^ 32"
    using unsigned_less [of limit, where ?'a = nat] by simp
  then obtain f2 w' n err where w: "writeTo ?f1 payload w = Ret (f2, w', n, err)" "sent w ?bytes w' n err"
    using writeTo_SB [of ?f1 ?h free s payload w] f(2) by (auto simp: wire_frame_pool_header)
  with assms(3) have n: "err = None" "n = length ?bytes" "sk_out w' = sk_out w @ ?bytes"
    by (auto simp: sent_def)
  from readFrom_wire_ok [OF assms(2), of "\<lparr>rd_data = ?bytes @ rest, rd_err = e\<rparr>" t m payload rest limit]
    len obtain g' dat where
    "readFrom g \<lparr>rd_data = ?bytes @ rest, rd_err = e\<rparr> limit =
      Ret (g', \<lparr>rd_data = rest, rd_err = e\<rparr>, length ?bytes, None)"
    "f_frameType g' = t" "f_meta g' = m" "ReadBytes (f_buf g') = Ret dat" "vis dat = payload"
    by (auto simp: pool_header_def)
  with f(1) w n show ?thesis by blast
qed

lemma frame_roundtrip_witness:
  "\<exists>f f1 f2 w' n g' dat. newFrame = Ret f \<and>
    encodeHeader (f\<lparr>f_frameType := 3, f_meta := \<lparr>Flags = 1, StreamID = 300, FrameID = 2\<rparr>\<rparr>) = Ret (f1, None) \<and>
    writeTo f1 [5, 6] (open_sink []) = Ret (f2, w', n, None) \<and>
    readFrom f \<lparr>rd_data = sk_out w' @ [9], rd_err = ErrEOF\<rparr> 300 =
      Ret (g', \<lparr>rd_data = [9], rd_err = ErrEOF\<rparr>, n, None) \<and>
    f_frameType g' = 3 \<and> StreamID (f_meta g') = 300 \<and> ReadBytes (f_buf g') = Ret dat \<and> vis dat = [5, 6]"
proof -
  obtain f where f: "newFrame = Ret f" "pool_frame f" by (rule newFrame_pool)
  have "healthy (open_sink [])" "25 + length [5, 6 :: byte] \<le> unat (300 :: u32)"
    by (simp_all add: open_sink_def)
  from frame_roundtrip [OF f(2) pool_frame_inv [OF f(2)] this, where t = 3 and rest = "[9]" and e = ErrEOF
      and m = "\<lparr>Flags = 1, StreamID = 300, FrameID = 2\<rparr>"] f(1)
  show ?thesis by (fastforce simp: open_sink_def)
qed

text \<open>Both control frames: a header, a key-value list, and the frame goes out and back.\<close>

lemma control_frame:
  assumes "pool_frame f" and "\<forall>kv \<in> set kvs. wf_kv kv"
    and "25 + length (concat (map kv_enc kvs)) \<le> maxFrameSize"
  shows "\<exists>f' w' n err.
    do {
      (f, err) \<leftarrow> encodeHeader (f\<lparr>f_frameType := t, f_meta := m\<rparr>);
      if err \<noteq> None then Ret (releaseFrame f, w, 0, err)
      else do {
        t \<leftarrow> WriteBytes (f_buf f);
        (kvw, err) \<leftarrow> write_all kv_set kvs (NewKVWriter t 0);
        let f = f\<lparr>f_buf := write_back (sb_w (f_buf f)) (wb_data kvw) (f_buf f)\<rparr>;
        if err \<noteq> None then Ret (releaseFrame f, w, 0, err)
        else do {
          (f, w, n, err) \<leftarrow> WriteTo (f\<lparr>f_buf := AdvanceW (KVWriter_Off kvw) (f_buf f)\<rparr>) w;
          Ret (releaseFrame f, w, n, err)
        }
      }
    } = Ret (f', w', n, err) \<and> pool_frame f' \<and> sent w (wire_frame t m (concat (map kv_enc kvs))) w' n err"
proof -
  let ?p = "concat (map kv_enc kvs)" and ?h = "pool_header t m"
  from assms(1) obtain free s l where f:
    "encodeHeader (f\<lparr>f_frameType := t, f_meta := m\<rparr>) =
       Ret (\<lparr>f_buf = SB [] ?h free s, f_length = l, f_meta = m, f_frameType = t\<rparr>, None)"
    "length l = 4" "buf_size (length ?h + length free)" by (rule encodeHeader_pool)
  have fit: "length ?p \<le> length free"
    using f(3) assms(3) length_pool_header [of t m] by simp
  let ?rest = "drop (length ?p) free"
  let ?g = "\<lparr>f_buf = SB [] (?h @ ?p) ?rest s, f_length = l, f_meta = m, f_frameType = t\<rparr>"
  have "length (?h @ ?p) < 2 ^ 32"
    using assms(3) length_pool_header [of t m] by (simp add: wire_defs)
  then obtain w' n err where w:
    "WriteTo ?g w = Ret (?g\<lparr>f_length := be32 (of_nat (length (?h @ ?p)))\<rparr>, w', n, err)"
    "sent w (wire_frame t m ?p) w' n err"
    using writeTo_SB [of ?g "?h @ ?p" ?rest s "[]" w] f(2)
    by (auto simp: WriteTo_def wire_frame_pool_header)
  have b: "AdvanceW (length ?p) (write_back (length ?h) (Slice (?p @ ?rest) s) (SB [] ?h free s)) =
      SB [] (?h @ ?p) ?rest s"
    using fit by (simp add: write_back_free_SB AdvanceW_SB)
  have wd: "wb_data (WB ?p ?rest s) = Slice (?p @ ?rest) s" by (simp add: WB_def)
  have "pool_frame (releaseFrame (?g\<lparr>f_length := be32 (of_nat (length (?h @ ?p)))\<rparr>))"
    using f(3) fit by (simp add: releaseFrame_sent)
  then show ?thesis
    using f fit w b wd kv_write_all_fits [OF fit assms(2), of "[]" s]
    by (simp add: WriteBytes_SB NewKVWriter_WB KVWriter_Off_def Let_def)
qed

definition fin_meta :: frameMetadata where
  "fin_meta = \<lparr>Flags = frameFlagFin, StreamID = 0, FrameID = 0\<rparr>"

definition hello_kvs :: "agentHello \<Rightarrow> kv list" where
  "hello_kvs a =
     [(helloKeyVersion, VString (ah_Version a)), (helloKeyMaxFrameSize, VUInt32 (ah_MaxFrameSize a)),
      (helloKeyCapabilities, VString (Join (ah_Capabilities a) (str '','')))]"

definition disconnect_kvs :: "int \<Rightarrow> kv list" where
  "disconnect_kvs e =
     [(statusCodeKey, VUInt32 (of_int e)), (messageKey, VString (str (errorCode_String e)))]"

lemma AgentHello_WriteTo_kvs:
  assumes "pool_frame f" and "\<forall>kv \<in> set (hello_kvs a). wf_kv kv"
    and "25 + length (concat (map kv_enc (hello_kvs a))) \<le> maxFrameSize"
  shows "\<exists>f' w' n err. AgentHello_WriteTo a f w = Ret (f', w', n, err) \<and> pool_frame f' \<and>
    sent w (wire_frame frameTypeIDAgentHello fin_meta (concat (map kv_enc (hello_kvs a)))) w' n err"
  using control_frame [OF assms, where t = frameTypeIDAgentHello and m = fin_meta and w = w]
  unfolding AgentHello_WriteTo_def hello_kvs_def fin_meta_def write_all.simps kv_set.simps then_ok_Ret Let_def .

lemma AgentDisconnect_WriteTo_kvs:
  assumes "pool_frame f" and "\<forall>kv \<in> set (disconnect_kvs e). wf_kv kv"
    and "25 + length (concat (map kv_enc (disconnect_kvs e))) \<le> maxFrameSize"
  shows "\<exists>f' w' n err. AgentDisconnect_WriteTo e f w = Ret (f', w', n, err) \<and> pool_frame f' \<and>
    sent w (wire_frame frameTypeIDAgentDisconnect fin_meta (concat (map kv_enc (disconnect_kvs e)))) w' n err"
  using control_frame [OF assms, where t = frameTypeIDAgentDisconnect and m = fin_meta and w = w]
  unfolding AgentDisconnect_WriteTo_def disconnect_kvs_def fin_meta_def write_all.simps kv_set.simps then_ok_Ret Let_def .

lemma length_str [simp]: "length (str s) = length s"
  by (simp add: str_def)

lemma length_bytes_enc_le: "length (bytes_enc v) \<le> 10 + length v"
  using length_varint_enc_le [of "of_nat (length v)"] by (simp add: bytes_enc_def)

lemma hello_kvs_fit:
  assumes "length (ah_Version a) + length (Join (ah_Capabilities a) (str '','')) \<le> 60000"
  shows "\<forall>kv \<in> set (hello_kvs a). wf_kv kv"
    and "25 + length (concat (map kv_enc (hello_kvs a))) \<le> maxFrameSize"
proof -
  show "\<forall>kv \<in> set (hello_kvs a). wf_kv kv"
    using assms by (simp add: hello_kvs_def wf_kv_def len_ok_def helloKeyVersion_def
        helloKeyMaxFrameSize_def helloKeyCapabilities_def)
  show "25 + length (concat (map kv_enc (hello_kvs a))) \<le> maxFrameSize"
    using assms length_bytes_enc_le [of helloKeyVersion] length_bytes_enc_le [of helloKeyMaxFrameSize]
      length_bytes_enc_le [of helloKeyCapabilities] length_bytes_enc_le [of "ah_Version a"]
      length_varint_enc_le [of "ucast (ah_MaxFrameSize a)"]
      length_bytes_enc_le [of "Join (ah_Capabilities a) (str '','')"]
    by (simp add: hello_kvs_def kv_enc_def maxFrameSize_def helloKeyVersion_def
        helloKeyMaxFrameSize_def helloKeyCapabilities_def)
qed

text \<open>\<open>AgentHello.WriteTo\<close> sends exactly the HELLO frame with the version, the frame size
  and the joined capabilities, as far as the connection takes it; it reports every loss, and
  gives a clean frame back to the pool. What the pool's buffer held before never goes out.\<close>

lemma agent_hello_sent:
  assumes "pool_frame f" and "length (ah_Version a) + length (Join (ah_Capabilities a) (str '','')) \<le> 60000"
  shows "\<exists>f' w' n err. AgentHello_WriteTo a f w = Ret (f', w', n, err) \<and> pool_frame f' \<and>
    sent w (wire_frame frameTypeIDAgentHello fin_meta (concat (map kv_enc (hello_kvs a)))) w' n err"
  by (rule AgentHello_WriteTo_kvs [OF assms(1) hello_kvs_fit [OF assms(2)]])

lemma agent_hello_sent_witness:
  "\<exists>f f' w' n err. newFrame = Ret f \<and>
    AgentHello_WriteTo \<lparr>ah_Version = str ''2.0'', ah_Capabilities = [], ah_MaxFrameSize = 1024\<rparr> f
      (open_sink []) = Ret (f', w', n, err) \<and> pool_frame f' \<and> err = None \<and>
    sk_out w' = wire_frame frameTypeIDAgentHello fin_meta (concat (map kv_enc
      (hello_kvs \<lparr>ah_Version = str ''2.0'', ah_Capabilities = [], ah_MaxFrameSize = 1024\<rparr>)))"
proof -
  obtain f where "newFrame = Ret f" "pool_frame f" by (rule newFrame_pool)
  with agent_hello_sent [of f "\<lparr>ah_Version = str ''2.0'', ah_Capabilities = [], ah_MaxFrameSize = 1024\<rparr>"
      "open_sink []"]
  show ?thesis by (auto simp: sent_def open_sink_def)
qed

lemma length_show_nat: "n < 10 ^ Suc k \<Longrightarrow> length (show_nat n) \<le> Suc k"
proof (induction k arbitrary: n)
  case (Suc k)
  then have "n div 10 < 10 ^ Suc k" by (simp add: less_mult_imp_div_less)
  with Suc.IH [of "n div 10"] show ?case by (subst show_nat.simps) simp
qed (simp add: show_nat.simps)

lemma length_errorCode_String:
  assumes "\<bar>e\<bar> \<le> 2 ^ 63"
  shows "length (errorCode_String e) \<le> 60"
proof -
  have "length (show_nat (nat \<bar>e\<bar>)) \<le> Suc 18"
    using assms by (intro length_show_nat) simp
  then have "length (show_int e) \<le> 20"
    by (cases "e < 0") (simp_all add: show_int_def)
  then show ?thesis by (simp add: errorCode_String_def)
qed

lemma disconnect_kvs_fit:
  assumes "- (2 ^ 63) \<le> e" and "e < 2 ^ 63"
  shows "\<forall>kv \<in> set (disconnect_kvs e). wf_kv kv"
    and "25 + length (concat (map kv_enc (disconnect_kvs e))) \<le> maxFrameSize"
proof -
  have l: "length (errorCode_String e) \<le> 60"
    using assms by (intro length_errorCode_String) simp
  then show "\<forall>kv \<in> set (disconnect_kvs e). wf_kv kv"
    by (simp add: disconnect_kvs_def wf_kv_def len_ok_def statusCodeKey_def messageKey_def)
  show "25 + length (concat (map kv_enc (disconnect_kvs e))) \<le> maxFrameSize"
    using l length_bytes_enc_le [of statusCodeKey] length_bytes_enc_le [of messageKey]
      length_varint_enc_le [of "ucast (of_int e :: u32)"]
      length_bytes_enc_le [of "str (errorCode_String e)"]
    by (simp add: disconnect_kvs_def kv_enc_def maxFrameSize_def statusCodeKey_def messageKey_def)
qed

text \<open>\<open>AgentDisconnect.WriteTo\<close> sends exactly the DISCONNECT frame with the status code and
  its text for every error code, and gives a clean frame back to the pool.\<close>

theorem agent_disconnect_sent:
  assumes "pool_frame f" and "- (2 ^ 63) \<le> e" and "e < 2 ^ 63"
  shows "\<exists>f' w' n err. AgentDisconnect_WriteTo e f w = Ret (f', w', n, err) \<and> pool_frame f' \<and>
    sent w (wire_frame frameTypeIDAgentDisconnect fin_meta (concat (map kv_enc (disconnect_kvs e)))) w' n err"
  by (rule AgentDisconnect_WriteTo_kvs [OF assms(1) disconnect_kvs_fit [OF assms(2,3)]])

lemma agent_disconnect_sent_witness:
  "\<exists>f f' w' n. newFrame = Ret f \<and>
    AgentDisconnect_WriteTo ErrorUnknown f (open_sink []) = Ret (f', w', n, None) \<and>
    sk_out w' = wire_frame frameTypeIDAgentDisconnect fin_meta
      (concat (map kv_enc (disconnect_kvs ErrorUnknown)))"
proof -
  obtain f where "newFrame = Ret f" "pool_frame f" by (rule newFrame_pool)
  with agent_disconnect_sent [of f ErrorUnknown "open_sink []"]
  show ?thesis by (fastforce simp: sent_def open_sink_def ErrorUnknown_def)
qed

text \<open>
  What an ACK frame relies on: started on an empty writer, the callback leaves a writer as every
  method of the action writer does (\<open>action_write_ok\<close>).
\<close>

definition callback_ok :: "'h callback \<Rightarrow> bool" where
  "callback_ok callback \<longleftrightarrow>
     (\<forall>h aw h' aw' err. aw_ok aw \<longrightarrow> wb_off aw = 0 \<longrightarrow> callback h aw = (h', Ret (aw', err)) \<longrightarrow> aw_ok aw')"

lemma kw_out_length: "kw_inv aw \<Longrightarrow> length (wb_out aw) = wb_off aw"
  by (simp add: wb_out_def kw_inv_def)

definition ack_meta :: "u64 \<Rightarrow> u64 \<Rightarrow> frameMetadata" where
  "ack_meta fid sid = \<lparr>Flags = frameFlagFin, StreamID = sid, FrameID = fid\<rparr>"

lemma ActionWriter_Bytes_inv:
  "kw_inv aw \<Longrightarrow> ActionWriter_Bytes aw =
     Ret (Slice (wb_out aw) (drop (wb_off aw) (vis (wb_data aw)) @ spare (wb_data aw)))"
  by (cases "wb_data aw")
    (simp add: kw_inv_def ActionWriter_Bytes_def wb_out_def supto_def sbetween_def scap_def)

lemma ucast_less_of_nat:
  assumes "n < 2 ^ 64"
  shows "(ucast (limit :: u32) < (of_nat n :: u64)) \<longleftrightarrow> unat limit < n"
proof -
  have "unat (of_nat n :: u64) = n" using assms by (simp add: unat_of_nat take_bit_nat_eq_self)
  moreover have "unat (ucast limit :: u64) = unat limit"
    using unsigned_less [of limit, where ?'a = nat]
    by (simp add: unsigned_ucast_eq take_bit_nat_eq_self)
  ultimately show ?thesis by (simp add: word_less_nat_alt)
qed

text \<open>Up to the callback: the header is in a clean buffer, the writer on the rest of it.\<close>

definition ack_frame :: "frameMetadata \<Rightarrow> byte list \<Rightarrow> byte list \<Rightarrow> byte list \<Rightarrow> frame" where
  "ack_frame m free s l =
     \<lparr>f_buf = SB [] (pool_header frameTypeIDAck m) free s, f_length = l, f_meta = m,
      f_frameType = frameTypeIDAck\<rparr>"

definition ack_finish ::
  "frame \<Rightarrow> nat \<Rightarrow> actionwriter \<times> gerr option \<Rightarrow> u32 \<Rightarrow> sink \<Rightarrow>
   (frame \<times> sink \<times> nat \<times> gerr option) option" where
  "ack_finish g hl res limit w =
     (case res of (aw, err) \<Rightarrow>
        if err \<noteq> None then Ret (releaseFrame g, w, 0, err)
        else let frameLen = of_nat hl + of_nat (wb_off aw) :: u64 in
          if frameLen > ucast limit then
            Ret (releaseFrame g, w, 0, Some (ErrFrameExceeds frameLen limit))
          else do {
            payload \<leftarrow> ActionWriter_Bytes aw;
            (f, w, n, err) \<leftarrow> writeTo g (vis payload) w;
            Ret (releaseFrame f, w, n, err)
          })"

lemma Ack_writeTo_started:
  assumes "pool_frame f"
  obtains free s l where
    "Ack_writeTo callback fid sid f limit h w =
       (let m = ack_meta fid sid in
        case callback h (WB [] free s) of
          (h, None) \<Rightarrow> (h, Panic)
        | (h, Some res) \<Rightarrow>
            (h, ack_finish (ack_frame m free s l) (length (pool_header frameTypeIDAck m)) res limit w))"
    "length l = 4"
    "buf_size (length (pool_header frameTypeIDAck (ack_meta fid sid)) + length free)"
proof -
  let ?m = "ack_meta fid sid"
  from assms obtain free s l where f:
    "encodeHeader (f\<lparr>f_frameType := frameTypeIDAck, f_meta := ?m\<rparr>) =
       Ret (\<lparr>f_buf = SB [] (pool_header frameTypeIDAck ?m) free s, f_length = l, f_meta = ?m,
             f_frameType = frameTypeIDAck\<rparr>, None)"
    "length l = 4" "buf_size (length (pool_header frameTypeIDAck ?m) + length free)"
    by (rule encodeHeader_pool)
  have aw: "AcquireActionWriter pooled_writer (Slice free s) 0 = WB [] free s"
    by (simp add: AcquireActionWriter_def pooled_writer_def NewActionWriter_def WB_def)
  show ?thesis
    using f by (intro that [of free s l])
      (auto simp: Ack_writeTo_def WriteBytes_SB aw ActionWriter_Off_def Let_def ack_frame_def
        ack_finish_def simp flip: ack_meta_def split: prod.splits option.splits)
qed

text \<open>What \<open>writeTo\<close> of an ACK frame does, by what the callback returns.\<close>

definition ack_outcome ::
  "'h \<times> (actionwriter \<times> gerr option) option \<Rightarrow> frameMetadata \<Rightarrow> u32 \<Rightarrow> frame \<Rightarrow> sink \<Rightarrow>
   'h \<times> (frame \<times> sink \<times> nat \<times> gerr option) option \<Rightarrow> bool" where
  "ack_outcome cb m limit f' w res =
     (case cb of
        (h', None) \<Rightarrow> res = (h', Panic)
      | (h', Some (aw', Some e)) \<Rightarrow> res = (h', Ret (f', w, 0, Some e))
      | (h', Some (aw', None)) \<Rightarrow>
          let l = length (pool_header frameTypeIDAck m) + wb_off aw' in
          if unat limit < l then res = (h', Ret (f', w, 0, Some (ErrFrameExceeds (of_nat l) limit)))
          else \<exists>w' n err. res = (h', Ret (f', w', n, err)) \<and>
            sent w (wire_frame frameTypeIDAck m (wb_out aw')) w' n err)"

lemma ack_send:
  assumes "kw_inv aw" and "length (pool_header frameTypeIDAck m) + wb_off aw \<le> unat (limit :: u32)"
    and "length l = 4" and "buf_size (length (pool_header frameTypeIDAck m) + length free)"
  obtains f' w' n err where "writeTo (ack_frame m free s l) (wb_out aw) w = Ret (f', w', n, err)"
    "sent w (wire_frame frameTypeIDAck m (wb_out aw)) w' n err" "pool_frame (releaseFrame f')"
proof -
  let ?h = "pool_header frameTypeIDAck m" and ?g = "ack_frame m free s l"
  let ?g' = "?g\<lparr>f_length := be32 (of_nat (length ?h + length (wb_out aw)))\<rparr>"
  have "length ?h + length (wb_out aw) < 2 ^ 32"
    using assms(2) unsigned_less [of limit, where ?'a = nat] kw_out_length [OF assms(1)] by simp
  then obtain w' n err where w: "writeTo ?g (wb_out aw) w = Ret (?g', w', n, err)"
    "sent w (wire_frame frameTypeIDAck m (wb_out aw)) w' n err"
    using writeTo_SB [of ?g ?h free s "wb_out aw" w] assms(3)
    by (auto simp: wire_frame_pool_header ack_frame_def)
  moreover have "pool_frame (releaseFrame ?g')"
    using assms(4) by (simp add: releaseFrame_sent ack_frame_def)
  ultimately show ?thesis by (rule that)
qed

lemma ack_finish_outcome:
  assumes inv: "kw_inv aw" "wb_off aw < 2 ^ 63"
    and l: "length l = 4" "buf_size (length (pool_header frameTypeIDAck m) + length free)"
  shows "\<exists>f'. pool_frame f' \<and> ack_outcome (h, Some (aw, err)) m limit f' w
    (h, ack_finish (ack_frame m free s l) (length (pool_header frameTypeIDAck m)) (aw, err) limit w)"
proof -
  let ?h = "pool_header frameTypeIDAck m" and ?g = "ack_frame m free s l"
  have lim: "(ucast limit < (of_nat (length ?h) + of_nat (wb_off aw) :: u64)) =
      (unat limit < length ?h + wb_off aw)"
    using ucast_less_of_nat [of "length ?h + wb_off aw" limit] inv(2)
      length_pool_header [of frameTypeIDAck m] by simp
  show ?thesis
  proof (cases "err = None \<and> length ?h + wb_off aw \<le> unat limit")
    case True
    then have "length ?h + wb_off aw \<le> unat limit" by simp
    with inv(1) obtain f' w' n er where
      "writeTo ?g (wb_out aw) w = Ret (f', w', n, er)"
      "sent w (wire_frame frameTypeIDAck m (wb_out aw)) w' n er" "pool_frame (releaseFrame f')"
      using l by (rule ack_send)
    moreover have "\<not> unat limit < length ?h + wb_off aw"
      "\<not> ucast limit < (of_nat (length ?h) + of_nat (wb_off aw) :: u64)"
      using True lim by simp_all
    ultimately show ?thesis using True inv(1)
      by (intro exI [of _ "releaseFrame f'"])
        (simp add: ack_finish_def ActionWriter_Bytes_inv Let_def ack_outcome_def)
  next
    case False
    have "pool_frame (releaseFrame ?g)" using l by (simp add: releaseFrame_sent ack_frame_def)
    with False lim show ?thesis
      by (intro exI [of _ "releaseFrame ?g"])
        (auto simp: ack_finish_def Let_def ack_outcome_def split: option.splits)
  qed
qed

lemma Ack_writeTo_cases:
  assumes "pool_frame f" and "callback_ok callback"
  shows "\<exists>aw f'. aw_ok aw \<and> wb_off aw = 0 \<and> pool_frame f' \<and>
    ack_outcome (callback h aw) (ack_meta fid sid) limit f' w (Ack_writeTo callback fid sid f limit h w)"
proof -
  note start = Ack_writeTo_started [OF assms(1), of callback fid sid limit h w]
  show ?thesis
  proof (rule start)
    fix free s l
    assume A: "Ack_writeTo callback fid sid f limit h w =
       (let m = ack_meta fid sid in
        case callback h (WB [] free s) of
          (h, None) \<Rightarrow> (h, Panic)
        | (h, Some res) \<Rightarrow>
            (h, ack_finish (ack_frame m free s l) (length (pool_header frameTypeIDAck m)) res limit w))"
      and l: "length l = 4" "buf_size (length (pool_header frameTypeIDAck (ack_meta fid sid)) + length free)"
    have "\<exists>f'. pool_frame f' \<and> ack_outcome (callback h (WB [] free s)) (ack_meta fid sid) limit f' w
        (Ack_writeTo callback fid sid f limit h w)"
    proof (cases "callback h (WB [] free s)")
      case (Pair h' res)
      show ?thesis
      proof (cases res)
        case None
        with Pair assms(1) show ?thesis by (auto simp: A ack_outcome_def)
      next
        case (Some r)
        obtain aw' err where r: "r = (aw', err)" by (cases r)
        have "aw_ok (WB [] free s)" "wb_off (WB [] free s) = 0" using l(2) by (simp_all add: max_alloc_def)
        with assms(2) Pair Some r have "aw_ok aw'" unfolding callback_ok_def by blast
        then have "kw_inv aw'" "wb_off aw' < 2 ^ 63" using aw_ok_inv by blast+
        from ack_finish_outcome [OF this l, of h' err limit w s] show ?thesis
          by (simp add: A Pair Some r Let_def)
      qed
    qed
    moreover have "aw_ok (WB [] free s)" using l(2) by (simp add: max_alloc_def)
    ultimately show ?thesis by (metis wb_off_WB list.size(3))
  qed
qed

text \<open>C25: what becomes of an ACK is decided by the callback, which gets an empty writer: if it fails, its
  error is returned and nothing was written; if it succeeds but the frame is over the limit, nothing
  was written either and an error says so; otherwise the frame of exactly what the callback has
  written goes out. The frame goes back to the pool clean, and only a panic of the callback is one
  of the whole.\<close>

theorem ack_all_or_nothing:
  assumes "pool_frame f" and "callback_ok callback"
  shows "\<exists>aw f'. aw_ok aw \<and> wb_off aw = 0 \<and> pool_frame f' \<and>
    (let m = ack_meta fid sid; res = Ack_writeTo callback fid sid f limit h w in
     case callback h aw of
       (h', None) \<Rightarrow> res = (h', Panic)
     | (h', Some (aw', Some e)) \<Rightarrow> res = (h', Ret (f', w, 0, Some e))
     | (h', Some (aw', None)) \<Rightarrow>
         let l = length (pool_header frameTypeIDAck m) + length (wb_out aw') in
         if unat limit < l then res = (h', Ret (f', w, 0, Some (ErrFrameExceeds (of_nat l) limit)))
         else \<exists>w' n err. res = (h', Ret (f', w', n, err)) \<and>
           sent w (wire_frame frameTypeIDAck m (wb_out aw')) w' n err)"
proof -
  from Ack_writeTo_cases [OF assms] obtain aw f' where aw: "aw_ok aw" "wb_off aw = 0" "pool_frame f'"
    "ack_outcome (callback h aw) (ack_meta fid sid) limit f' w (Ack_writeTo callback fid sid f limit h w)" by blast
  have "length (wb_out aw') = wb_off aw'" if "callback h aw = (h1, Ret (aw', e1))" for h1 aw' e1
    using assms(2) aw(1,2) that unfolding callback_ok_def by (metis kw_out_length aw_ok_inv)
  with aw show ?thesis
    by (intro exI [of _ aw] exI [of _ f']) (auto simp: ack_outcome_def Let_def split: prod.splits option.splits)
qed

lemma ack_all_or_nothing_witness:
  "\<exists>f f'. newFrame = Ret f \<and> pool_frame f' \<and>
    Ack_writeTo (\<lambda>(_::unit) aw. ((), Ret (aw, Some ErrInvalidAddress))) 1 2 f 256 () (open_sink [7]) =
      ((), Ret (f', open_sink [7], 0, Some ErrInvalidAddress))"
proof -
  let ?cb = "\<lambda>(_::unit) aw. ((), Ret (aw, Some ErrInvalidAddress))"
  obtain f where f: "newFrame = Ret f" "pool_frame f" by (rule newFrame_pool)
  have cb: "callback_ok ?cb" by (simp add: callback_ok_def)
  from ack_all_or_nothing [OF f(2) cb, where h = "()" and fid = 1 and sid = 2 and limit = 256 and w = "open_sink [7]"] f(1)
  show ?thesis by (auto simp: Let_def)
qed

lemma write_actions_ok: "write_all action_write as w = Ret (w', err) \<Longrightarrow> aw_ok w \<Longrightarrow> aw_ok w'"
  by (induction as arbitrary: w)
    (auto simp: then_ok_def bind_eq_Some_conv split: option.splits dest: action_write_ok)

lemma callback_ok_actions: "callback_ok (\<lambda>h aw. (h, write_all action_write as aw))"
  by (auto simp: callback_ok_def dest: write_actions_ok)

text \<open>C24: the ACK frame of a list of actions, on every branch: it carries exactly their encoding
  when it fits the negotiated size, and is refused with nothing sent when it does not.\<close>

theorem ack_actions:
  assumes "pool_frame f" and "\<forall>a \<in> set as. wf_action a"
    and "2 * length (concat (map action_enc as)) \<le> max_alloc"
  shows "\<exists>f'. pool_frame f' \<and>
    (let m = ack_meta fid sid; p = concat (map action_enc as);
         l = length (pool_header frameTypeIDAck m) + length p;
         res = Ack_writeTo (\<lambda>h aw. (h, write_all action_write as aw)) fid sid f limit h w in
     if unat limit < l then res = (h, Ret (f', w, 0, Some (ErrFrameExceeds (of_nat l) limit)))
     else \<exists>w' n err. res = (h, Ret (f', w', n, err)) \<and> sent w (wire_frame frameTypeIDAck m p) w' n err)"
proof -
  let ?cb = "\<lambda>h aw. (h, write_all action_write as aw)"
  from Ack_writeTo_cases [OF assms(1) callback_ok_actions] obtain aw f'
    where aw: "aw_ok aw" "wb_off aw = 0" "pool_frame f'"
      "ack_outcome (?cb h aw) (ack_meta fid sid) limit f' w (Ack_writeTo ?cb fid sid f limit h w)"
    by metis
  from aw(2) assms(3) have "aw_room aw (length (concat (map action_enc as)))" by (simp add: aw_room_def)
  from actw.write_all_ok [OF assms(2) _ this] aw_ok_inv [OF aw(1)] aw(2) obtain aw' where
    "write_all action_write as aw = Ret (aw', None)" "kw_inv aw'" "wb_out aw' = concat (map action_enc as)"
    by (auto simp: wb_out_def)
  with aw(3,4) kw_out_length [of aw'] show ?thesis
    by (intro exI [of _ f']) (auto simp: ack_outcome_def Let_def split: if_splits)
qed

lemma ack_actions_witness:
  "\<exists>f f' w' n. newFrame = Ret f \<and>
    Ack_writeTo (\<lambda>h aw. (h, write_all action_write [SetVar VarScopeTransaction [120] (VBool True)] aw)) 1 2 f 256 () (open_sink []) =
      ((), Ret (f', w', n, None)) \<and>
    sk_out w' = wire_frame frameTypeIDAck (ack_meta 1 2) [1, 3, 2, 1, 120, 17]"
proof -
  let ?as = "[SetVar VarScopeTransaction [120] (VBool True)]"
  obtain f where f: "newFrame = Ret f" "pool_frame f" by (rule newFrame_pool)
  have p: "concat (map action_enc ?as) = [1, 3, 2, 1, 120, 17]"
    by (simp add: wire_defs bytes_enc_def varint_enc_def)
  have "\<not> unat (256 :: u32) < length (pool_header frameTypeIDAck (ack_meta 1 2)) + 6"
    using length_pool_header [of frameTypeIDAck "ack_meta 1 2"] by simp
  with ack_actions [where f = f and as = ?as and fid = 1 and sid = 2 and limit = 256 and h = "()"
      and w = "open_sink []"] f p show ?thesis
    by (fastforce simp: Let_def max_alloc_def sent_def open_sink_def)
qed

end
