(* ===== verification/KVScanner.thy ===== *)
theory KVScanner
  imports KVFormat
begin

text \<open>
  The scanner over key-value lists and its entries (pkg/encoding/kvscanner.go). Integers are
  decoded when an entry is read; every other value is kept as bytes. A byte slice that an
  entry holds is modelled by its contents: \<open>nil\<close> and the empty slice are both \<open>[]\<close>.
  \<open>ks_left\<close> is the announced number of entries: the code counts it down and never reads it.
\<close>

section \<open>The code\<close>

record kventry =
  ke_name :: "byte list"
  ke_byteVal :: "byte list"
  ke_intVal :: u64
  ke_dataType :: byte
  ke_boolVar :: bool

record kvscanner =
  ks_lastErr :: "gerr option"
  ks_buf :: slice
  ks_left :: int

definition NewKVScanner :: "slice \<Rightarrow> int \<Rightarrow> kvscanner" where
  "NewKVScanner b count = \<lparr>ks_lastErr = None, ks_buf = b, ks_left = count\<rparr>"

text \<open>
  Scanners and entries are pooled. Both are cleared when they are released, so what
  \<open>Acquire\<close> finds in the pool is always a fresh one.
\<close>

definition ReleaseKVScanner :: "kvscanner \<Rightarrow> kvscanner" where
  "ReleaseKVScanner s = s\<lparr>ks_lastErr := None, ks_buf := Slice [] [], ks_left := 0\<rparr>"

definition AcquireKVScanner :: "kvscanner \<Rightarrow> slice \<Rightarrow> int \<Rightarrow> kvscanner" where
  "AcquireKVScanner pooled b count = pooled\<lparr>ks_buf := b, ks_left := count\<rparr>"

definition entry_Reset :: "kventry \<Rightarrow> kventry" where
  "entry_Reset k =
     k\<lparr>ke_name := [], ke_dataType := 0, ke_byteVal := [], ke_boolVar := False, ke_intVal := 0\<rparr>"

definition NewKVEntry :: kventry where
  "NewKVEntry = \<lparr>ke_name = [], ke_byteVal = [], ke_intVal = 0, ke_dataType = 0, ke_boolVar = False\<rparr>"

definition ReleaseKVEntry :: "kventry \<Rightarrow> kventry" where
  "ReleaseKVEntry k = entry_Reset k"

definition RemainingBuf :: "kvscanner \<Rightarrow> nat" where
  "RemainingBuf k = slen (ks_buf k)"

definition KVScanner_Error :: "kvscanner \<Rightarrow> gerr option" where
  "KVScanner_Error k = ks_lastErr k"

definition ValueAddr :: "kventry \<Rightarrow> addr option" where
  "ValueAddr k =
     (case AddrFromSlice (ke_byteVal k) of (addr, ok) \<Rightarrow> if \<not> ok then Panic else Ret addr)"

text \<open>The byte-by-byte comparison of \<open>NameEquals\<close>, its loop written as a recursion on the index.\<close>

function NameEquals_loop :: "byte list \<Rightarrow> byte list \<Rightarrow> nat \<Rightarrow> bool" where
  "NameEquals_loop name s i =
     (if i < length name then
        (if name ! i \<noteq> s ! i then False else NameEquals_loop name s (i + 1))
      else True)"
  by pat_completeness auto
termination
  by (relation "measure (\<lambda>(name, s, i). length name - i)") auto

declare NameEquals_loop.simps [simp del]

definition NameEquals :: "kventry \<Rightarrow> byte list \<Rightarrow> bool" where
  "NameEquals k s =
     (if length (ke_name k) \<noteq> length s then False else NameEquals_loop (ke_name k) s 0)"

definition NameEqualBytes :: "kventry \<Rightarrow> byte list \<Rightarrow> bool" where
  "NameEqualBytes k b \<longleftrightarrow> ke_name k = b"

definition NameEqualUnsafe :: "kventry \<Rightarrow> byte list \<Rightarrow> bool" where
  "NameEqualUnsafe k s =
     (let n = length (ke_name k) in
      if n \<noteq> length s then False
      else if n = 0 then True
      else ke_name k = s)"

text \<open>
  \<open>Value\<close> returns an \<open>any\<close>: the typed values, with \<open>VNull\<close> for \<open>nil\<close>. It panics on an
  unknown type and on an address of the wrong length.
\<close>

definition KVEntry_Value :: "kventry \<Rightarrow> kval option" where
  "KVEntry_Value k =
     (let t = ke_dataType k in
      if t = DataTypeNull then Ret VNull
      else if t = DataTypeBool then Ret (VBool (ke_boolVar k))
      else if t = DataTypeInt32 then Ret (VInt32 (ucast (ke_intVal k)))
      else if t = DataTypeInt64 then Ret (VInt64 (ke_intVal k))
      else if t = DataTypeUInt32 then Ret (VUInt32 (ucast (ke_intVal k)))
      else if t = DataTypeUInt64 then Ret (VUInt64 (ke_intVal k))
      else if t = DataTypeIPV4 \<or> t = DataTypeIPV6 then
        (case AddrFromSlice (ke_byteVal k) of (addr, ok) \<Rightarrow> if \<not> ok then Panic else Ret (VAddr addr))
      else if t = DataTypeString then Ret (VString (ke_byteVal k))
      else if t = DataTypeBinary then Ret (VBinary (ke_byteVal k))
      else Panic)"

text \<open>\<open>x = buf[:n]; buf = buf[n:]\<close>: the contents taken and the rest.\<close>

definition take_bytes :: "slice \<Rightarrow> nat \<Rightarrow> (byte list \<times> slice) option" where
  "take_bytes buf n =
     do {
       x \<leftarrow> supto buf n;
       rest \<leftarrow> sfrom buf n;
       Ret (vis x, rest)
     }"

text \<open>The switch of \<open>Next\<close> on the data type of the entry.\<close>

definition Next_value :: "kvscanner \<Rightarrow> kventry \<Rightarrow> (kvscanner \<times> kventry \<times> bool) option" where
  "Next_value k e =
     (let t = ke_dataType e in
      if t = DataTypeNull \<or> t = DataTypeBool then Ret (k, e, True)
      else if t = DataTypeInt32 \<or> t = DataTypeInt64 \<or> t = DataTypeUInt32 \<or> t = DataTypeUInt64 then
        do {
          (v, n, err) \<leftarrow> Varint (ks_buf k);
          let k = k\<lparr>ks_lastErr := err\<rparr>;
          if err \<noteq> None then Ret (k, e, False)
          else do {
            buf \<leftarrow> sfrom (ks_buf k) n;
            Ret (k\<lparr>ks_buf := buf\<rparr>, e\<lparr>ke_intVal := v\<rparr>, True)
          }
        }
      else if t = DataTypeIPV4 then
        do {
          (x, buf) \<leftarrow> take_bytes (ks_buf k) 4;
          Ret (k\<lparr>ks_buf := buf\<rparr>, e\<lparr>ke_byteVal := x\<rparr>, True)
        }
      else if t = DataTypeIPV6 then
        do {
          (x, buf) \<leftarrow> take_bytes (ks_buf k) 16;
          Ret (k\<lparr>ks_buf := buf\<rparr>, e\<lparr>ke_byteVal := x\<rparr>, True)
        }
      else if t = DataTypeString \<or> t = DataTypeBinary then
        do {
          (valLen, n, err) \<leftarrow> Varint (ks_buf k);
          if err \<noteq> None then Ret (k\<lparr>ks_lastErr := err\<rparr>, e, False)
          else do {
            buf \<leftarrow> sfrom (ks_buf k) n;
            (x, buf) \<leftarrow> take_bytes buf (unat valLen);
            Ret (k\<lparr>ks_buf := buf\<rparr>, e\<lparr>ke_byteVal := x\<rparr>, True)
          }
        }
      else Ret (k\<lparr>ks_lastErr := Some (ErrUnknownDataType t)\<rparr>, e, False))"

definition Next :: "kvscanner \<Rightarrow> kventry \<Rightarrow> (kvscanner \<times> kventry \<times> bool) option" where
  "Next k e =
     (if slen (ks_buf k) = 0 then Ret (k, e, False)
      else do {
        let e = entry_Reset e;
        let k = k\<lparr>ks_left := ks_left k - 1\<rparr>;
        (nameLen, n, err) \<leftarrow> Varint (ks_buf k);
        if err \<noteq> None then Ret (k\<lparr>ks_lastErr := err\<rparr>, e, False)
        else do {
          buf \<leftarrow> sfrom (ks_buf k) n;
          (name, buf) \<leftarrow> take_bytes buf (unat nameLen);
          x \<leftarrow> sget buf 0;
          buf \<leftarrow> sfrom buf 1;
          Next_value (k\<lparr>ks_buf := buf\<rparr>)
            (e\<lparr>ke_name := name, ke_dataType := x AND dataTypeMask, ke_boolVar := x AND dataFlagTrue > 0\<rparr>)
        }
      })"

text \<open>\<open>Next(nil)\<close>: a nil entry panics, but only after the test for the end of the buffer.\<close>

definition Next_nil :: "kvscanner \<Rightarrow> (kvscanner \<times> bool) option" where
  "Next_nil k = (if slen (ks_buf k) = 0 then Ret (k, False) else Panic)"

section \<open>Progress and loops over the entries\<close>

lemma take_bytes_eq:
  "take_bytes b n = (if n \<le> slen b then Ret (take n (vis b), Slice (drop n (vis b)) (spare b)) else Panic)"
  by (cases b) (auto simp: take_bytes_def supto_def sbetween_def sfrom_def scap_def)

lemma take_bytes_append [simp]: "take_bytes (Slice (xs @ ys) s) (length xs) = Ret (xs, Slice ys s)"
  by (simp add: take_bytes_eq)

lemma take_bytes_shrinks: "take_bytes b n = Ret (x, b') \<Longrightarrow> slen b' \<le> slen b"
  by (auto simp: take_bytes_eq split: if_splits)

lemma sfrom_shrinks: "sfrom b n = Ret b' \<Longrightarrow> slen b' = slen b - n \<and> n \<le> slen b"
  by (auto simp: sfrom_def split: if_splits)

lemma Next_value_shrinks: "Next_value k e = Ret (k', e', cont) \<Longrightarrow> slen (ks_buf k') \<le> slen (ks_buf k)"
  by (auto simp: Next_value_def Let_def bind_eq_Some_conv
      dest!: take_bytes_shrinks sfrom_shrinks split: if_splits)

lemma Next_shrinks:
  assumes "Next k e = Ret (k', e', True)"
  shows "slen (ks_buf k') < slen (ks_buf k)"
proof -
  from assms obtain nameLen n buf name buf1 x buf2 k1 e1 where
    "Varint (ks_buf k) = Ret (nameLen, n, None)" "sfrom (ks_buf k) n = Ret buf"
    "take_bytes buf (unat nameLen) = Ret (name, buf1)" "sfrom buf1 1 = Ret buf2"
    "Next_value (k1\<lparr>ks_buf := buf2\<rparr>) e1 = Ret (k', e', True)"
    by (auto simp: Next_def Let_def bind_eq_Some_conv split: if_splits)
  then show ?thesis
    by (auto dest!: Varint_consumes take_bytes_shrinks sfrom_shrinks Next_value_shrinks)
qed

text \<open>
  \<open>for k.Next(e) { body }\<close>, where \<open>body\<close> works on the variables \<open>s\<close> of the caller and may
  return from it with \<open>Some r\<close>. The scanner is left where the loop stopped. Every read
  entry shrinks the buffer, so the loop ends.
\<close>

function ForNext ::
  "(kventry \<Rightarrow> 's \<Rightarrow> ('s \<times> 'r option) option) \<Rightarrow> kvscanner \<Rightarrow> kventry \<Rightarrow> 's \<Rightarrow>
   (kvscanner \<times> 's \<times> 'r option) option" where
  "ForNext body k e s =
     (case Next k e of
        None \<Rightarrow> Panic
      | Some (k', e', cont) \<Rightarrow>
          if \<not> cont then Ret (k', s, None)
          else (case body e' s of
                  None \<Rightarrow> Panic
                | Some (s', Some r) \<Rightarrow> Ret (k', s', Some r)
                | Some (s', None) \<Rightarrow> ForNext body k' e' s'))"
  by pat_completeness auto
termination
  by (relation "measure (\<lambda>(body, k, e, s). slen (ks_buf k))") (auto simp: Next_shrinks)

declare ForNext.simps [simp del]

definition Discard :: "kvscanner \<Rightarrow> (kvscanner \<times> gerr option) option" where
  "Discard k =
     (if RemainingBuf k = 0 then Ret (k, None)
      else do {
        (k, _) \<leftarrow> ForNext (\<lambda>e (_ :: unit). Ret ((), None :: unit option)) k NewKVEntry ();
        Ret (k, KVScanner_Error k)
      })"

section \<open>What the scanner delivers\<close>

text \<open>The entry that stands for a written key and value.\<close>

fun val_type :: "kval \<Rightarrow> byte" where
  "val_type VNull = DataTypeNull"
| "val_type (VBool v) = DataTypeBool"
| "val_type (VInt32 w) = DataTypeInt32"
| "val_type (VUInt32 w) = DataTypeUInt32"
| "val_type (VInt64 w) = DataTypeInt64"
| "val_type (VUInt64 w) = DataTypeUInt64"
| "val_type (VAddr a) = (if Is6 a then DataTypeIPV6 else DataTypeIPV4)"
| "val_type (VString v) = DataTypeString"
| "val_type (VBinary v) = DataTypeBinary"

fun val_int :: "kval \<Rightarrow> u64" where
  "val_int (VInt32 w) = scast w"
| "val_int (VUInt32 w) = ucast w"
| "val_int (VInt64 w) = w"
| "val_int (VUInt64 w) = w"
| "val_int v = 0"

fun val_bytes :: "kval \<Rightarrow> byte list" where
  "val_bytes (VAddr a) = AsSlice a"
| "val_bytes (VString v) = v"
| "val_bytes (VBinary v) = v"
| "val_bytes v = []"

definition entry_of :: "kv \<Rightarrow> kventry" where
  "entry_of kv =
     \<lparr>ke_name = fst kv, ke_byteVal = val_bytes (snd kv), ke_intVal = val_int (snd kv),
      ke_dataType = val_type (snd kv), ke_boolVar = (snd kv = VBool True)\<rparr>"

lemma entry_Reset_new [simp]: "entry_Reset e = NewKVEntry"
  by (cases e) (simp add: entry_Reset_def NewKVEntry_def)

lemma Varint_len_enc:
  "len_ok v \<Longrightarrow> Varint (Slice (bytes_enc v @ t) s) =
     Ret (of_nat (length v), length (varint_enc (of_nat (length v))), None)"
  by (simp add: bytes_enc_def Varint_enc)

lemma sfrom_len_enc:
  "sfrom (Slice (bytes_enc v @ t) s) (length (varint_enc (of_nat (length v)))) = Ret (Slice (v @ t) s)"
  by (simp add: bytes_enc_def)

lemma AsSlice_length: "wf_addr a \<Longrightarrow> a \<noteq> NoAddr \<Longrightarrow> length (AsSlice a) = (if Is6 a then 16 else 4)"
  by (cases a) auto

lemma take_AsSlice:
  assumes "wf_addr a" "a \<noteq> NoAddr"
  shows "Is6 a \<Longrightarrow> take_bytes (Slice (AsSlice a @ t) s) 16 = Ret (AsSlice a, Slice t s)"
    and "\<not> Is6 a \<Longrightarrow> take_bytes (Slice (AsSlice a @ t) s) 4 = Ret (AsSlice a, Slice t s)"
  using take_bytes_append [of "AsSlice a" t s] AsSlice_length [OF assms] by simp_all

lemma Next_enc:
  assumes "wf_kv kv"
  shows "Next \<lparr>ks_lastErr = None, ks_buf = Slice (kv_enc kv @ t) s, ks_left = l\<rparr> e =
    Ret (\<lparr>ks_lastErr = None, ks_buf = Slice t s, ks_left = l - 1\<rparr>, entry_of kv, True)"
proof -
  obtain name v where kv: "kv = (name, v)" by (cases kv)
  have n: "len_ok name" and v: "wf_val v" using assms by (simp_all add: kv wf_kv_def)
  obtain x w where x: "val_enc v = x # w" "x AND dataTypeMask = val_type v"
    "(x AND dataFlagTrue > 0) = (v = VBool True)"
    by (cases v) (auto simp: wire_defs)
  have "Next_value \<lparr>ks_lastErr = None, ks_buf = Slice (w @ t) s, ks_left = l - 1\<rparr>
      (NewKVEntry\<lparr>ke_name := name, ke_dataType := val_type v, ke_boolVar := (v = VBool True)\<rparr>) =
    Ret (\<lparr>ks_lastErr = None, ks_buf = Slice t s, ks_left = l - 1\<rparr>, entry_of (name, v), True)"
    using v x(1)
    by (cases v) (auto simp: Next_value_def take_AsSlice entry_of_def NewKVEntry_def wire_defs Let_def
        Varint_enc Varint_len_enc sfrom_len_enc unat_len split: if_splits)
  then show ?thesis
    using n x by (simp add: kv kv_enc_def Next_def Let_def Varint_len_enc sfrom_len_enc unat_len)
      (simp add: sfrom_def)
qed

lemma int32_roundtrip [simp]: "ucast (scast (w :: u32) :: u64) = w"
  by (rule bit_word_eqI) (simp add: bit_simps)

lemma uint32_roundtrip [simp]: "ucast (ucast (w :: u32) :: u64) = w"
  by (rule bit_word_eqI) (simp add: bit_simps)

lemma KVEntry_Value_entry_of:
  "wf_kv kv \<Longrightarrow> KVEntry_Value (entry_of kv) =
     Ret (case snd kv of VAddr a \<Rightarrow> VAddr (drop_zone a) | v \<Rightarrow> v)"
  by (cases kv; cases "snd kv")
    (auto simp: KVEntry_Value_def entry_of_def wire_defs wf_kv_def AddrFromSlice_AsSlice Let_def)

text \<open>A loop over a written list runs its body on the entries of the list, in order.\<close>

fun for_entries ::
  "(kventry \<Rightarrow> 's \<Rightarrow> ('s \<times> 'r option) option) \<Rightarrow> kv list \<Rightarrow> 's \<Rightarrow> ('s \<times> 'r option) option" where
  "for_entries body [] s = Ret (s, None)"
| "for_entries body (kv # kvs) s =
     (case body (entry_of kv) s of
        None \<Rightarrow> Panic
      | Some (s', Some r) \<Rightarrow> Ret (s', Some r)
      | Some (s', None) \<Rightarrow> for_entries body kvs s')"

lemma ForNext_enc:
  assumes "\<forall>kv \<in> set kvs. wf_kv kv"
  shows "map_option snd (ForNext body (NewKVScanner (Slice (concat (map kv_enc kvs)) sp) l) e s) =
    for_entries body kvs s"
  using assms
proof (induction kvs arbitrary: e s l)
  case Nil
  then show ?case by (simp add: ForNext.simps Next_def NewKVScanner_def)
next
  case (Cons kv kvs)
  then have "Next (NewKVScanner (Slice (concat (map kv_enc (kv # kvs))) sp) l) e =
      Ret (NewKVScanner (Slice (concat (map kv_enc kvs)) sp) (l - 1), entry_of kv, True)"
    by (simp add: NewKVScanner_def Next_enc)
  with Cons show ?case
    by (subst ForNext.simps) (auto split: option.splits)
qed

lemma ForNext_enc_scanner:
  assumes "\<forall>kv \<in> set kvs. wf_kv kv"
    and "ForNext body (NewKVScanner (Slice (concat (map kv_enc kvs)) sp) l) e s = Ret (k', s', None)"
  shows "ks_lastErr k' = None \<and> slen (ks_buf k') = 0"
  using assms
proof (induction kvs arbitrary: e s l)
  case Nil
  then show ?case by (auto simp: ForNext.simps Next_def NewKVScanner_def)
next
  case (Cons kv kvs)
  then have "Next (NewKVScanner (Slice (concat (map kv_enc (kv # kvs))) sp) l) e =
      Ret (NewKVScanner (Slice (concat (map kv_enc kvs)) sp) (l - 1), entry_of kv, True)"
    by (simp add: NewKVScanner_def Next_enc)
  with Cons.prems(2) obtain s1 where
    "ForNext body (NewKVScanner (Slice (concat (map kv_enc kvs)) sp) (l - 1)) (entry_of kv) s1 = Ret (k', s', None)"
    by (subst (asm) ForNext.simps) (auto split: option.splits)
  with Cons show ?case by simp
qed

text \<open>Collecting all entries.\<close>

definition scan_all :: "kvscanner \<Rightarrow> (kventry list \<times> gerr option) option" where
  "scan_all k =
     do {
       (k, es, _) \<leftarrow> ForNext (\<lambda>e es. Ret (es @ [e], None :: unit option)) k NewKVEntry [];
       Ret (es, KVScanner_Error k)
     }"

lemma for_entries_collect:
  "for_entries (\<lambda>e es. Ret (es @ [e], None :: unit option)) kvs es = Ret (es @ map entry_of kvs, None)"
  by (induction kvs arbitrary: es) auto

lemma scan_all_enc:
  assumes "\<forall>kv \<in> set kvs. wf_kv kv"
  shows "scan_all (NewKVScanner (Slice (concat (map kv_enc kvs)) sp) l) = Ret (map entry_of kvs, None)"
proof -
  let ?F = "ForNext (\<lambda>e es. Ret (es @ [e], None :: unit option))
    (NewKVScanner (Slice (concat (map kv_enc kvs)) sp) l) NewKVEntry []"
  from ForNext_enc [OF assms, of "\<lambda>e es. Ret (es @ [e], None :: unit option)" sp l NewKVEntry "[]"]
  obtain k' where F: "?F = Ret (k', map entry_of kvs, None)"
    by (auto simp: for_entries_collect)
  with ForNext_enc_scanner [OF assms F] show ?thesis
    by (simp add: scan_all_def KVScanner_Error_def)
qed

section \<open>The scanner stays inside its buffer\<close>

text \<open>\<open>with_spare s b\<close> is \<open>b\<close> with other bytes between its length and its capacity.\<close>

definition with_spare :: "byte list \<Rightarrow> slice \<Rightarrow> slice" where
  "with_spare s b = Slice (vis b) s"

definition ks_spare :: "byte list \<Rightarrow> kvscanner \<Rightarrow> kvscanner" where
  "ks_spare s k = k\<lparr>ks_buf := with_spare s (ks_buf k)\<rparr>"

lemma with_spare_simps [simp]:
  "slen (with_spare s b) = slen b" "vis (with_spare s b) = vis b" "spare (with_spare s b) = s"
  by (cases b; simp add: with_spare_def)+

lemma Varint_spare: "Varint (with_spare s b) = Varint b"
  by (simp add: Varint_eq)

lemma sfrom_spare: "sfrom (with_spare s b) n = map_option (with_spare s) (sfrom b n)"
  by (simp add: sfrom_def with_spare_def)

lemma sget_spare: "sget (with_spare s b) n = sget b n"
  by (simp add: sget_def)

lemma take_bytes_spare:
  "take_bytes (with_spare s b) n = map_option (map_prod id (with_spare s)) (take_bytes b n)"
  by (simp add: take_bytes_eq with_spare_def)

lemmas spare_simps = Varint_spare sfrom_spare sget_spare take_bytes_spare ks_spare_def

lemma ks_spare_sel [simp]:
  "ks_buf (ks_spare s k) = with_spare s (ks_buf k)" "ks_lastErr (ks_spare s k) = ks_lastErr k"
  "ks_left (ks_spare s k) = ks_left k"
  by (simp_all add: ks_spare_def)

lemma ks_spare_upd:
  "ks_spare s (k\<lparr>ks_buf := b\<rparr>) = (ks_spare s k)\<lparr>ks_buf := with_spare s b\<rparr>"
  "ks_spare s (k\<lparr>ks_lastErr := e\<rparr>) = (ks_spare s k)\<lparr>ks_lastErr := e\<rparr>"
  "ks_spare s (k\<lparr>ks_left := l\<rparr>) = (ks_spare s k)\<lparr>ks_left := l\<rparr>"
  by (cases k; simp add: ks_spare_def)+

lemmas spare_step = Varint_spare sfrom_spare sget_spare take_bytes_spare ks_spare_upd

lemma Next_value_spare:
  "Next_value (ks_spare s k) e = map_option (map_prod (ks_spare s) id) (Next_value k e)"
  by (auto simp: Next_value_def Let_def spare_step map_option_case
      split: Option.bind_split option.splits if_splits prod.splits)

lemma Next_spare:
  "Next (ks_spare s k) e = map_option (map_prod (ks_spare s) id) (Next k e)"
  by (auto simp: Next_def Let_def spare_step map_option_case Next_value_spare
      simp flip: ks_spare_upd
      split: Option.bind_split option.splits if_splits prod.splits)

lemma ForNext_spare:
  "ForNext body (ks_spare s k) e st = map_option (map_prod (ks_spare s) id) (ForNext body k e st)"
proof (induction body k e st rule: ForNext.induct)
  case (1 body k e st)
  show ?case
  proof (cases "Next k e")
    case None
    then show ?thesis by (simp add: ForNext.simps [of body] Next_spare)
  next
    case (Some r)
    obtain k' e' c where r: "r = (k', e', c)" by (cases r)
    with Some "1.IH" [OF Some] show ?thesis
      by (auto simp: ForNext.simps [of body "ks_spare s k"] ForNext.simps [of body k] Next_spare
          split: option.splits)
  qed
qed

text \<open>C31: scanning never looks at the bytes between the end of its buffer and the buffer's
  capacity, where a pooled buffer holds data of other frames: the loop delivers the same
  entries, error and result, or panics, whatever those bytes are.\<close>

theorem scanner_isolated:
  "map_option (\<lambda>(k', st', r). (vis (ks_buf k'), ks_lastErr k', st', r)) (ForNext body (ks_spare s k) e st) =
   map_option (\<lambda>(k', st', r). (vis (ks_buf k'), ks_lastErr k', st', r)) (ForNext body k e st)"
  by (auto simp: ForNext_spare option.map_comp map_option_case split: option.splits)

section \<open>How a loop ends\<close>

lemma Next_value_stops:
  "Next_value k e = Ret (k', e', False) \<Longrightarrow> ks_lastErr k' \<noteq> None"
  by (auto simp: Next_value_def Let_def bind_eq_Some_conv split: if_splits)

lemma Next_stops:
  "Next k e = Ret (k', e', False) \<Longrightarrow> slen (ks_buf k') = 0 \<or> ks_lastErr k' \<noteq> None"
  by (auto simp: Next_def Let_def bind_eq_Some_conv dest!: Next_value_stops split: if_splits)

lemma ForNext_ends:
  "ForNext body k e s = Ret (k', s', None) \<Longrightarrow> slen (ks_buf k') = 0 \<or> ks_lastErr k' \<noteq> None"
proof (induction body k e s rule: ForNext.induct)
  case (1 body k e s)
  from "1.prems" show ?case
    by (subst (asm) ForNext.simps)
      (auto dest: Next_stops "1.IH" split: option.splits if_splits prod.splits)
qed

text \<open>A body that never returns from the caller.\<close>

lemma ForNext_falls_through:
  assumes "\<forall>e s. pred_option (\<lambda>r. snd r = None) (body e s)"
    and "ForNext body k e s = Ret (k', s', r)"
  shows "r = None"
  using assms
proof (induction body k e s rule: ForNext.induct)
  case (1 body k e s)
  show ?case
  proof (cases "Next k e")
    case (Some n)
    obtain k1 e1 c where n: "n = (k1, e1, c)" by (cases n)
    show ?thesis
    proof (cases c)
      case True
      from "1.prems"(1) have b: "pred_option (\<lambda>r. snd r = None) (body e1 s)" by blast
      with Some n True "1.prems"(2) obtain s1 where s1: "body e1 s = Some (s1, None)"
        "ForNext body k1 e1 s1 = Ret (k', s', r)"
        by (subst (asm) ForNext.simps) (auto split: option.splits)
      show ?thesis
        by (rule "1.IH" [OF Some _ _ _ s1(1) _ _ "1.prems"(1) s1(2)]) (use n True in simp_all)
    qed (use Some n "1.prems" in \<open>simp add: ForNext.simps\<close>)
  qed (use "1.prems" in \<open>simp add: ForNext.simps\<close>)
qed

lemma Discard_consumes_all:
  assumes "Discard k = Ret (k', None)"
  shows "RemainingBuf k' = 0"
proof (cases "RemainingBuf k = 0")
  case False
  with assms obtain r where
    F: "ForNext (\<lambda>e (_ :: unit). Ret ((), None :: unit option)) k NewKVEntry () = Ret (k', (), r)"
    and e: "ks_lastErr k' = None"
    by (auto simp: Discard_def KVScanner_Error_def bind_eq_Some_conv)
  have "r = None" by (rule ForNext_falls_through [OF _ F]) simp
  with ForNext_ends F e show ?thesis by (fastforce simp: RemainingBuf_def)
qed (use assms in \<open>simp add: Discard_def\<close>)

text \<open>The three name comparisons agree.\<close>

lemma NameEquals_loop_eq:
  "length name = length s \<Longrightarrow> NameEquals_loop name s i \<longleftrightarrow> drop i name = drop i s"
proof (induction name s i rule: NameEquals_loop.induct)
  case (1 name s i)
  show ?case
  proof (cases "i < length name")
    case True
    with 1 have "NameEquals_loop name s i \<longleftrightarrow> name ! i = s ! i \<and> drop (i + 1) name = drop (i + 1) s"
      by (subst NameEquals_loop.simps) simp
    with True "1.prems" show ?thesis by (simp add: Cons_nth_drop_Suc [symmetric])
  qed (use "1.prems" in \<open>simp add: NameEquals_loop.simps\<close>)
qed

lemma NameEquals_iff: "NameEquals k s \<longleftrightarrow> ke_name k = s"
  by (auto simp: NameEquals_def NameEquals_loop_eq)

text \<open>The optimised comparisons decide equality of the name with the given bytes.\<close>

lemma name_comparisons_agree:
  "NameEquals k s = (ke_name k = s) \<and> NameEqualBytes k s = NameEquals k s \<and>
   NameEqualUnsafe k s = NameEquals k s"
  by (auto simp: NameEquals_iff NameEqualBytes_def NameEqualUnsafe_def Let_def)

end
