(* ===== verification/MessageScanner.thy ===== *)
theory MessageScanner
  imports KVScanner
begin

text \<open>
  The scanner over the messages of a NOTIFY frame (pkg/encoding/messagescanner.go). A message
  owns a key-value scanner over the rest of the frame; the next call of \<open>Next\<close> resumes where
  that scanner stopped.
\<close>

record message =
  m_KV :: "kvscanner option"
  m_name :: "byte list"
  m_kvEntryCount :: byte

record msgscanner =
  ms_lastErr :: "gerr option"
  ms_buf :: slice

definition NewMessageScanner :: "slice \<Rightarrow> msgscanner" where
  "NewMessageScanner b = \<lparr>ms_lastErr = None, ms_buf = b\<rparr>"

definition AcquireMessageScanner :: "msgscanner \<Rightarrow> slice \<Rightarrow> msgscanner" where
  "AcquireMessageScanner pooled buf = pooled\<lparr>ms_buf := buf, ms_lastErr := None\<rparr>"

definition ReleaseMessageScanner :: "msgscanner \<Rightarrow> msgscanner" where
  "ReleaseMessageScanner s = s\<lparr>ms_buf := Slice [] [], ms_lastErr := None\<rparr>"

definition NewMessage :: message where
  "NewMessage = \<lparr>m_KV = None, m_name = [], m_kvEntryCount = 0\<rparr>"

definition ReleaseMessage :: "message \<Rightarrow> message" where
  "ReleaseMessage m = m\<lparr>m_name := [], m_KV := None, m_kvEntryCount := 0\<rparr>"

definition MessageScanner_Error :: "msgscanner \<Rightarrow> gerr option" where
  "MessageScanner_Error s = ms_lastErr s"

text \<open>
  The first step of \<open>Next\<close>: skip what the previous message's scanner has consumed, and give
  that scanner back. \<open>s.buf[len(s.buf)-m.KV.RemainingBuf():]\<close> panics when the scanner claims
  more than is left.
\<close>

definition resume :: "msgscanner \<Rightarrow> message \<Rightarrow> (msgscanner \<times> message) option" where
  "resume s m =
     (case m_KV m of
        None \<Rightarrow> Ret (s, m)
      | Some kv \<Rightarrow>
          if int (slen (ms_buf s)) - int (RemainingBuf kv) < 0 then Panic
          else do {
            buf \<leftarrow> sfrom (ms_buf s) (slen (ms_buf s) - RemainingBuf kv);
            Ret (s\<lparr>ms_buf := buf\<rparr>, m\<lparr>m_KV := None\<rparr>)
          })"

text \<open>The scanner \<open>AcquireKVScanner\<close> takes from the pool is a cleared one.\<close>

definition pooled_scanner :: kvscanner where
  "pooled_scanner = NewKVScanner (Slice [] []) 0"

definition MessageScanner_Next :: "msgscanner \<Rightarrow> message \<Rightarrow> (msgscanner \<times> message \<times> bool) option" where
  "MessageScanner_Next s m =
     do {
       (s, m) \<leftarrow> resume s m;
       if slen (ms_buf s) = 0 then Ret (s, m, False)
       else do {
         (nameLen, n, err) \<leftarrow> Varint (ms_buf s);
         if err \<noteq> None then Ret (s\<lparr>ms_lastErr := err\<rparr>, m, False)
         else do {
           buf \<leftarrow> sfrom (ms_buf s) n;
           (name, buf) \<leftarrow> take_bytes buf (unat nameLen);
           x \<leftarrow> sget buf 0;
           buf \<leftarrow> sfrom buf 1;
           Ret (s\<lparr>ms_buf := buf\<rparr>,
                m\<lparr>m_name := name, m_kvEntryCount := x,
                  m_KV := Some (AcquireKVScanner pooled_scanner buf (uint x))\<rparr>,
                True)
         }
       }
     }"

lemma AcquireKVScanner_pooled [simp]: "AcquireKVScanner (ReleaseKVScanner k) b n = NewKVScanner b n"
  by (cases k) (simp add: AcquireKVScanner_def ReleaseKVScanner_def NewKVScanner_def)

lemma pooled_scanner_new [simp]: "AcquireKVScanner pooled_scanner b n = NewKVScanner b n"
  by (simp add: AcquireKVScanner_def pooled_scanner_def NewKVScanner_def)

section \<open>Messages and their encoding\<close>

type_synonym msg = "byte list \<times> kv list"

definition msg_head :: "msg \<Rightarrow> byte list" where
  "msg_head m = bytes_enc (fst m) @ [of_nat (length (snd m))]"

definition msg_enc :: "msg \<Rightarrow> byte list" where
  "msg_enc m = msg_head m @ concat (map kv_enc (snd m))"

definition wf_msg :: "msg \<Rightarrow> bool" where
  "wf_msg m \<longleftrightarrow> len_ok (fst m) \<and> length (snd m) < 256 \<and> (\<forall>kv \<in> set (snd m). wf_kv kv)"

lemma MessageScanner_Next_head:
  assumes "len_ok (fst m)" and "m_KV m0 = None"
  shows "MessageScanner_Next \<lparr>ms_lastErr = er, ms_buf = Slice (msg_head m @ t) s\<rparr> m0 =
    Ret (\<lparr>ms_lastErr = er, ms_buf = Slice t s\<rparr>,
         \<lparr>m_KV = Some (NewKVScanner (Slice t s) (uint (of_nat (length (snd m)) :: byte))),
          m_name = fst m, m_kvEntryCount = of_nat (length (snd m))\<rparr>, True)"
  using assms
  by (cases m0)
    (simp add: MessageScanner_Next_def resume_def msg_head_def Varint_len_enc sfrom_len_enc unat_len,
     simp add: sfrom_def)

lemma resume_done:
  assumes "m_KV m = Some kv" and "RemainingBuf kv = 0"
  shows "\<exists>s' m'. MessageScanner_Next s m = Ret (s', m', False) \<and> ms_lastErr s' = ms_lastErr s"
  using assms by (auto simp: MessageScanner_Next_def resume_def sfrom_def)

lemma resume_shrinks:
  "resume s m = Ret (s', m') \<Longrightarrow> slen (ms_buf s') \<le> slen (ms_buf s) \<and> ms_lastErr s' = ms_lastErr s"
  by (auto simp: resume_def bind_eq_Some_conv dest!: sfrom_shrinks split: option.splits if_splits)

lemma MessageScanner_Next_shrinks:
  assumes "MessageScanner_Next s m = Ret (s', m', True)"
  shows "slen (ms_buf s') < slen (ms_buf s) \<and> m_KV m' \<noteq> None"
  using assms
  by (auto simp: MessageScanner_Next_def bind_eq_Some_conv split: if_splits prod.splits
      dest!: resume_shrinks Varint_consumes take_bytes_shrinks sfrom_shrinks)

end
