(* ===== verification/Scheduler.thy ===== *)
theory Scheduler
  imports Prelude
begin

text \<open>
  The bounded queue between the connections and the workers (spop/scheduler.go). \<open>Put\<close> and
  \<open>Get\<close> hold the lock except while they wait for a condition, so a call is a sequence of
  atomic sections: each runs from taking the lock, or from waking up, to waiting or returning.
  The elements are left abstract: the code stores pairs of a frame and its client.
\<close>

section \<open>The ring buffer\<close>

record 'a queue =
  q_elems :: "'a list"
  q_tail :: nat
  q_head :: nat
  q_size :: nat

definition newQueue :: "'a \<Rightarrow> nat \<Rightarrow> 'a queue" where
  "newQueue zero cap = \<lparr>q_elems = replicate cap zero, q_tail = 0, q_head = 0, q_size = 0\<rparr>"

definition isFull :: "'a queue \<Rightarrow> bool" where
  "isFull bq \<longleftrightarrow> q_size bq = length (q_elems bq)"

definition isEmpty :: "'a queue \<Rightarrow> bool" where
  "isEmpty bq \<longleftrightarrow> q_size bq \<le> 0"

text \<open>What \<open>Put\<close> and \<open>Get\<close> do after their wait loops. An index out of range panics, and so
  does the remainder by zero.\<close>

definition Put_elem :: "'a \<Rightarrow> 'a queue \<Rightarrow> 'a queue option" where
  "Put_elem x bq =
     (if q_tail bq < length (q_elems bq)
      then Ret (bq\<lparr>q_elems := (q_elems bq)[q_tail bq := x],
                   q_tail := (q_tail bq + 1) mod length (q_elems bq),
                   q_size := q_size bq + 1\<rparr>)
      else Panic)"

definition Get_elem :: "'a queue \<Rightarrow> ('a \<times> 'a queue) option" where
  "Get_elem bq =
     (if q_head bq < length (q_elems bq)
      then Ret (q_elems bq ! q_head bq,
                bq\<lparr>q_head := (q_head bq + 1) mod length (q_elems bq), q_size := q_size bq - 1\<rparr>)
      else Panic)"

section \<open>The contract of a bounded queue\<close>

locale bounded_queue =
  fixes put :: "'a \<Rightarrow> 'q \<Rightarrow> 'q option"
    and get :: "'q \<Rightarrow> ('a \<times> 'q) option"
    and full :: "'q \<Rightarrow> bool"
    and empty :: "'q \<Rightarrow> bool"
    and inv :: "'q \<Rightarrow> bool"
    and contents :: "'q \<Rightarrow> 'a list"
    and cap :: "'q \<Rightarrow> nat"
  assumes full_iff: "inv q \<Longrightarrow> full q \<longleftrightarrow> length (contents q) = cap q"
    and empty_iff: "inv q \<Longrightarrow> empty q \<longleftrightarrow> contents q = []"
    and bounded: "inv q \<Longrightarrow> length (contents q) \<le> cap q"
    and put_ok: "inv q \<Longrightarrow> \<not> full q \<Longrightarrow>
      \<exists>q'. put x q = Ret q' \<and> inv q' \<and> contents q' = contents q @ [x] \<and> cap q' = cap q"
    and get_ok: "inv q \<Longrightarrow> \<not> empty q \<Longrightarrow>
      \<exists>x q'. get q = Ret (x, q') \<and> inv q' \<and> contents q = x # contents q' \<and> cap q' = cap q"
begin

lemma putD:
  assumes "inv q" "\<not> full q" "put x q = Ret q'"
  shows "inv q' \<and> contents q' = contents q @ [x] \<and> cap q' = cap q"
  using put_ok [OF assms(1,2), of x] assms(3) by auto

lemma getD:
  assumes "inv q" "\<not> empty q" "get q = Ret (x, q')"
  shows "inv q' \<and> contents q = x # contents q' \<and> cap q' = cap q"
  using get_ok [OF assms(1,2)] assms(3) by auto

text \<open>A queue that is neither empty nor full is ready for both sides.\<close>

lemma room: "inv q \<Longrightarrow> \<not> full q \<Longrightarrow> length (contents q) < cap q"
  using full_iff bounded by fastforce

end

definition q_inv :: "'a queue \<Rightarrow> bool" where
  "q_inv bq \<longleftrightarrow>
     (let n = length (q_elems bq) in
      q_size bq \<le> n \<and> (n > 0 \<longrightarrow> q_head bq < n \<and> q_tail bq = (q_head bq + q_size bq) mod n))"

definition q_list :: "'a queue \<Rightarrow> 'a list" where
  "q_list bq = map (\<lambda>i. q_elems bq ! ((q_head bq + i) mod length (q_elems bq))) [0..<q_size bq]"

lemma length_q_list [simp]: "length (q_list bq) = q_size bq"
  by (simp add: q_list_def)

lemma mod_offsets_differ:
  fixes h n :: nat
  assumes "i < s" and "s < n"
  shows "(h + i) mod n \<noteq> (h + s) mod n"
proof
  assume "(h + i) mod n = (h + s) mod n"
  then have "n dvd (h + s) - (h + i)" using assms mod_eq_dvd_iff_nat [of "h + i" "h + s" n] by simp
  then have "n dvd s - i" by simp
  with assms show False using dvd_imp_le [of n "s - i"] by simp
qed

lemma Put_elem_list:
  assumes "q_inv bq" and "\<not> isFull bq"
  shows "\<exists>q'. Put_elem x bq = Ret q' \<and> q_inv q' \<and> q_list q' = q_list bq @ [x] \<and>
    length (q_elems q') = length (q_elems bq)"
proof -
  let ?n = "length (q_elems bq)"
  from assms have s: "q_size bq < ?n" by (simp add: q_inv_def isFull_def Let_def)
  with assms(1) have h: "q_head bq < ?n" "q_tail bq = (q_head bq + q_size bq) mod ?n"
    by (auto simp: q_inv_def Let_def)
  with s have "q_tail bq < ?n" by (metis gr_implies_not0 mod_less_divisor neq0_conv)
  note h = h this
  let ?q = "bq\<lparr>q_elems := (q_elems bq)[q_tail bq := x], q_tail := (q_tail bq + 1) mod ?n,
               q_size := q_size bq + 1\<rparr>"
  have "q_inv ?q" using s h by (simp add: q_inv_def Let_def mod_Suc_eq)
  moreover have "q_tail bq \<noteq> (q_head bq + i) mod ?n" if "i < q_size bq" for i
    using mod_offsets_differ [OF that s, of "q_head bq"] h(2) by simp
  then have "q_list ?q = q_list bq @ [x]"
    using h(2,3) by (simp add: q_list_def)
  ultimately show ?thesis using h by (simp add: Put_elem_def)
qed

lemma Get_elem_list:
  assumes "q_inv bq" and "\<not> isEmpty bq"
  shows "\<exists>x q'. Get_elem bq = Ret (x, q') \<and> q_inv q' \<and> q_list bq = x # q_list q' \<and>
    length (q_elems q') = length (q_elems bq)"
proof -
  let ?n = "length (q_elems bq)" and ?h = "q_head bq"
  let ?q = "bq\<lparr>q_head := (?h + 1) mod ?n, q_size := q_size bq - 1\<rparr>"
  from assms have s: "0 < q_size bq" "q_size bq \<le> ?n" "?h < ?n" "q_tail bq = (?h + q_size bq) mod ?n"
    by (auto simp: q_inv_def isEmpty_def Let_def)
  then have m: "((?h + 1) mod ?n + (q_size bq - 1)) mod ?n = (?h + q_size bq) mod ?n"
    using mod_add_left_eq [of "?h + 1" ?n "q_size bq - 1"] by simp
  have n: "0 < ?n" using s by linarith
  have "q_inv ?q" using s m mod_less_divisor [OF n, of "?h + 1"] by (simp add: q_inv_def Let_def)
  moreover have "q_list bq = (q_elems bq ! ?h) # q_list ?q"
  proof -
    have "[0..<q_size bq] = 0 # map Suc [0..<q_size bq - 1]"
      using s(1) by (simp add: map_Suc_upt upt_conv_Cons)
    moreover have "(Suc ?h mod ?n + i) mod ?n = (?h + Suc i) mod ?n" for i
      using mod_add_left_eq [of "Suc ?h" ?n i] by simp
    ultimately show ?thesis using s(3) by (simp add: q_list_def)
  qed
  ultimately show ?thesis using s by (simp add: Get_elem_def)
qed

interpretation ring: bounded_queue Put_elem Get_elem isFull isEmpty q_inv q_list "\<lambda>q. length (q_elems q)"
proof unfold_locales
  fix q :: "'a queue"
  assume "q_inv q"
  then show "isFull q \<longleftrightarrow> length (q_list q) = length (q_elems q)"
    and "isEmpty q \<longleftrightarrow> q_list q = []" and "length (q_list q) \<le> length (q_elems q)"
    by (auto simp: isFull_def isEmpty_def q_inv_def q_list_def Let_def)
qed (simp_all add: Put_elem_list Get_elem_list)

section \<open>Put and Get under the lock\<close>

text \<open>
  The monitor: the queue, the calls that wait for one of the two conditions, and the calls that
  were signalled and will compete for the lock. A waiting \<open>Put\<close> is known by its element; a
  waiting \<open>Get\<close> carries nothing, so these are counted. \<open>Signal\<close> wakes the call that has
  waited longest, if there is one, and is lost otherwise.
\<close>

record 'a monitor =
  mo_queue :: "'a queue"
  mo_putWait :: "'a list"
  mo_putWoken :: "'a list"
  mo_getWait :: nat
  mo_getWoken :: nat

definition new_monitor :: "'a \<Rightarrow> nat \<Rightarrow> 'a monitor" where
  "new_monitor zero cap =
     \<lparr>mo_queue = newQueue zero cap, mo_putWait = [], mo_putWoken = [], mo_getWait = 0, mo_getWoken = 0\<rparr>"

definition notEmpty_Signal :: "'a monitor \<Rightarrow> 'a monitor" where
  "notEmpty_Signal m =
     (if mo_getWait m = 0 then m
      else m\<lparr>mo_getWait := mo_getWait m - 1, mo_getWoken := mo_getWoken m + 1\<rparr>)"

definition notFull_Signal :: "'a monitor \<Rightarrow> 'a monitor" where
  "notFull_Signal m =
     (case mo_putWait m of
        [] \<Rightarrow> m
      | x # xs \<Rightarrow> m\<lparr>mo_putWait := xs, mo_putWoken := mo_putWoken m @ [x]\<rparr>)"

datatype 'a event = Blocked | PutDone 'a | Got 'a

text \<open>One pass of \<open>Put\<close> and of \<open>Get\<close> through the lock: to the wait, or to the return.\<close>

definition Put :: "'a \<Rightarrow> 'a monitor \<Rightarrow> ('a monitor \<times> 'a event) option" where
  "Put x m =
     (if isFull (mo_queue m) then Ret (m\<lparr>mo_putWait := mo_putWait m @ [x]\<rparr>, Blocked)
      else do {
        q \<leftarrow> Put_elem x (mo_queue m);
        Ret (notEmpty_Signal (m\<lparr>mo_queue := q\<rparr>), PutDone x)
      })"

definition Get :: "'a monitor \<Rightarrow> ('a monitor \<times> 'a event) option" where
  "Get m =
     (if isEmpty (mo_queue m) then Ret (m\<lparr>mo_getWait := mo_getWait m + 1\<rparr>, Blocked)
      else do {
        (x, q) \<leftarrow> Get_elem (mo_queue m);
        Ret (notFull_Signal (m\<lparr>mo_queue := q\<rparr>), Got x)
      })"

text \<open>
  Any connection may call \<open>Put\<close> and any worker \<open>Get\<close> at any time, and any signalled call may
  be the next to get the lock: it passes its loop's test again.
\<close>

inductive mstep :: "'a monitor \<Rightarrow> 'a event \<Rightarrow> 'a monitor \<Rightarrow> bool" where
  put: "Put x m = Ret (m', e) \<Longrightarrow> mstep m e m'"
| put_again: "x \<in> set (mo_putWoken m) \<Longrightarrow>
    Put x (m\<lparr>mo_putWoken := remove1 x (mo_putWoken m)\<rparr>) = Ret (m', e) \<Longrightarrow> mstep m e m'"
| get: "Get m = Ret (m', e) \<Longrightarrow> mstep m e m'"
| get_again: "0 < mo_getWoken m \<Longrightarrow>
    Get (m\<lparr>mo_getWoken := mo_getWoken m - 1\<rparr>) = Ret (m', e) \<Longrightarrow> mstep m e m'"

inductive mrun :: "'a monitor \<Rightarrow> 'a event list \<Rightarrow> 'a monitor \<Rightarrow> bool" where
  start: "mrun m [] m"
| step: "mrun m es m' \<Longrightarrow> mstep m' e m'' \<Longrightarrow> mrun m (es @ [e]) m''"

inductive_cases mstepE: "mstep m e m'"

fun put_of :: "'a event \<Rightarrow> 'a list" where
  "put_of (PutDone x) = [x]"
| "put_of _ = []"

fun got_of :: "'a event \<Rightarrow> 'a list" where
  "got_of (Got x) = [x]"
| "got_of _ = []"

text \<open>
  The invariant of the monitor. The last two parts say that no signal is lost: as long as a
  call waits, every element (every free slot) has a signalled call on its way.
\<close>

definition mo_inv :: "'a monitor \<Rightarrow> bool" where
  "mo_inv m \<longleftrightarrow>
     q_inv (mo_queue m) \<and>
     (0 < mo_getWait m \<longrightarrow> length (q_list (mo_queue m)) \<le> mo_getWoken m) \<and>
     (mo_putWait m \<noteq> [] \<longrightarrow>
        length (q_elems (mo_queue m)) \<le> length (q_list (mo_queue m)) + length (mo_putWoken m))"

lemma mo_inv_new: "mo_inv (new_monitor zero cap)"
  by (simp add: mo_inv_def new_monitor_def newQueue_def q_inv_def Let_def)

lemmas monitor_defs = Put_def Get_def notEmpty_Signal_def notFull_Signal_def

text \<open>The first premise leaves room for the signalled call that is just passing.\<close>

lemma Put_inv:
  assumes "Put x m = Ret (m', e)" and "q_inv (mo_queue m)"
    and "0 < mo_getWait m \<longrightarrow> length (q_list (mo_queue m)) \<le> mo_getWoken m"
    and "mo_putWait m \<noteq> [] \<longrightarrow>
      length (q_elems (mo_queue m)) \<le> length (q_list (mo_queue m)) + Suc (length (mo_putWoken m))"
  shows "mo_inv m' \<and> q_list (mo_queue m) @ put_of e = got_of e @ q_list (mo_queue m') \<and>
    length (q_elems (mo_queue m')) = length (q_elems (mo_queue m))"
proof (cases "isFull (mo_queue m)")
  case True
  then have "m' = m\<lparr>mo_putWait := mo_putWait m @ [x]\<rparr>" "e = Blocked"
    "length (q_elems (mo_queue m)) \<le> length (q_list (mo_queue m))"
    using assms(1) by (simp_all add: Put_def isFull_def)
  with assms(2-4) show ?thesis by (simp add: mo_inv_def)
next
  case False
  with assms(2) obtain q where q: "Put_elem x (mo_queue m) = Ret q" "q_inv q"
    "q_list q = q_list (mo_queue m) @ [x]" "length (q_elems q) = length (q_elems (mo_queue m))"
    using ring.put_ok [OF assms(2) False, of x] by metis
  from q(3) have "q_size q = Suc (q_size (mo_queue m))"
    by (metis length_q_list length_append_singleton)
  moreover from q(1) False assms(1) have "m' = notEmpty_Signal (m\<lparr>mo_queue := q\<rparr>)" "e = PutDone x"
    by (simp_all add: Put_def)
  ultimately show ?thesis using assms(3,4) q(2-4)
    by (cases "mo_getWait m = 0") (simp_all add: notEmpty_Signal_def mo_inv_def)
qed

lemma Get_inv:
  assumes "Get m = Ret (m', e)" and "q_inv (mo_queue m)"
    and "0 < mo_getWait m \<longrightarrow> length (q_list (mo_queue m)) \<le> Suc (mo_getWoken m)"
    and "mo_putWait m \<noteq> [] \<longrightarrow>
      length (q_elems (mo_queue m)) \<le> length (q_list (mo_queue m)) + length (mo_putWoken m)"
  shows "mo_inv m' \<and> q_list (mo_queue m) @ put_of e = got_of e @ q_list (mo_queue m') \<and>
    length (q_elems (mo_queue m')) = length (q_elems (mo_queue m))"
proof (cases "isEmpty (mo_queue m)")
  case True
  then have "m' = m\<lparr>mo_getWait := mo_getWait m + 1\<rparr>" "e = Blocked" "length (q_list (mo_queue m)) = 0"
    using assms(1) by (simp_all add: Get_def isEmpty_def)
  with assms(2-4) show ?thesis by (simp add: mo_inv_def)
next
  case False
  with assms(2) obtain x q where q: "Get_elem (mo_queue m) = Ret (x, q)" "q_inv q"
    "q_list (mo_queue m) = x # q_list q" "length (q_elems q) = length (q_elems (mo_queue m))"
    using ring.get_ok [OF assms(2) False] by metis
  from q(3) have "q_size (mo_queue m) = Suc (q_size q)"
    by (metis length_q_list length_Cons)
  moreover from q(1) False assms(1) have "m' = notFull_Signal (m\<lparr>mo_queue := q\<rparr>)" "e = Got x"
    by (simp_all add: Get_def)
  ultimately show ?thesis using assms(3,4) q(2-4)
    by (cases "mo_putWait m") (simp_all add: notFull_Signal_def mo_inv_def)
qed

lemma mstep_inv:
  assumes "mstep m e m'" and "mo_inv m"
  shows "mo_inv m' \<and> q_list (mo_queue m) @ put_of e = got_of e @ q_list (mo_queue m') \<and>
    length (q_elems (mo_queue m')) = length (q_elems (mo_queue m))"
  using assms(1)
proof (cases rule: mstep.cases)
  case (put x)
  then show ?thesis using assms(2) by (intro Put_inv) (auto simp: mo_inv_def)
next
  case (put_again x)
  then have "length (mo_putWoken m) = Suc (length (remove1 x (mo_putWoken m)))"
    by (simp add: length_remove1) (metis Suc_pred length_pos_if_in_set)
  with assms(2) have "mo_inv m' \<and>
      q_list (mo_queue (m\<lparr>mo_putWoken := remove1 x (mo_putWoken m)\<rparr>)) @ put_of e =
        got_of e @ q_list (mo_queue m') \<and>
      length (q_elems (mo_queue m')) =
        length (q_elems (mo_queue (m\<lparr>mo_putWoken := remove1 x (mo_putWoken m)\<rparr>)))"
    by (intro Put_inv [OF put_again(2)]) (auto simp: mo_inv_def)
  then show ?thesis by simp
next
  case get
  with assms(2) show ?thesis by (intro Get_inv [OF get]) (auto simp: mo_inv_def)
next
  case get_again
  with assms(2) have "mo_inv m' \<and>
      q_list (mo_queue (m\<lparr>mo_getWoken := mo_getWoken m - 1\<rparr>)) @ put_of e =
        got_of e @ q_list (mo_queue m') \<and>
      length (q_elems (mo_queue m')) = length (q_elems (mo_queue (m\<lparr>mo_getWoken := mo_getWoken m - 1\<rparr>)))"
    by (intro Get_inv [OF get_again(2)]) (auto simp: mo_inv_def)
  then show ?thesis by simp
qed

lemma mrun_inv:
  assumes "mrun m es m'" and "mo_inv m"
  shows "mo_inv m' \<and>
    q_list (mo_queue m) @ concat (map put_of es) = concat (map got_of es) @ q_list (mo_queue m') \<and>
    length (q_elems (mo_queue m')) = length (q_elems (mo_queue m))"
  using assms
proof (induction rule: mrun.induct)
  case (step m es m' e m'')
  then have IH: "mo_inv m'" "q_list (mo_queue m) @ concat (map put_of es) =
      concat (map got_of es) @ q_list (mo_queue m')"
    "length (q_elems (mo_queue m')) = length (q_elems (mo_queue m))" by simp_all
  from mstep_inv [OF step.hyps(2) IH(1)] have s: "mo_inv m''"
    "q_list (mo_queue m') @ put_of e = got_of e @ q_list (mo_queue m'')"
    "length (q_elems (mo_queue m'')) = length (q_elems (mo_queue m'))" by simp_all
  have "q_list (mo_queue m) @ concat (map put_of es) @ put_of e =
      concat (map got_of es) @ got_of e @ q_list (mo_queue m'')"
    using IH(2) s(2) by (metis append_assoc)
  with IH(3) s(1,3) show ?case by simp
qed simp

text \<open>\<open>newAsyncScheduler\<close>: room for two frames per processor. One worker is started for each.\<close>

definition newAsyncScheduler :: "'a \<Rightarrow> nat \<Rightarrow> 'a monitor" where
  "newAsyncScheduler zero numCPU = new_monitor zero (numCPU * 2)"

lemma newAsyncScheduler_init:
  "mo_inv (newAsyncScheduler zero n)" "q_list (mo_queue (newAsyncScheduler zero n)) = []"
  "length (q_elems (mo_queue (newAsyncScheduler zero n))) = n * 2"
  by (simp_all add: newAsyncScheduler_def mo_inv_new) (simp_all add: new_monitor_def newQueue_def q_list_def)

text \<open>C10: the frames come out of the scheduler's queue in the order in which they were put in,
  none lost and none twice, and never more than two per processor are waiting, whatever the
  interleaving of connections and workers.\<close>

theorem queue_fifo:
  assumes "mrun (newAsyncScheduler zero n) es m"
  shows "concat (map put_of es) = concat (map got_of es) @ q_list (mo_queue m) \<and>
    length (q_list (mo_queue m)) \<le> n * 2"
proof -
  from mrun_inv [OF assms newAsyncScheduler_init(1)] have
    "concat (map put_of es) = concat (map got_of es) @ q_list (mo_queue m)"
    "q_inv (mo_queue m)" "length (q_elems (mo_queue m)) = n * 2"
    by (simp_all add: newAsyncScheduler_init mo_inv_def del: length_q_list)
  with ring.bounded [OF this(2)] show ?thesis by simp
qed

lemma two_puts_and_a_get:
  "\<exists>m. mrun (newAsyncScheduler (0 :: nat) 1) [PutDone 7, PutDone 8, Got 7] m \<and> q_list (mo_queue m) = [8]"
proof -
  let ?m0 = "newAsyncScheduler (0 :: nat) 1"
  note d = newAsyncScheduler_def new_monitor_def newQueue_def monitor_defs Put_elem_def Get_elem_def
    isFull_def isEmpty_def
  obtain m1 where 1: "Put 7 ?m0 = Ret (m1, PutDone 7)" "m1 = ?m0\<lparr>mo_queue := \<lparr>q_elems = [7, 0],
      q_tail = 1, q_head = 0, q_size = 1\<rparr>\<rparr>"
    by (simp add: d numeral_2_eq_2)
  obtain m2 where 2: "Put 8 m1 = Ret (m2, PutDone 8)" "m2 = m1\<lparr>mo_queue := \<lparr>q_elems = [7, 8],
      q_tail = 0, q_head = 0, q_size = 2\<rparr>\<rparr>"
    by (simp add: d 1)
  obtain m3 where 3: "Get m2 = Ret (m3, Got 7)" "m3 = m2\<lparr>mo_queue := \<lparr>q_elems = [7, 8],
      q_tail = 0, q_head = 1, q_size = 1\<rparr>\<rparr>"
    by (simp add: d 2 1)
  have "mrun ?m0 ((([] @ [PutDone 7]) @ [PutDone 8]) @ [Got 7]) m3"
    by (rule mrun.step [OF mrun.step [OF mrun.step [OF mrun.start mstep.put [OF 1(1)]]
            mstep.put [OF 2(1)]] mstep.get [OF 3(1)]])
  then show ?thesis by (intro exI [of _ m3]) (simp add: 3(2) q_list_def)
qed

lemma queue_fifo_witness:
  "\<exists>m. mrun (newAsyncScheduler (0 :: nat) 1) [PutDone 7, PutDone 8, Got 7] m \<and>
    [7, 8] = [7] @ q_list (mo_queue m)"
  using two_puts_and_a_get queue_fifo by fastforce

text \<open>C11: no wake-up is lost and nothing panics: at every moment, if a worker waits although a
  frame is queued, a worker that was already signalled can take it, and if a connection waits
  although there is room, a signalled one can store its frame.\<close>

theorem no_lost_wakeup:
  assumes "mrun (newAsyncScheduler zero n) es m"
  shows "Put x m \<noteq> Panic \<and> Get m \<noteq> Panic \<and>
    (0 < mo_getWait m \<and> q_list (mo_queue m) \<noteq> [] \<longrightarrow>
       0 < mo_getWoken m \<and>
       (\<exists>y m'. Get (m\<lparr>mo_getWoken := mo_getWoken m - 1\<rparr>) = Ret (m', Got y) \<and> mstep m (Got y) m')) \<and>
    (mo_putWait m \<noteq> [] \<and> length (q_list (mo_queue m)) < n * 2 \<longrightarrow>
       (\<exists>y m'. y \<in> set (mo_putWoken m) \<and> mstep m (PutDone y) m'))"
proof -
  from mrun_inv [OF assms newAsyncScheduler_init(1)] have m: "mo_inv m" "length (q_elems (mo_queue m)) = n * 2"
    by (simp_all add: newAsyncScheduler_init)
  then have q: "q_inv (mo_queue m)" by (simp add: mo_inv_def)
  show ?thesis
  proof (intro conjI impI)
    show "Put x m \<noteq> Panic" using ring.put_ok [OF q, of x] by (auto simp: Put_def)
    show "Get m \<noteq> Panic" using ring.get_ok [OF q] by (auto simp: Get_def)
  next
    assume w: "0 < mo_getWait m \<and> q_list (mo_queue m) \<noteq> []"
    with m(1) show g: "0 < mo_getWoken m" by (auto simp: mo_inv_def q_list_def)
    from w ring.empty_iff [OF q] obtain y q' where "Get_elem (mo_queue m) = Ret (y, q')"
      "\<not> isEmpty (mo_queue m)" using ring.get_ok [OF q] by blast
    then have "\<exists>m'. Get (m\<lparr>mo_getWoken := mo_getWoken m - 1\<rparr>) = Ret (m', Got y)"
      by (simp add: Get_def)
    then show "\<exists>y m'. Get (m\<lparr>mo_getWoken := mo_getWoken m - 1\<rparr>) = Ret (m', Got y) \<and> mstep m (Got y) m'"
      using mstep.get_again [OF g] by blast
  next
    assume w: "mo_putWait m \<noteq> [] \<and> length (q_list (mo_queue m)) < n * 2"
    with m have "mo_putWoken m \<noteq> []" by (auto simp: mo_inv_def)
    then obtain y where y: "y \<in> set (mo_putWoken m)" by (cases "mo_putWoken m") auto
    from w m(2) ring.full_iff [OF q] have "\<not> isFull (mo_queue m)" by auto
    then have "\<exists>m'. Put y (m\<lparr>mo_putWoken := remove1 y (mo_putWoken m)\<rparr>) = Ret (m', PutDone y)"
      using ring.put_ok [OF q, of y] by (auto simp: Put_def)
    then show "\<exists>y m'. y \<in> set (mo_putWoken m) \<and> mstep m (PutDone y) m'"
      using mstep.put_again [OF y] y by blast
  qed
qed

lemma no_lost_wakeup_witness:
  "\<exists>m. mrun (newAsyncScheduler (0 :: nat) 1) [PutDone 7, PutDone 8, Got 7] m \<and> Get m \<noteq> Panic"
  using two_puts_and_a_get no_lost_wakeup by metis

end
