(* ===== verification/SpopProtocol.thy ===== *)
theory SpopProtocol
  imports Frames MessageScanner Scheduler
begin

text \<open>
  One connection of the agent (spop/protocol.go, with \<open>wrapPanic\<close> and the connection's goroutine
  of spop/agent.go). What the handlers change is a \<open>conn\<close>: the client, the outgoing side of
  the connection, the frame pool, and the state \<open>'h\<close> of the user's handler. Every handler
  returns it beside its outcome, \<open>Ret err\<close> or \<open>Panic\<close>, so that a recovered panic keeps what
  was done before it.
\<close>

section \<open>The client and its context\<close>

text \<open>The context is \<open>None\<close> while it lives, and holds its cause once it is cancelled.\<close>

record client =
  c_ctx :: "gerr option"
  c_engineID :: "byte list"
  c_maxFrameSize :: u32
  c_gotHello :: bool

record 'h conn =
  cn_client :: client
  cn_rw :: sink
  cn_pool :: "frame list"
  cn_h :: 'h

definition newProtocolClient :: "gerr option \<Rightarrow> client" where
  "newProtocolClient ctx = \<lparr>c_ctx = ctx, c_engineID = [], c_maxFrameSize = 0, c_gotHello = False\<rparr>"

text \<open>\<open>ctxCancel\<close>: the first call decides the cause, \<open>nil\<close> stands for \<open>context.Canceled\<close>.\<close>

definition ctxCancel :: "gerr option \<Rightarrow> client \<Rightarrow> client" where
  "ctxCancel cause c =
     (case c_ctx c of
        Some _ \<Rightarrow> c
      | None \<Rightarrow> c\<lparr>c_ctx := Some (case cause of None \<Rightarrow> ErrCanceled | Some e \<Rightarrow> e)\<rparr>)"

definition ctx_Err :: "client \<Rightarrow> gerr option" where
  "ctx_Err c = (case c_ctx c of None \<Rightarrow> None | Some _ \<Rightarrow> Some ErrCanceled)"

text \<open>
  The pool of frames. \<open>acquireFrame\<close> takes a released frame or makes a new one; \<open>sync.Pool\<close>
  chooses freely, which the lists of any order and content account for.
\<close>

definition acquireFrame :: "frame list \<Rightarrow> (frame \<times> frame list) option" where
  "acquireFrame pool =
     (case pool of
        [] \<Rightarrow> do { f \<leftarrow> newFrame; Ret (f, []) }
      | f # fs \<Rightarrow> Ret (f, fs))"

definition wrapPanic :: "'s \<times> gerr option option \<Rightarrow> 's \<times> gerr option" where
  "wrapPanic r = (case r of (s, None) \<Rightarrow> (s, Some (ErrFormat ''spop: panic'')) | (s, Some err) \<Rightarrow> (s, err))"

definition version :: "byte list" where "version = str ''2.0''"

definition maxHAProxyFrameSize :: u32 where [wire_defs]: "maxHAProxyFrameSize = 0x7FFFFFFF"

definition Close :: "'h conn \<Rightarrow> ('h conn \<times> gerr option) option" where
  "Close cn =
     (if ctx_Err (cn_client cn) \<noteq> None then Ret (cn, ctx_Err (cn_client cn))
      else do {
        (pf, pool) \<leftarrow> acquireFrame (cn_pool cn);
        (pf, w, _, _) \<leftarrow> AgentDisconnect_WriteTo ErrorUnknown pf (cn_rw cn);
        Ret (cn\<lparr>cn_pool := pf # pool, cn_rw := w,
                cn_client := ctxCancel (Some (ErrFormat ''closing client'')) (cn_client cn)\<rparr>, None)
      })"

section \<open>Loops whose body keeps its effects\<close>

text \<open>
  \<open>ForNext\<close> for a body that does not panic itself: when the scanner panics, the variables of
  the caller are still there.
\<close>

function ForNextP ::
  "(kventry \<Rightarrow> 's \<Rightarrow> 's \<times> 'r option) \<Rightarrow> kvscanner \<Rightarrow> kventry \<Rightarrow> 's \<Rightarrow>
   's \<times> (kvscanner \<times> 'r option) option" where
  "ForNextP body k e s =
     (case Next k e of
        None \<Rightarrow> (s, Panic)
      | Some (k', e', cont) \<Rightarrow>
          if \<not> cont then (s, Ret (k', None))
          else (case body e' s of
                  (s', Some r) \<Rightarrow> (s', Ret (k', Some r))
                | (s', None) \<Rightarrow> ForNextP body k' e' s'))"
  by pat_completeness auto
termination
  by (relation "measure (\<lambda>(body, k, e, s). slen (ks_buf k))") (auto simp: Next_shrinks)

declare ForNextP.simps [simp del]

lemma ForNext_ForNextP:
  "ForNext (\<lambda>e s. Ret (body e s)) k e s =
     (case ForNextP body k e s of (s', None) \<Rightarrow> Panic | (s', Some (k', r)) \<Rightarrow> Ret (k', s', r))"
proof (induction body k e s rule: ForNextP.induct)
  case (1 body k e s)
  then show ?case
    by (simp add: ForNext.simps [of _ k] ForNextP.simps [of _ k] split: option.splits prod.splits)
qed

section \<open>HAPROXY-HELLO\<close>

text \<open>
  The body of the loop over the hello's entries: it changes the client, remembers that a
  healthcheck deferred \<open>ctxCancel(nil)\<close>, and may return an error.
\<close>

definition hello_entry :: "kventry \<Rightarrow> client \<times> bool \<Rightarrow> (client \<times> bool) \<times> gerr option" where
  "hello_entry k st =
     (case st of (c, deferred) \<Rightarrow>
      if NameEquals k helloKeyMaxFrameSize then
        let c = c\<lparr>c_maxFrameSize := ucast (ke_intVal k)\<rparr> in
        if c_maxFrameSize c < 256 then
          ((c, deferred), Some (ErrFormatNat ''maxFrameSize smaller than minimum allowed size'' (unat (c_maxFrameSize c))))
        else if c_maxFrameSize c > maxHAProxyFrameSize then
          ((c, deferred), Some (ErrFormatNat ''maxFrameSize exceeds HAProxy maximum'' (unat (c_maxFrameSize c))))
        else ((c, deferred), None)
      else if NameEquals k helloKeyEngineID then ((c\<lparr>c_engineID := ke_byteVal k\<rparr>, deferred), None)
      else if NameEquals k helloKeyHealthcheck then ((c, True), None)
      else ((c, deferred), None))"

definition agent_hello :: "client \<Rightarrow> agentHello" where
  "agent_hello c = \<lparr>ah_Version = version, ah_Capabilities = [], ah_MaxFrameSize = c_maxFrameSize c\<rparr>"

text \<open>The end of \<open>onHAProxyHello\<close>, after its loop.\<close>

definition hello_reply :: "kvscanner \<Rightarrow> 'h conn \<Rightarrow> 'h conn \<times> gerr option option" where
  "hello_reply s cn =
     (if KVScanner_Error s \<noteq> None then (cn, Ret (KVScanner_Error s))
      else if c_maxFrameSize (cn_client cn) = 0 then
        (cn, Ret (Some (ErrFormat ''HAPROXY-HELLO missing max-frame-size'')))
      else
        (case do {
                (pf, pool) \<leftarrow> acquireFrame (cn_pool cn);
                (pf, w, n, err) \<leftarrow> AgentHello_WriteTo (agent_hello (cn_client cn)) pf (cn_rw cn);
                Ret (cn\<lparr>cn_pool := pf # pool, cn_rw := w\<rparr>, err)
              } of
           None \<Rightarrow> (cn, Panic)
         | Some (cn, err) \<Rightarrow> (cn, Ret err)))"

definition onHAProxyHello :: "frame \<Rightarrow> 'h conn \<Rightarrow> 'h conn \<times> gerr option option" where
  "onHAProxyHello f cn =
     (if c_gotHello (cn_client cn) then (cn, Panic)
      else
        let cn = cn\<lparr>cn_client := (cn_client cn)\<lparr>c_gotHello := True\<rparr>\<rparr> in
        (case ReadBytes (f_buf f) of
           None \<Rightarrow> (cn, Panic)
         | Some b \<Rightarrow>
             (case ForNextP hello_entry (AcquireKVScanner pooled_scanner b (-1)) NewKVEntry (cn_client cn, False) of
                ((c, deferred), res) \<Rightarrow>
                  let cn = cn\<lparr>cn_client := c\<rparr>;
                      (cn, out) = (case res of
                          None \<Rightarrow> (cn, Panic)
                        | Some (s, Some e) \<Rightarrow> (cn, Ret (Some e))
                        | Some (s, None) \<Rightarrow> hello_reply s cn)
                  in (if deferred then cn\<lparr>cn_client := ctxCancel None (cn_client cn)\<rparr> else cn, out))))"

section \<open>NOTIFY\<close>

text \<open>
  The user's handler gets its own state, the context, the action writer and the message, whose
  scanner it may advance. It may panic.
\<close>

type_synonym 'h handler =
  "'h \<Rightarrow> gerr option \<Rightarrow> actionwriter \<Rightarrow> message \<Rightarrow> 'h \<times> (actionwriter \<times> message) option"

text \<open>
  \<open>for s.Next(m)\<close> of \<open>onNotify\<close>: the handler under \<open>wrapPanic\<close>, then \<open>m.KV.Discard()\<close>, which
  panics when the handler has left a nil scanner.
\<close>

function notify_loop ::
  "'h handler \<Rightarrow> gerr option \<Rightarrow> msgscanner \<Rightarrow> message \<Rightarrow> 'h callback" where
  "notify_loop handler ctx s m h w =
     (case MessageScanner_Next s m of
        None \<Rightarrow> (h, Panic)
      | Some (s, m, cont) \<Rightarrow>
          if \<not> cont then (h, Ret (w, MessageScanner_Error s))
          else (case handler h ctx w m of
                  (h, None) \<Rightarrow> (h, Ret (w, Some (ErrFormat ''spop: panic'')))
                | (h, Some (w, m)) \<Rightarrow>
                    (case m_KV m of
                       None \<Rightarrow> (h, Panic)
                     | Some kv \<Rightarrow>
                         (case Discard kv of
                            None \<Rightarrow> (h, Panic)
                          | Some (kv, Some e) \<Rightarrow> (h, Ret (w, Some e))
                          | Some (kv, None) \<Rightarrow> notify_loop handler ctx s (m\<lparr>m_KV := Some kv\<rparr>) h w))))"
  by pat_completeness auto
termination
  by (relation "measure (\<lambda>(handler, ctx, s, m, h, w). slen (ms_buf s))")
    (auto dest: MessageScanner_Next_shrinks)

declare notify_loop.simps [simp del]

definition pooled_msgscanner :: msgscanner where
  "pooled_msgscanner = NewMessageScanner (Slice [] [])"

definition onNotify :: "'h handler \<Rightarrow> frame \<Rightarrow> 'h conn \<Rightarrow> 'h conn \<times> gerr option option" where
  "onNotify handler f cn =
     (case do {
             b \<leftarrow> ReadBytes (f_buf f);
             (pf, pool) \<leftarrow> acquireFrame (cn_pool cn);
             Ret (AcquireMessageScanner pooled_msgscanner b, pf, pool)
           } of
        None \<Rightarrow> (cn, Panic)
      | Some (s, pf, pool) \<Rightarrow>
          (case Ack_writeTo (notify_loop handler (c_ctx (cn_client cn)) s NewMessage)
                  (FrameID (f_meta f)) (StreamID (f_meta f)) pf (c_maxFrameSize (cn_client cn))
                  (cn_h cn) (cn_rw cn) of
             (h, None) \<Rightarrow> (cn\<lparr>cn_h := h, cn_pool := pool\<rparr>, Panic)
           | (h, Some (pf, w, n, err)) \<Rightarrow>
               (cn\<lparr>cn_h := h, cn_pool := pf # pool, cn_rw := w\<rparr>, Ret err)))"

section \<open>HAPROXY-DISCONNECT\<close>

definition disconnect_entry :: "kventry \<Rightarrow> int \<Rightarrow> int \<times> gerr option" where
  "disconnect_entry k code =
     (if NameEquals k statusCodeKey then (sint (ke_intVal k), None)
      else if NameEquals k messageKey then (code, None)
      else (code, Some (ErrFormat ''unexpected kv entry in disconnect frame'')))"

definition onHAProxyDisconnect :: "frame \<Rightarrow> 'h conn \<Rightarrow> 'h conn \<times> gerr option option" where
  "onHAProxyDisconnect f cn =
     (if buf_Len (f_buf f) = 0 then (cn, Ret (Some (ErrFormat ''disconnect frame without content'')))
      else
        (case ReadBytes (f_buf f) of
           None \<Rightarrow> (cn, Panic)
         | Some b \<Rightarrow>
             (case ForNextP disconnect_entry (AcquireKVScanner pooled_scanner b (-1)) NewKVEntry 0 of
                (code, None) \<Rightarrow> (cn, Panic)
              | (code, Some (s, Some e)) \<Rightarrow> (cn, Ret (Some e))
              | (code, Some (s, None)) \<Rightarrow>
                  let err = (if code = ErrorIO \<or> code = ErrorTimeout \<or> code = ErrorNone then None
                             else Some (ErrFormat (''disconnect frame with code '' @ show_int code @ '': ''
                               @ errorCode_String code)))
                  in (cn\<lparr>cn_client := ctxCancel err (cn_client cn)\<rparr>, Ret err))))"

section \<open>Dispatch\<close>

text \<open>The frame is released on every path, a panic included.\<close>

definition frameHandler :: "'h handler \<Rightarrow> frame \<Rightarrow> 'h conn \<Rightarrow> 'h conn \<times> gerr option option" where
  "frameHandler handler f cn =
     (let (cn, out) =
        (if f_frameType f = frameTypeIDHaproxyHello then onHAProxyHello f cn
         else if f_frameType f = frameTypeIDNotify then onNotify handler f cn
         else if f_frameType f = frameTypeIDHaproxyDisconnect then onHAProxyDisconnect f cn
         else (cn, Ret (Some (ErrFormatNat ''unknown frame type'' (unat (f_frameType f))))))
      in (cn\<lparr>cn_pool := releaseFrame f # cn_pool cn\<rparr>, out))"

section \<open>Loops over written lists\<close>

fun for_kvs :: "(kventry \<Rightarrow> 's \<Rightarrow> 's \<times> 'r option) \<Rightarrow> kv list \<Rightarrow> 's \<Rightarrow> 's \<times> 'r option" where
  "for_kvs body [] s = (s, None)"
| "for_kvs body (kv # kvs) s =
     (case body (entry_of kv) s of (s', Some r) \<Rightarrow> (s', Some r) | (s', None) \<Rightarrow> for_kvs body kvs s')"

lemma ForNextP_enc:
  assumes "\<forall>kv \<in> set kvs. wf_kv kv"
  shows "\<exists>k'. ForNextP body (NewKVScanner (Slice (concat (map kv_enc kvs)) sp) l) e s =
      (case for_kvs body kvs s of (s', r) \<Rightarrow> (s', Ret (k', r))) \<and> ks_lastErr k' = None"
  using assms
proof (induction kvs arbitrary: e s l)
  case Nil
  then show ?case by (simp add: ForNextP.simps Next_def NewKVScanner_def)
next
  case (Cons kv kvs)
  then have n: "Next (NewKVScanner (Slice (concat (map kv_enc (kv # kvs))) sp) l) e =
      Ret (NewKVScanner (Slice (concat (map kv_enc kvs)) sp) (l - 1), entry_of kv, True)"
    by (simp add: NewKVScanner_def Next_enc)
  show ?case
  proof (cases "body (entry_of kv) s")
    case (Pair s' r)
    with n Cons show ?thesis
      by (subst ForNextP.simps, cases r) (auto simp: NewKVScanner_def)
  qed
qed

lemma NameEquals_entry: "NameEquals (entry_of kv) n \<longleftrightarrow> fst kv = n"
  by (simp add: NameEquals_iff entry_of_def)

section \<open>The pool and the control frames\<close>

definition pool_ok :: "'h conn \<Rightarrow> bool" where
  "pool_ok cn \<longleftrightarrow> (\<forall>f \<in> set (cn_pool cn). pool_frame f)"

lemma acquireFrame_ok:
  assumes "\<forall>f \<in> set pool. pool_frame f"
  obtains pf pool' where "acquireFrame pool = Ret (pf, pool')" "pool_frame pf" "\<forall>f \<in> set pool'. pool_frame f"
proof (cases pool)
  case Nil
  obtain f where f: "newFrame = Ret f" "pool_frame f" by (rule newFrame_pool)
  from Nil have "acquireFrame pool = Ret (f, [])" unfolding acquireFrame_def by (simp add: f(1))
  with f(2) show ?thesis by (intro that [of f "[]"]) simp_all
qed (use assms that in \<open>simp add: acquireFrame_def\<close>)

definition hello_bytes :: "client \<Rightarrow> byte list" where
  "hello_bytes c = wire_frame frameTypeIDAgentHello fin_meta (concat (map kv_enc (hello_kvs (agent_hello c))))"

lemma hello_reply_cases:
  assumes "pool_ok cn"
  shows "if KVScanner_Error s \<noteq> None then hello_reply s cn = (cn, Ret (KVScanner_Error s))
    else if c_maxFrameSize (cn_client cn) = 0
    then hello_reply s cn = (cn, Ret (Some (ErrFormat ''HAPROXY-HELLO missing max-frame-size'')))
    else \<exists>pool w n err. hello_reply s cn = (cn\<lparr>cn_pool := pool, cn_rw := w\<rparr>, Ret err) \<and>
      (\<forall>f \<in> set pool. pool_frame f) \<and> sent (cn_rw cn) (hello_bytes (cn_client cn)) w n err"
proof -
  from assms obtain pf pool where p: "acquireFrame (cn_pool cn) = Ret (pf, pool)" "pool_frame pf"
    "\<forall>f \<in> set pool. pool_frame f" by (auto simp: pool_ok_def elim: acquireFrame_ok)
  have "\<forall>kv \<in> set (hello_kvs (agent_hello (cn_client cn))). wf_kv kv"
    "25 + length (concat (map kv_enc (hello_kvs (agent_hello (cn_client cn))))) \<le> maxFrameSize"
    using hello_kvs_fit [of "agent_hello (cn_client cn)"]
    by (simp_all add: agent_hello_def version_def)
  from AgentHello_WriteTo_kvs [OF p(2) this, of "cn_rw cn"] obtain f' w' n err where
    "AgentHello_WriteTo (agent_hello (cn_client cn)) pf (cn_rw cn) = Ret (f', w', n, err)" "pool_frame f'"
    "sent (cn_rw cn) (hello_bytes (cn_client cn)) w' n err" by (auto simp: hello_bytes_def)
  with p show ?thesis by (fastforce simp: hello_reply_def)
qed

section \<open>What the HELLO negotiates\<close>

definition size_ok :: "u32 \<Rightarrow> bool" where
  "size_ok n \<longleftrightarrow> 256 \<le> n \<and> n \<le> maxHAProxyFrameSize"

text \<open>The frame sizes a list of entries announces, as the code reads them: cut to 32 bits.\<close>

definition sizes :: "kv list \<Rightarrow> u32 list" where
  "sizes kvs = map (\<lambda>kv. ucast (val_int (snd kv))) (filter (\<lambda>kv. fst kv = helloKeyMaxFrameSize) kvs)"

text \<open>A size beyond 32 bits is taken modulo 2 to the 32, and may then pass for an acceptable one.\<close>

lemma wide_size_truncated: "sizes [(helloKeyMaxFrameSize, VUInt64 (2 ^ 32 + 1024))] = [1024]"
  by (simp add: sizes_def)

definition engines :: "kv list \<Rightarrow> byte list list" where
  "engines kvs = map (\<lambda>kv. val_bytes (snd kv)) (filter (\<lambda>kv. fst kv = helloKeyEngineID) kvs)"

definition healthcheck :: "kv list \<Rightarrow> bool" where
  "healthcheck kvs \<longleftrightarrow> helloKeyHealthcheck \<in> fst ` set kvs"

definition negotiated :: "kv list \<Rightarrow> client \<Rightarrow> client" where
  "negotiated kvs c =
     c\<lparr>c_maxFrameSize := last (c_maxFrameSize c # sizes kvs),
       c_engineID := last (c_engineID c # engines kvs)\<rparr>"

lemma hello_keys_differ:
  "helloKeyMaxFrameSize \<noteq> helloKeyEngineID" "helloKeyMaxFrameSize \<noteq> helloKeyHealthcheck"
  "helloKeyEngineID \<noteq> helloKeyHealthcheck"
proof -
  have "length helloKeyMaxFrameSize = 14" "length helloKeyEngineID = 9" "length helloKeyHealthcheck = 11"
    by (simp_all add: helloKeyMaxFrameSize_def helloKeyEngineID_def helloKeyHealthcheck_def)
  then show "helloKeyMaxFrameSize \<noteq> helloKeyEngineID" "helloKeyMaxFrameSize \<noteq> helloKeyHealthcheck"
    "helloKeyEngineID \<noteq> helloKeyHealthcheck" by auto
qed

lemma hello_entry_of:
  "hello_entry (entry_of kv) (c, d) =
     (if fst kv = helloKeyMaxFrameSize then
        let c = c\<lparr>c_maxFrameSize := ucast (val_int (snd kv))\<rparr> in
        ((c, d),
         if size_ok (c_maxFrameSize c) then None
         else if c_maxFrameSize c < 256
         then Some (ErrFormatNat ''maxFrameSize smaller than minimum allowed size'' (unat (c_maxFrameSize c)))
         else Some (ErrFormatNat ''maxFrameSize exceeds HAProxy maximum'' (unat (c_maxFrameSize c))))
      else if fst kv = helloKeyEngineID then ((c\<lparr>c_engineID := val_bytes (snd kv)\<rparr>, d), None)
      else if fst kv = helloKeyHealthcheck then ((c, True), None)
      else ((c, d), None))"
proof -
  have ok: "size_ok n \<longleftrightarrow> \<not> n < 256 \<and> \<not> maxHAProxyFrameSize < n" for n
    by (simp add: size_ok_def not_less)
  show ?thesis
    by (cases "fst kv = helloKeyMaxFrameSize"; cases "fst kv = helloKeyEngineID")
      (simp_all add: hello_entry_def NameEquals_entry Let_def ok, simp_all add: entry_of_def)
qed

lemma hello_loop_good:
  "list_all size_ok (sizes kvs) \<Longrightarrow>
   for_kvs hello_entry kvs (c, d) = ((negotiated kvs c, d \<or> healthcheck kvs), None)"
proof (induction kvs arbitrary: c d)
  case (Cons kv kvs)
  then show ?case
    using hello_keys_differ
    by (auto simp: hello_entry_of negotiated_def sizes_def engines_def healthcheck_def Let_def)
qed (simp add: negotiated_def sizes_def engines_def healthcheck_def)

lemma hello_loop_bad:
  assumes "\<not> list_all size_ok (sizes kvs)"
  shows "\<exists>c' d' e. for_kvs hello_entry kvs (c, d) = ((c', d'), Some e) \<and> c_gotHello c' = c_gotHello c"
  using assms
proof (induction kvs arbitrary: c d)
  case (Cons kv kvs)
  show ?case
  proof (cases "fst kv = helloKeyMaxFrameSize \<and> \<not> size_ok (ucast (val_int (snd kv)))")
    case True
    then show ?thesis by (auto simp: hello_entry_of Let_def)
  next
    case False
    with Cons.prems have "\<not> list_all size_ok (sizes kvs)" by (auto simp: sizes_def split: if_splits)
    note IH = Cons.IH [OF this]
    have "\<exists>c1 d1. hello_entry (entry_of kv) (c, d) = ((c1, d1), None) \<and> c_gotHello c1 = c_gotHello c"
      using False by (cases "fst kv = helloKeyMaxFrameSize") (auto simp: hello_entry_of Let_def)
    then obtain c1 d1 where
      "hello_entry (entry_of kv) (c, d) = ((c1, d1), None)" "c_gotHello c1 = c_gotHello c" by blast
    with IH [of c1 d1] show ?thesis by simp
  qed
qed (simp add: sizes_def)

text \<open>The reply to a HELLO whose payload is the list \<open>kvs\<close>.\<close>

lemma onHAProxyHello_enc:
  assumes "\<forall>kv \<in> set kvs. wf_kv kv" and "\<not> c_gotHello (cn_client cn)"
    and "ReadBytes (f_buf f) = Ret (Slice (concat (map kv_enc kvs)) sp)"
  shows "\<exists>s. KVScanner_Error s = None \<and> onHAProxyHello f cn =
    (case for_kvs hello_entry kvs ((cn_client cn)\<lparr>c_gotHello := True\<rparr>, False) of
       ((c, deferred), res) \<Rightarrow>
         let cn = cn\<lparr>cn_client := c\<rparr>;
             (cn, out) = (case res of Some e \<Rightarrow> (cn, Ret (Some e)) | None \<Rightarrow> hello_reply s cn)
         in (if deferred then cn\<lparr>cn_client := ctxCancel None (cn_client cn)\<rparr> else cn, out))"
proof -
  obtain k' where k: "ForNextP hello_entry (NewKVScanner (Slice (concat (map kv_enc kvs)) sp) (-1))
      NewKVEntry ((cn_client cn)\<lparr>c_gotHello := True\<rparr>, False) =
      (case for_kvs hello_entry kvs ((cn_client cn)\<lparr>c_gotHello := True\<rparr>, False) of (s', r) \<Rightarrow> (s', Ret (k', r)))"
    "ks_lastErr k' = None"
    using ForNextP_enc [OF assms(1), of hello_entry sp "-1" NewKVEntry
        "((cn_client cn)\<lparr>c_gotHello := True\<rparr>, False)"] by blast
  show ?thesis
    using k(2) assms(2,3)
    by (intro exI [of _ k']) (simp add: onHAProxyHello_def k(1) KVScanner_Error_def split: prod.splits option.splits)
qed

lemma ctxCancel_simps [simp]:
  "c_gotHello (ctxCancel e c) = c_gotHello c" "c_maxFrameSize (ctxCancel e c) = c_maxFrameSize c"
  "c_engineID (ctxCancel e c) = c_engineID c"
  by (simp_all add: ctxCancel_def split: option.splits)

lemma hello_bytes_size: "c_maxFrameSize c = c_maxFrameSize c' \<Longrightarrow> hello_bytes c = hello_bytes c'"
  by (simp add: hello_bytes_def agent_hello_def)

text \<open>
  A HELLO with acceptable frame sizes is answered: the client takes the last size and engine id
  announced, a healthcheck cancels the context after the reply, and exactly the AGENT-HELLO with
  that size goes out.
\<close>

lemma hello_negotiates:
  assumes "\<forall>kv \<in> set kvs. wf_kv kv" and "\<not> c_gotHello (cn_client cn)" and "pool_ok cn"
    and "ReadBytes (f_buf f) = Ret (Slice (concat (map kv_enc kvs)) sp)"
    and "sizes kvs \<noteq> []" and "list_all size_ok (sizes kvs)"
  shows "\<exists>cn' n err. onHAProxyHello f cn = (cn', Ret err) \<and> pool_ok cn' \<and> cn_h cn' = cn_h cn \<and>
    (let c = negotiated kvs ((cn_client cn)\<lparr>c_gotHello := True\<rparr>) in
     c_maxFrameSize c = last (sizes kvs) \<and>
     cn_client cn' = (if healthcheck kvs then ctxCancel None c else c) \<and>
     sent (cn_rw cn) (hello_bytes c) (cn_rw cn') n err)"
proof -
  let ?c = "negotiated kvs ((cn_client cn)\<lparr>c_gotHello := True\<rparr>)"
  obtain s where s: "KVScanner_Error s = None" "onHAProxyHello f cn =
      (let (cn, out) = hello_reply s (cn\<lparr>cn_client := ?c\<rparr>)
       in (if healthcheck kvs then cn\<lparr>cn_client := ctxCancel None (cn_client cn)\<rparr> else cn, out))"
    using onHAProxyHello_enc [OF assms(1,2,4)] hello_loop_good [OF assms(6)] by (auto simp: Let_def)
  have m: "c_maxFrameSize ?c = last (sizes kvs)" using assms(5) by (simp add: negotiated_def)
  have "last (sizes kvs) \<in> set (sizes kvs)" using assms(5) by simp
  with assms(6) have "size_ok (last (sizes kvs))" by (simp add: list_all_iff)
  then have "last (sizes kvs) \<noteq> 0" by (auto simp: size_ok_def)
  with hello_reply_cases [of "cn\<lparr>cn_client := ?c\<rparr>" s] s(1) m assms(3) obtain pool w n err where
    "hello_reply s (cn\<lparr>cn_client := ?c\<rparr>) = (cn\<lparr>cn_client := ?c, cn_pool := pool, cn_rw := w\<rparr>, Ret err)"
    "\<forall>f \<in> set pool. pool_frame f" "sent (cn_rw cn) (hello_bytes ?c) w n err"
    by (auto simp: pool_ok_def)
  with s(2) m show ?thesis by (auto simp: pool_ok_def Let_def)
qed

text \<open>A frame that holds just a payload, and a fresh connection, for concrete inputs.\<close>

definition payload_frame :: "byte list \<Rightarrow> frame" where
  "payload_frame p = \<lparr>f_buf = NewSliceBufferWithSlice (Slice p []), f_length = [], f_meta = no_meta, f_frameType = 0\<rparr>"

lemma payload_frame_ReadBytes: "ReadBytes (f_buf (payload_frame p)) = Ret (Slice p [])"
  by (simp add: payload_frame_def NewSliceBufferWithSlice_def ReadBytes_def sbetween_def scap_def)

definition fresh_conn :: "'h \<Rightarrow> 'h conn" where
  "fresh_conn h = \<lparr>cn_client = newProtocolClient None, cn_rw = open_sink [], cn_pool = [], cn_h = h\<rparr>"

lemma fresh_conn_simps [simp]:
  "cn_client (fresh_conn h) = newProtocolClient None" "cn_rw (fresh_conn h) = open_sink []"
  "pool_ok (fresh_conn h)" "cn_h (fresh_conn h) = h"
  by (simp_all add: fresh_conn_def pool_ok_def)

text \<open>C28: a HELLO without a frame size is refused with an error and nothing is sent, and so is one with
  a size that is below 256 or above the limit of a C int after the cut to 32 bits that the code makes
  (\<open>sizes\<close>; a 64-bit size is judged by its lower half, see \<open>wide_size_truncated\<close>).\<close>

theorem hello_rejects:
  assumes "\<forall>kv \<in> set kvs. wf_kv kv" and "\<not> c_gotHello (cn_client cn)" and "c_maxFrameSize (cn_client cn) = 0"
    and "pool_ok cn" and "ReadBytes (f_buf f) = Ret (Slice (concat (map kv_enc kvs)) sp)"
    and "sizes kvs = [] \<or> \<not> list_all size_ok (sizes kvs)"
  shows "\<exists>cn' e. onHAProxyHello f cn = (cn', Ret (Some e)) \<and> cn_rw cn' = cn_rw cn"
proof (cases "list_all size_ok (sizes kvs)")
  case True
  with assms(6) have none: "sizes kvs = []" by simp
  let ?c = "negotiated kvs ((cn_client cn)\<lparr>c_gotHello := True\<rparr>)"
  obtain s where s: "KVScanner_Error s = None" "onHAProxyHello f cn =
      (let (cn, out) = hello_reply s (cn\<lparr>cn_client := ?c\<rparr>)
       in (if healthcheck kvs then cn\<lparr>cn_client := ctxCancel None (cn_client cn)\<rparr> else cn, out))"
    using onHAProxyHello_enc [OF assms(1,2,5)] hello_loop_good [OF True] by (auto simp: Let_def)
  have "c_maxFrameSize ?c = 0" using none assms(3) by (simp add: negotiated_def)
  with hello_reply_cases [of "cn\<lparr>cn_client := ?c\<rparr>" s] s(1) assms(4)
  have "hello_reply s (cn\<lparr>cn_client := ?c\<rparr>) =
      (cn\<lparr>cn_client := ?c\<rparr>, Ret (Some (ErrFormat ''HAPROXY-HELLO missing max-frame-size'')))"
    by (simp add: pool_ok_def)
  with s(2) show ?thesis by (auto simp: Let_def)
next
  case False
  then obtain c' d' e where
    "for_kvs hello_entry kvs ((cn_client cn)\<lparr>c_gotHello := True\<rparr>, False) = ((c', d'), Some e)"
    using hello_loop_bad by blast
  with onHAProxyHello_enc [OF assms(1,2,5)] show ?thesis by (auto simp: Let_def)
qed

lemma hello_rejects_witness:
  "\<exists>cn' e. onHAProxyHello (payload_frame (kv_enc (helloKeyMaxFrameSize, VUInt32 100))) (fresh_conn ()) =
    (cn', Ret (Some e)) \<and> cn_rw cn' = open_sink []"
proof -
  let ?kvs = "[(helloKeyMaxFrameSize, VUInt32 100)]"
  have "sizes ?kvs = [100]" by (simp add: sizes_def)
  then have "sizes ?kvs = [] \<or> \<not> list_all size_ok (sizes ?kvs)" by (simp add: size_ok_def)
  moreover have "\<forall>kv \<in> set ?kvs. wf_kv kv"
    by (simp add: wf_kv_def len_ok_def helloKeyMaxFrameSize_def)
  ultimately show ?thesis
    using hello_rejects [of ?kvs "fresh_conn ()" "payload_frame (kv_enc (helloKeyMaxFrameSize, VUInt32 100))" "[]"]
    by (simp add: payload_frame_ReadBytes newProtocolClient_def)
qed

section \<open>NOTIFY frames\<close>

text \<open>A handler that counts its calls.\<close>

definition counted :: "'h handler \<Rightarrow> (nat \<times> 'h) handler" where
  "counted handler nh ctx w m =
     (case handler (snd nh) ctx w m of (h', r) \<Rightarrow> ((fst nh + 1, h'), r))"

text \<open>After a message whose scanner was discarded the scanner of the frame is at its end.\<close>

lemma notify_loop_discarded:
  assumes "m_KV m = Some kv" and "RemainingBuf kv = 0"
  shows "notify_loop handler ctx s m h w = (h, Ret (w, MessageScanner_Error s))"
proof -
  obtain s' m' where "MessageScanner_Next s m = Ret (s', m', False)" "ms_lastErr s' = ms_lastErr s"
    using resume_done [OF assms] by blast
  then show ?thesis by (simp add: notify_loop.simps MessageScanner_Error_def)
qed

lemma notify_loop_once:
  "notify_loop handler ctx s m h w =
     (case MessageScanner_Next s m of
        None \<Rightarrow> (h, Panic)
      | Some (s, m, cont) \<Rightarrow>
          if \<not> cont then (h, Ret (w, MessageScanner_Error s))
          else (case handler h ctx w m of
                  (h, None) \<Rightarrow> (h, Ret (w, Some (ErrFormat ''spop: panic'')))
                | (h, Some (w, m)) \<Rightarrow>
                    (case m_KV m of
                       None \<Rightarrow> (h, Panic)
                     | Some kv \<Rightarrow>
                         (case Discard kv of
                            None \<Rightarrow> (h, Panic)
                          | Some (kv, Some e) \<Rightarrow> (h, Ret (w, Some e))
                          | Some (kv, None) \<Rightarrow> (h, Ret (w, MessageScanner_Error s))))))"
proof -
  have "notify_loop handler ctx s (m\<lparr>m_KV := Some k'\<rparr>) h w = (h, Ret (w, MessageScanner_Error s))"
    if "Discard k = Ret (k', None)" for s m h w k k'
    using Discard_consumes_all [OF that] by (intro notify_loop_discarded) auto
  then show ?thesis
    by (subst notify_loop.simps) (auto split: option.splits prod.splits)
qed

lemma notify_loop_counts:
  "fst (fst (notify_loop (counted handler) ctx s m (n, h) w)) \<le> n + 1"
  by (subst notify_loop_once) (auto simp: counted_def split: option.splits prod.splits)

lemma Ack_writeTo_handler:
  "fst (Ack_writeTo callback fid sid f limit h w) = h \<or>
   (\<exists>aw. fst (Ack_writeTo callback fid sid f limit h w) = fst (callback h aw))"
  by (auto simp: Ack_writeTo_def Let_def split: option.splits prod.splits) (metis fst_conv)+

text \<open>C21: for a NOTIFY frame the handler runs at most once, whatever the frame holds: the
  messages after the first are consumed with its arguments and never delivered.\<close>

theorem notify_handler_at_most_once:
  "fst (cn_h (fst (onNotify (counted handler) f (cn\<lparr>cn_h := (0, h)\<rparr>)))) \<le> 1"
proof -
  have "fst (fst (Ack_writeTo (notify_loop (counted handler) ctx s m) fid sid pf limit (0, h) w)) \<le> 1"
    for ctx s m fid sid pf limit w
    using Ack_writeTo_handler [of "notify_loop (counted handler) ctx s m" fid sid pf limit "(0, h)" w]
      notify_loop_counts [of handler ctx s m 0 h] by auto
  then have "fst h' \<le> 1"
    if "Ack_writeTo (notify_loop (counted handler) ctx s m) fid sid pf limit (0, h) w = (h', r)"
    for ctx s m fid sid pf limit w h' r
    by (metis that fst_conv)
  then show ?thesis
    by (simp add: onNotify_def split: option.split prod.split) (metis fst_conv)
qed

text \<open>What \<open>onNotify\<close> does, by what its callback returns.\<close>

definition notify_outcome ::
  "'h \<times> (actionwriter \<times> gerr option) option \<Rightarrow> frameMetadata \<Rightarrow> 'h conn \<Rightarrow> frame list \<Rightarrow>
   'h conn \<times> gerr option option \<Rightarrow> bool" where
  "notify_outcome cb m cn pool res =
     (case cb of
        (h', None) \<Rightarrow> res = (cn\<lparr>cn_h := h', cn_pool := pool\<rparr>, Panic)
      | (h', Some (aw', Some e)) \<Rightarrow> res = (cn\<lparr>cn_h := h', cn_pool := pool\<rparr>, Ret (Some e))
      | (h', Some (aw', None)) \<Rightarrow>
          let l = length (pool_header frameTypeIDAck m) + wb_off aw'; limit = c_maxFrameSize (cn_client cn) in
          if unat limit < l
          then res = (cn\<lparr>cn_h := h', cn_pool := pool\<rparr>, Ret (Some (ErrFrameExceeds (of_nat l) limit)))
          else \<exists>w' n err. res = (cn\<lparr>cn_h := h', cn_pool := pool, cn_rw := w'\<rparr>, Ret err) \<and>
            sent (cn_rw cn) (wire_frame frameTypeIDAck m (wb_out aw')) w' n err)"

definition notify_callback :: "'h handler \<Rightarrow> client \<Rightarrow> slice \<Rightarrow> 'h callback" where
  "notify_callback handler c b = notify_loop handler (c_ctx c) (NewMessageScanner b) NewMessage"

lemma AcquireMessageScanner_pooled: "AcquireMessageScanner pooled_msgscanner b = NewMessageScanner b"
  by (simp add: AcquireMessageScanner_def pooled_msgscanner_def NewMessageScanner_def)

lemma onNotify_cases:
  assumes "pool_ok cn" and "ReadBytes (f_buf f) = Ret b"
    and "callback_ok (notify_callback handler (cn_client cn) b)"
  shows "\<exists>aw pool. aw_ok aw \<and> wb_off aw = 0 \<and> (\<forall>f \<in> set pool. pool_frame f) \<and>
    notify_outcome (notify_callback handler (cn_client cn) b (cn_h cn) aw)
      (ack_meta (FrameID (f_meta f)) (StreamID (f_meta f))) cn pool (onNotify handler f cn)"
proof -
  let ?cb = "notify_callback handler (cn_client cn) b" and ?m = "ack_meta (FrameID (f_meta f)) (StreamID (f_meta f))"
  from assms(1) obtain pf pool where p: "acquireFrame (cn_pool cn) = Ret (pf, pool)" "pool_frame pf"
    "\<forall>f \<in> set pool. pool_frame f" by (auto simp: pool_ok_def elim: acquireFrame_ok)
  let ?A = "Ack_writeTo ?cb (FrameID (f_meta f)) (StreamID (f_meta f)) pf (c_maxFrameSize (cn_client cn))
      (cn_h cn) (cn_rw cn)"
  obtain aw f' where aw: "aw_ok aw" "wb_off aw = 0" "pool_frame f'"
    "ack_outcome (?cb (cn_h cn) aw) ?m (c_maxFrameSize (cn_client cn)) f' (cn_rw cn) ?A"
    using Ack_writeTo_cases [OF p(2) assms(3)] by blast
  have N: "onNotify handler f cn =
      (case ?A of (h, None) \<Rightarrow> (cn\<lparr>cn_h := h, cn_pool := pool\<rparr>, Panic)
        | (h, Some (pf, w, n, err)) \<Rightarrow> (cn\<lparr>cn_h := h, cn_pool := pf # pool, cn_rw := w\<rparr>, Ret err))"
    by (simp add: onNotify_def assms(2) p(1) AcquireMessageScanner_pooled notify_callback_def)
  define pool' where "pool' = (if snd (?cb (cn_h cn) aw) = None then pool else f' # pool)"
  have "\<forall>f \<in> set pool'. pool_frame f" using p(3) aw(3) by (simp add: pool'_def)
  moreover have "notify_outcome (?cb (cn_h cn) aw) ?m cn pool' (onNotify handler f cn)"
  proof -
    obtain h' r where r: "?cb (cn_h cn) aw = (h', r)" by (cases "?cb (cn_h cn) aw")
    show ?thesis
    proof (cases r)
      case (Some x)
      obtain aw' err where x: "x = (aw', err)" by (cases x)
      show ?thesis
        using aw(4) r Some x
        by (cases err; cases "unat (c_maxFrameSize (cn_client cn)) < length (pool_header frameTypeIDAck ?m) + wb_off aw'")
          (auto simp: N notify_outcome_def ack_outcome_def pool'_def Let_def, blast)
    qed (use aw(4) r in \<open>simp add: N notify_outcome_def ack_outcome_def pool'_def\<close>)
  qed
  ultimately show ?thesis using aw(1,2) by blast
qed

text \<open>
  The contract of a handler: its writer stays consistent. It has no other way to change it than
  the setters, which keep it so (\<open>action_write_ok\<close>).
\<close>

definition handler_ok :: "'h handler \<Rightarrow> bool" where
  "handler_ok handler \<longleftrightarrow>
     (\<forall>h ctx aw m h' aw' m'. aw_ok aw \<longrightarrow> handler h ctx aw m = (h', Ret (aw', m')) \<longrightarrow> aw_ok aw')"

lemma notify_loop_ok:
  assumes "handler_ok handler" and "aw_ok w"
    and "notify_loop handler ctx s m h w = (h', Ret (w', err))"
  shows "aw_ok w'"
proof -
  have "aw_ok w1" if "handler h ctx w m1 = (h1, Ret (w1, m2))" for m1 h1 w1 m2
    using assms(1,2) that unfolding handler_ok_def by blast
  with assms(2,3) show ?thesis
    by (subst (asm) notify_loop_once) (auto split: option.splits prod.splits if_splits)
qed

lemma notify_callback_ok: "handler_ok handler \<Longrightarrow> callback_ok (notify_callback handler c b)"
  unfolding callback_ok_def notify_callback_def
  by (intro allI impI, rule notify_loop_ok) simp_all

text \<open>The message the handler sees for the first message of a frame: its scanner is on the rest
  of the frame.\<close>

definition delivered :: "msg \<Rightarrow> byte list \<Rightarrow> byte list \<Rightarrow> message" where
  "delivered m t sp =
     \<lparr>m_KV = Some (NewKVScanner (Slice t sp) (uint (of_nat (length (snd m)) :: byte))), m_name = fst m,
      m_kvEntryCount = of_nat (length (snd m))\<rparr>"

lemma notify_callback_first:
  assumes "len_ok (fst m)"
  shows "notify_callback handler c (Slice (msg_head m @ t) sp) h w =
    (case handler h (c_ctx c) w (delivered m t sp) of
       (h, None) \<Rightarrow> (h, Ret (w, Some (ErrFormat ''spop: panic'')))
     | (h, Some (w, m)) \<Rightarrow>
         (case m_KV m of
            None \<Rightarrow> (h, Panic)
          | Some kv \<Rightarrow>
              (case Discard kv of
                 None \<Rightarrow> (h, Panic)
               | Some (kv, Some e) \<Rightarrow> (h, Ret (w, Some e))
               | Some (kv, None) \<Rightarrow> (h, Ret (w, None)))))"
proof -
  have "MessageScanner_Next (NewMessageScanner (Slice (msg_head m @ t) sp)) NewMessage =
      Ret (NewMessageScanner (Slice t sp), delivered m t sp, True)"
    using MessageScanner_Next_head [OF assms, of NewMessage None t sp]
    by (simp add: NewMessageScanner_def NewMessage_def delivered_def)
  then show ?thesis
    unfolding notify_callback_def
    by (subst notify_loop_once)
      (simp add: MessageScanner_Error_def NewMessageScanner_def split: option.split prod.split)
qed

text \<open>What a NOTIFY leads to, for the property below and for concrete handlers.\<close>

lemma notify_answers:
  assumes "pool_ok cn" and "handler_ok handler" and "wf_msg m"
    and "ReadBytes (f_buf f) = Ret (Slice (msg_enc m) sp)"
    and "\<forall>aw. aw_ok aw \<longrightarrow> wb_off aw = 0 \<longrightarrow> (\<exists>aw' m' kv kv'.
      handler (cn_h cn) (c_ctx (cn_client cn)) aw (delivered m (concat (map kv_enc (snd m))) sp) =
        (h', Ret (aw', m')) \<and>
      write_all action_write as aw = Ret (aw', None) \<and> m_KV m' = Some kv \<and> Discard kv = Ret (kv', None))"
    and "\<forall>a \<in> set as. wf_action a" and "2 * length (concat (map action_enc as)) \<le> max_alloc"
  shows "\<exists>cn' err. onNotify handler f cn = (cn', Ret err) \<and> cn_h cn' = h' \<and> pool_ok cn' \<and>
    cn_client cn' = cn_client cn \<and>
    (let a = ack_meta (FrameID (f_meta f)) (StreamID (f_meta f)); p = concat (map action_enc as) in
     if length (pool_header frameTypeIDAck a) + length p \<le> unat (c_maxFrameSize (cn_client cn))
     then \<exists>n. sent (cn_rw cn) (wire_frame frameTypeIDAck a p) (cn_rw cn') n err
     else err \<noteq> None \<and> cn_rw cn' = cn_rw cn)"
proof -
  let ?b = "Slice (msg_enc m) sp" and ?a = "ack_meta (FrameID (f_meta f)) (StreamID (f_meta f))"
  from onNotify_cases [OF assms(1,4) notify_callback_ok [OF assms(2)]] obtain aw pool where
    aw: "aw_ok aw" "wb_off aw = 0" "\<forall>f \<in> set pool. pool_frame f"
    and out: "notify_outcome (notify_callback handler (cn_client cn) ?b (cn_h cn) aw) ?a cn pool
      (onNotify handler f cn)" by blast
  from assms(5) aw(1,2) obtain aw' m' kv kv' where h:
    "handler (cn_h cn) (c_ctx (cn_client cn)) aw (delivered m (concat (map kv_enc (snd m))) sp) =
      (h', Ret (aw', m'))"
    "write_all action_write as aw = Ret (aw', None)" "m_KV m' = Some kv" "Discard kv = Ret (kv', None)" by blast
  have "len_ok (fst m)" using assms(3) by (simp add: wf_msg_def)
  then have "notify_callback handler (cn_client cn) ?b (cn_h cn) aw = (h', Ret (aw', None))"
    unfolding msg_enc_def by (subst notify_callback_first) (simp_all add: h)
  with out have out: "notify_outcome (h', Ret (aw', None)) ?a cn pool (onNotify handler f cn)" by simp
  from aw(2) assms(7) have "aw_room aw (length (concat (map action_enc as)))" by (simp add: aw_room_def)
  from actw.write_all_ok [OF assms(6) _ this] h(2) aw(2) aw_ok_inv [OF aw(1)]
  have w: "kw_inv aw'" "wb_out aw' = concat (map action_enc as)" by (auto simp: wb_out_def)
  from kw_out_length [OF w(1)] w(2) have "wb_off aw' = length (concat (map action_enc as))" by simp
  with out w(2) aw(3) show ?thesis
    by (auto simp: notify_outcome_def Let_def pool_ok_def split: if_splits)
qed

text \<open>C8: a NOTIFY is answered: the handler gets the message with its name and the scanner over
  its arguments, and the actions it wrote go out in one ACK with the identifiers of the NOTIFY
  if that fits the negotiated size; otherwise an error is returned and nothing goes out.\<close>

theorem notify_answered:
  assumes "pool_ok cn" and "handler_ok handler" and "wf_msg m"
    and "ReadBytes (f_buf f) = Ret (Slice (msg_enc m) sp)"
    and "\<forall>aw. aw_ok aw \<longrightarrow> wb_off aw = 0 \<longrightarrow> (\<exists>aw' m' kv kv'.
      handler (cn_h cn) (c_ctx (cn_client cn)) aw (delivered m (concat (map kv_enc (snd m))) sp) =
        (h', Ret (aw', m')) \<and>
      write_all action_write as aw = Ret (aw', None) \<and> m_KV m' = Some kv \<and> Discard kv = Ret (kv', None))"
    and "\<forall>a \<in> set as. wf_action a" and "2 * length (concat (map action_enc as)) \<le> max_alloc"
  shows "\<exists>cn' err. onNotify handler f cn = (cn', Ret err) \<and> cn_h cn' = h' \<and> pool_ok cn' \<and>
    cn_client cn' = cn_client cn \<and>
    (let a = ack_meta (FrameID (f_meta f)) (StreamID (f_meta f)); p = concat (map action_enc as) in
     if length (pool_header frameTypeIDAck a) + length p \<le> unat (c_maxFrameSize (cn_client cn))
     then \<exists>n. sent (cn_rw cn) (wire_frame frameTypeIDAck a p) (cn_rw cn') n err
     else err \<noteq> None \<and> cn_rw cn' = cn_rw cn)"
  by (rule notify_answers [OF assms])

text \<open>A handler that answers every message with the same actions, for concrete inputs.\<close>

definition answering :: "action list \<Rightarrow> nat handler" where
  "answering as h ctx aw m =
     (h + 1, if wb_off aw = 0 then map_option (\<lambda>(aw, err). (aw, m)) (write_all action_write as aw) else Panic)"

lemma answering_ok: "handler_ok (answering as)"
  by (auto simp: handler_ok_def answering_def dest: write_actions_ok split: if_splits)

lemma notify_answered_witness:
  "\<exists>cn' n. onNotify (answering [SetVar VarScopeTransaction [120] (VBool True)])
      (payload_frame (msg_enc ([109], [])))
      ((fresh_conn 0)\<lparr>cn_client := (newProtocolClient None)\<lparr>c_maxFrameSize := 256\<rparr>\<rparr>) = (cn', Ret None) \<and>
    cn_h cn' = 1 \<and> sk_out (cn_rw cn') = wire_frame frameTypeIDAck (ack_meta 0 0) [1, 3, 2, 1, 120, 17]"
proof -
  let ?as = "[SetVar VarScopeTransaction [120] (VBool True)]"
  let ?cn = "(fresh_conn (0::nat))\<lparr>cn_client := (newProtocolClient None)\<lparr>c_maxFrameSize := 256\<rparr>\<rparr>"
  let ?m = "([109], []) :: msg"
  have e: "concat (map action_enc ?as) = [1, 3, 2, 1, 120, 17]"
    by (simp add: wire_defs bytes_enc_def varint_enc_def)
  have as: "\<forall>a \<in> set ?as. wf_action a" by (simp add: len_ok_def)
  have m: "2 * length (concat (map action_enc ?as)) \<le> max_alloc" unfolding e by (simp add: max_alloc_def)
  have w: "\<exists>aw'. write_all action_write ?as aw = Ret (aw', None)" if "aw_ok aw" "wb_off aw = 0" for aw
    using actw.write_all_ok [OF as aw_ok_inv [OF that(1), THEN conjunct1]] m that(2) by (auto simp: aw_room_def)
  have h: "\<forall>aw. aw_ok aw \<longrightarrow> wb_off aw = 0 \<longrightarrow> (\<exists>aw' m' kv kv'.
      answering ?as (cn_h ?cn) (c_ctx (cn_client ?cn)) aw (delivered ?m (concat (map kv_enc (snd ?m))) []) =
        (1, Ret (aw', m')) \<and>
      write_all action_write ?as aw = Ret (aw', None) \<and> m_KV m' = Some kv \<and> Discard kv = Ret (kv', None))"
    using w by (fastforce simp: answering_def delivered_def Discard_def RemainingBuf_def NewKVScanner_def)
  have p: "pool_ok ?cn" "wf_msg ?m" "ReadBytes (f_buf (payload_frame (msg_enc ?m))) = Ret (Slice (msg_enc ?m) [])"
    by (simp_all add: pool_ok_def fresh_conn_def wf_msg_def len_ok_def payload_frame_ReadBytes)
  have fit: "length (pool_header frameTypeIDAck (ack_meta 0 0)) + 6 \<le> unat (256 :: u32)"
    using length_pool_header [of frameTypeIDAck "ack_meta 0 0"] by simp
  have sel: "f_meta (payload_frame x) = no_meta" "cn_rw ?cn = open_sink []"
    "c_maxFrameSize (cn_client ?cn) = 256" for x
    by (simp_all add: payload_frame_def fresh_conn_def)
  from notify_answered [OF p(1) answering_ok p(2,3) h as m, unfolded e Let_def sel] fit
  show ?thesis by (fastforce simp: no_meta_def sent_def open_sink_def)
qed

text \<open>A panic of the handler is contained: the frame is answered with an error to the
  worker, nothing goes out, and the connection keeps its client.\<close>

theorem notify_handler_panic:
  assumes "pool_ok cn" and "handler_ok handler" and "len_ok (fst m)"
    and "ReadBytes (f_buf f) = Ret (Slice (msg_head m @ t) sp)"
    and "\<forall>aw. handler (cn_h cn) (c_ctx (cn_client cn)) aw (delivered m t sp) = (h', Panic)"
  shows "\<exists>pool. onNotify handler f cn =
    (cn\<lparr>cn_h := h', cn_pool := pool\<rparr>, Ret (Some (ErrFormat ''spop: panic''))) \<and>
    (\<forall>f \<in> set pool. pool_frame f)"
proof -
  from onNotify_cases [OF assms(1,4) notify_callback_ok [OF assms(2)]] obtain aw pool where
    "\<forall>f \<in> set pool. pool_frame f"
    "notify_outcome (notify_callback handler (cn_client cn) (Slice (msg_head m @ t) sp) (cn_h cn) aw)
      (ack_meta (FrameID (f_meta f)) (StreamID (f_meta f))) cn pool (onNotify handler f cn)" by blast
  moreover have "notify_callback handler (cn_client cn) (Slice (msg_head m @ t) sp) (cn_h cn) aw =
      (h', Ret (aw, Some (ErrFormat ''spop: panic'')))"
    by (simp add: notify_callback_first [OF assms(3)] assms(5))
  ultimately show ?thesis by (auto simp: notify_outcome_def)
qed

lemma notify_handler_panic_witness:
  "\<exists>pool. onNotify (\<lambda>h ctx aw m. (h + 1, Panic)) (payload_frame (msg_head ([109], []) @ [])) (fresh_conn (0::nat)) =
    ((fresh_conn 1)\<lparr>cn_pool := pool\<rparr>, Ret (Some (ErrFormat ''spop: panic'')))"
proof -
  let ?h = "\<lambda>h ctx aw m. (h + 1 :: nat, Panic)" and ?m = "([109], []) :: msg"
  have "handler_ok ?h" "len_ok (fst ?m)" by (simp_all add: handler_ok_def len_ok_def)
  from notify_handler_panic [OF fresh_conn_simps(3) this payload_frame_ReadBytes, where h' = 1 and t = "[]"]
  show ?thesis by (auto simp: fresh_conn_def)
qed

section \<open>DISCONNECT frames\<close>

lemma buf_Len_ReadBytes: "ReadBytes s = Ret b \<Longrightarrow> buf_Len s = int (slen b)"
  by (auto simp: ReadBytes_def buf_Len_def sbetween_def scap_def split: if_splits)

definition codes :: "kv list \<Rightarrow> int list" where
  "codes kvs = map (\<lambda>kv. sint (val_int (snd kv))) (filter (\<lambda>kv. fst kv = statusCodeKey) kvs)"

definition disconnect_err :: "int \<Rightarrow> gerr option" where
  "disconnect_err code =
     (if code \<in> {ErrorNone, ErrorIO, ErrorTimeout} then None
      else Some (ErrFormat (''disconnect frame with code '' @ show_int code @ '': '' @ errorCode_String code)))"

lemma disconnect_keys_differ: "statusCodeKey \<noteq> messageKey"
proof -
  have "length statusCodeKey = 11" "length messageKey = 7"
    by (simp_all add: statusCodeKey_def messageKey_def)
  then show ?thesis by auto
qed

lemma disconnect_loop:
  "\<forall>kv \<in> set kvs. fst kv \<in> {statusCodeKey, messageKey} \<Longrightarrow>
   for_kvs disconnect_entry kvs c = (last (c # codes kvs), None)"
proof (induction kvs arbitrary: c)
  case (Cons kv kvs)
  then show ?case
    using disconnect_keys_differ
    by (auto simp: disconnect_entry_def NameEquals_entry codes_def) (simp_all add: entry_of_def)
qed (simp add: codes_def)

lemma disconnect_loop_unknown:
  "\<exists>kv \<in> set kvs. fst kv \<notin> {statusCodeKey, messageKey} \<Longrightarrow>
   \<exists>c' e. for_kvs disconnect_entry kvs c = (c', Some e)"
  by (induction kvs arbitrary: c) (auto simp: disconnect_entry_def NameEquals_entry)

text \<open>C29: a DISCONNECT ends the context: with \<open>context.Canceled\<close> for the codes of an orderly
  close (none, I/O, timeout), and with an error naming the code for every other; the last
  status code counts. An unknown key is an error and leaves the context alone.\<close>

theorem disconnect_handled:
  assumes "\<forall>kv \<in> set kvs. wf_kv kv" and "kvs \<noteq> []"
    and "ReadBytes (f_buf f) = Ret (Slice (concat (map kv_enc kvs)) sp)"
  shows "if \<forall>kv \<in> set kvs. fst kv \<in> {statusCodeKey, messageKey}
    then let err = disconnect_err (last (0 # codes kvs)) in
      onHAProxyDisconnect f cn = (cn\<lparr>cn_client := ctxCancel err (cn_client cn)\<rparr>, Ret err)
    else \<exists>e. onHAProxyDisconnect f cn = (cn, Ret (Some e))"
proof -
  have "concat (map kv_enc kvs) \<noteq> []"
    using assms(2) by (cases kvs) (auto simp: kv_enc_def bytes_enc_def varint_enc_def)
  then have len: "buf_Len (f_buf f) \<noteq> 0" using buf_Len_ReadBytes [OF assms(3)] by simp
  obtain k' where k: "ForNextP disconnect_entry (NewKVScanner (Slice (concat (map kv_enc kvs)) sp) (-1))
      NewKVEntry 0 = (case for_kvs disconnect_entry kvs 0 of (s', r) \<Rightarrow> (s', Ret (k', r)))"
    using ForNextP_enc [OF assms(1), of disconnect_entry sp "-1" NewKVEntry 0] by blast
  show ?thesis
  proof (cases "\<forall>kv \<in> set kvs. fst kv \<in> {statusCodeKey, messageKey}")
    case True
    with disconnect_loop [OF True, of 0] show ?thesis
      by (simp add: onHAProxyDisconnect_def len assms(3) k disconnect_err_def Let_def)
  next
    case False
    then obtain c' e where "for_kvs disconnect_entry kvs 0 = (c', Some e)"
      using disconnect_loop_unknown [of kvs 0] by blast
    then show ?thesis
      unfolding if_not_P [OF False] by (simp add: onHAProxyDisconnect_def len assms(3) k)
  qed
qed

lemma disconnect_handled_witness:
  "onHAProxyDisconnect (payload_frame (kv_enc (statusCodeKey, VUInt32 2))) (fresh_conn ()) =
    ((fresh_conn ())\<lparr>cn_client := ctxCancel None (newProtocolClient None)\<rparr>, Ret None)"
proof -
  let ?kvs = "[(statusCodeKey, VUInt32 2)]"
  have "codes ?kvs = [2]" by (simp add: codes_def)
  moreover have "\<forall>kv \<in> set ?kvs. wf_kv kv" by (simp add: wf_kv_def len_ok_def statusCodeKey_def)
  ultimately show ?thesis
    using disconnect_handled [of ?kvs "payload_frame (kv_enc (statusCodeKey, VUInt32 2))" "[]" "fresh_conn ()"]
    by (simp add: payload_frame_ReadBytes disconnect_err_def wire_defs Let_def)
qed

text \<open>A DISCONNECT whose content cannot be decoded passes as an orderly one: no error is
  reported and the context is cancelled as for a normal close.\<close>

lemma disconnect_malformed_accepted:
  assumes "ReadBytes (f_buf f) = Ret b" and "0 < slen b" and "Varint b = Ret (v, n, Some e)"
  shows "onHAProxyDisconnect f cn = (cn\<lparr>cn_client := ctxCancel None (cn_client cn)\<rparr>, Ret None)"
proof -
  have "buf_Len (f_buf f) \<noteq> 0" using buf_Len_ReadBytes [OF assms(1)] assms(2) by simp
  moreover have "ForNextP disconnect_entry (NewKVScanner b (-1)) NewKVEntry 0 =
      (0, Ret (\<lparr>ks_lastErr = Some e, ks_buf = b, ks_left = - 2\<rparr>, None))"
    using assms(2,3) by (subst ForNextP.simps) (simp add: Next_def NewKVScanner_def)
  ultimately show ?thesis
    by (simp add: onHAProxyDisconnect_def assms(1) wire_defs)
qed

lemma disconnect_malformed_accepted_witness:
  "onHAProxyDisconnect (payload_frame [255]) (fresh_conn ()) =
    ((fresh_conn ())\<lparr>cn_client := ctxCancel None (newProtocolClient None)\<rparr>, Ret None)"
proof -
  have "Varint (Slice [255] []) = Ret (0, 0, Some ErrUnterminatedSequence)"
    by code_simp
  from disconnect_malformed_accepted [OF payload_frame_ReadBytes _ this, of "fresh_conn ()"]
  show ?thesis by simp
qed

end
