(* ===== verification/SpopServe.thy ===== *)
theory SpopServe
  imports SpopProtocol
begin

text \<open>
  The life of a connection: the loop of \<open>Serve\<close> that reads frames (spop/protocol.go), the workers
  that handle the queued ones (spop/scheduler.go), the cancellation of the base context, and the
  connection's goroutine that closes the client when \<open>Serve\<close> is over (spop/agent.go).
\<close>

section \<open>One iteration of Serve\<close>

text \<open>\<open>Serve\<close> runs, has returned, was ended by a panic that \<open>wrapPanic\<close> recovered, or its
  goroutine has closed the client and the connection.\<close>

datatype serve = Serving | Returned "gerr option" | Crashed | Closed

record 'h sys =
  sy_conn :: "'h conn"
  sy_in :: reader
  sy_queue :: "frame list"
  sy_serve :: serve

definition serve_limit :: "client \<Rightarrow> u32" where
  "serve_limit c = (if c_gotHello c then c_maxFrameSize c else of_nat maxFrameSize)"

text \<open>\<open>context.Cause\<close> once the context is done.\<close>

definition read_failed :: "gerr \<Rightarrow> client \<Rightarrow> serve" where
  "read_failed err c =
     (case c_ctx c of
        Some cause \<Rightarrow> Returned (Some cause)
      | None \<Rightarrow> if err_Is err ErrEOF \<or> err_Is err ErrConnReset then Returned None else Returned (Some err))"

definition Serve_iter :: "'h handler \<Rightarrow> 'h sys \<Rightarrow> 'h sys" where
  "Serve_iter handler s =
     (let cn = sy_conn s; c = cn_client cn in
      case do {
             (f, pool) \<leftarrow> acquireFrame (cn_pool cn);
             (f, r, n, err) \<leftarrow> readFrom f (sy_in s) (serve_limit c);
             Ret (f, pool, r, err)
           } of
        None \<Rightarrow> s\<lparr>sy_serve := Crashed\<rparr>
      | Some (f, pool, r, Some err) \<Rightarrow>
          s\<lparr>sy_conn := cn\<lparr>cn_pool := releaseFrame f # pool\<rparr>, sy_in := r, sy_serve := read_failed err c\<rparr>
      | Some (f, pool, r, None) \<Rightarrow>
          let cn = cn\<lparr>cn_pool := pool\<rparr>; s = s\<lparr>sy_in := r\<rparr> in
          if \<not> c_gotHello c then
            if f_frameType f \<noteq> frameTypeIDHaproxyHello then
              s\<lparr>sy_conn := cn\<lparr>cn_pool := releaseFrame f # pool\<rparr>,
                sy_serve := Returned (Some (ErrFormatNat ''first frame must be HAPROXY-HELLO, got type''
                  (unat (f_frameType f))))\<rparr>
            else
              (case frameHandler handler f cn of
                 (cn, None) \<Rightarrow> s\<lparr>sy_conn := cn, sy_serve := Crashed\<rparr>
               | (cn, Some (Some e)) \<Rightarrow> s\<lparr>sy_conn := cn, sy_serve := Returned (Some e)\<rparr>
               | (cn, Some None) \<Rightarrow>
                   s\<lparr>sy_conn := cn,
                     sy_serve := (case c_ctx (cn_client cn) of None \<Rightarrow> Serving | Some cause \<Rightarrow> Returned (Some cause))\<rparr>)
          else s\<lparr>sy_conn := cn, sy_queue := sy_queue s @ [f]\<rparr>)"

section \<open>The steps of a connection\<close>

text \<open>
  Workers take frames in the order of the queue (theory \<open>Scheduler\<close>) but run concurrently, so
  any queued frame may be the next whose handler runs. Here a worker's handling of a frame is one
  step, with everything it writes; theory \<open>SpopWrites\<close> takes the calls of \<open>Write\<close> apart. The pool of
  frames is shared by the whole process and emptied by the garbage collector at will (rule \<open>pool\<close>).
  The last rule is the end of the connection's goroutine: \<open>p.Close()\<close> and \<open>nc.Close()\<close>.
\<close>

definition close_conn :: "'h conn \<Rightarrow> 'h conn" where
  "close_conn cn = cn\<lparr>cn_rw := close_sink (cn_rw cn)\<rparr>"

inductive sstep :: "'h handler \<Rightarrow> 'h sys \<Rightarrow> 'h sys \<Rightarrow> bool" for handler where
  serve: "sy_serve s = Serving \<Longrightarrow> sstep handler s (Serve_iter handler s)"
| work: "sy_queue s = fs @ f # gs \<Longrightarrow> wrapPanic (frameHandler handler f (sy_conn s)) = (cn, err) \<Longrightarrow>
    sstep handler s (s\<lparr>sy_conn := cn, sy_queue := fs @ gs\<rparr>)"
| base_cancel: "sstep handler s
    (s\<lparr>sy_conn := (sy_conn s)\<lparr>cn_client := ctxCancel cause (cn_client (sy_conn s))\<rparr>\<rparr>)"
| pool: "\<forall>f \<in> set pool. pool_frame f \<Longrightarrow>
    sstep handler s (s\<lparr>sy_conn := (sy_conn s)\<lparr>cn_pool := pool\<rparr>\<rparr>)"
| close: "sy_serve s = Returned err \<or> sy_serve s = Crashed \<Longrightarrow> Close (sy_conn s) = Ret (cn, e) \<Longrightarrow>
    sstep handler s (s\<lparr>sy_conn := close_conn cn, sy_serve := Closed\<rparr>)"

inductive reachable :: "'h handler \<Rightarrow> 'h sys \<Rightarrow> 'h sys \<Rightarrow> bool" for handler s0 where
  init: "reachable handler s0 s0"
| step: "reachable handler s0 s \<Longrightarrow> sstep handler s s' \<Longrightarrow> reachable handler s0 s'"

text \<open>A new connection: nothing sent or queued, and a pool of released frames.\<close>

definition sys_start :: "'h sys \<Rightarrow> bool" where
  "sys_start s \<longleftrightarrow>
     (\<exists>ctx. cn_client (sy_conn s) = newProtocolClient ctx) \<and> pool_ok (sy_conn s) \<and>
     sk_out (cn_rw (sy_conn s)) = [] \<and> sy_queue s = [] \<and> sy_serve s = Serving"

section \<open>What has been sent\<close>

type_synonym sent_frame = "byte \<times> frameMetadata \<times> byte list"

definition wire_of :: "sent_frame \<Rightarrow> byte list" where
  "wire_of fr = (case fr of (t, m, p) \<Rightarrow> wire_frame t m p)"

definition hello_frame :: "u32 \<Rightarrow> sent_frame" where
  "hello_frame n = (frameTypeIDAgentHello, fin_meta,
     concat (map kv_enc (hello_kvs \<lparr>ah_Version = version, ah_Capabilities = [], ah_MaxFrameSize = n\<rparr>)))"

definition disconnect_frame :: sent_frame where
  "disconnect_frame = (frameTypeIDAgentDisconnect, fin_meta, concat (map kv_enc (disconnect_kvs ErrorUnknown)))"

definition ack_of_size :: "u32 \<Rightarrow> sent_frame \<Rightarrow> bool" where
  "ack_of_size n fr = (case fr of (t, m, p) \<Rightarrow>
     t = frameTypeIDAck \<and> Flags m = frameFlagFin \<and> length (pool_header t m) + length p \<le> unat n)"

definition agent_frame :: "u32 \<Rightarrow> sent_frame \<Rightarrow> bool" where
  "agent_frame n fr \<longleftrightarrow> fr = hello_frame n \<or> fr = disconnect_frame \<or> ack_of_size n fr"

text \<open>
  The output is a sequence of whole frames; only after a write error it may end in a part of
  one, and then nothing can follow.
\<close>

definition wire_log :: "u32 \<Rightarrow> sink \<Rightarrow> sent_frame list \<Rightarrow> bool" where
  "wire_log n w frs \<longleftrightarrow>
     (\<forall>fr \<in> set frs. agent_frame n fr) \<and>
     (\<exists>part. sk_out w = concat (map wire_of frs) @ part \<and>
        (part \<noteq> [] \<longrightarrow> sk_room w = Some 0 \<and> (\<exists>fr k. agent_frame n fr \<and> part = take k (wire_of fr))))"

lemma wire_of_nonempty [simp]: "wire_of fr \<noteq> []"
  by (cases fr) (auto simp: wire_of_def wire_frame_def Let_def be32_def)

lemma wire_log_sent:
  assumes "wire_log n w frs" and "sent w (wire_of fr) w' k err" and "agent_frame n fr"
  shows "wire_log n w' (if err = None then frs @ [fr] else frs)"
proof -
  from assms(1) obtain part where p: "\<forall>fr \<in> set frs. agent_frame n fr"
    "sk_out w = concat (map wire_of frs) @ part"
    "part \<noteq> [] \<longrightarrow> sk_room w = Some 0 \<and> (\<exists>fr k. agent_frame n fr \<and> part = take k (wire_of fr))"
    using that unfolding wire_log_def by blast
  from assms(2) have s: "sk_out w' = sk_out w @ take k (wire_of fr)" "err = None \<longrightarrow> k = length (wire_of fr)"
    "err \<noteq> None \<longrightarrow> sk_room w' = Some 0 \<or> k = 0" "sk_room w = Some 0 \<longrightarrow> k = 0 \<and> sk_room w' = Some 0"
    by (auto simp: sent_def)
  show ?thesis
  proof (cases "part = []")
    case True
    with p s assms(3) show ?thesis
      by (cases err) (auto simp: wire_log_def simp del: split_paired_Ex
          intro!: exI [of _ "[]"] exI [of _ "take k (wire_of fr)"])
  next
    case False
    with p(3) s have "k = 0" "sk_room w' = Some 0" by auto
    with s(2) have "err \<noteq> None" by auto
    with p s(1) \<open>k = 0\<close> \<open>sk_room w' = Some 0\<close> show ?thesis
      by (auto simp: wire_log_def simp del: split_paired_Ex)
  qed
qed

section \<open>What the handlers keep\<close>

lemma hello_loop_keeps:
  assumes "ForNextP hello_entry k e (c, d) = ((c', d'), res)"
  shows "c_gotHello c' = c_gotHello c \<and>
    (c_maxFrameSize c = 0 \<or> size_ok (c_maxFrameSize c) \<longrightarrow> res = Some (k', None) \<longrightarrow>
       c_maxFrameSize c' = 0 \<or> size_ok (c_maxFrameSize c'))"
  using assms
proof (induction hello_entry k e "(c, d)" arbitrary: c d rule: ForNextP.induct)
  case (1 k e c d)
  show ?case
  proof (cases "Next k e")
    case None
    with "1.prems" show ?thesis by (simp add: ForNextP.simps [of _ k])
  next
    case (Some r)
    obtain k1 e1 cont where r: "r = (k1, e1, cont)" by (cases r)
    show ?thesis
    proof (cases cont)
      case False
      with "1.prems" Some r show ?thesis by (auto simp: ForNextP.simps [of _ k])
    next
      case True
      obtain c1 d1 res1 where b: "hello_entry e1 (c, d) = ((c1, d1), res1)"
        by (metis prod.exhaust)
      then have c1: "c_gotHello c1 = c_gotHello c"
        "res1 = None \<Longrightarrow> c_maxFrameSize c1 = c_maxFrameSize c \<or> size_ok (c_maxFrameSize c1)"
        by (auto simp: hello_entry_def Let_def size_ok_def not_less split: if_splits)
      show ?thesis
      proof (cases res1)
        case None
        with "1.prems" Some r True b have "ForNextP hello_entry k1 e1 (c1, d1) = ((c', d'), res)"
          by (simp add: ForNextP.simps [of _ k])
        from "1.hyps" [OF Some r [symmetric] refl _ b [symmetric] None this] True c1 None show ?thesis by auto
      next
        case (Some e2)
        with "1.prems" \<open>Next k e = Some r\<close> r True b c1 show ?thesis
          by (auto simp: ForNextP.simps [of _ k])
      qed
    qed
  qed
qed

text \<open>
  \<open>conn_step cn cn'\<close>: what every handler keeps once the hello is through. It may send one frame.
\<close>

definition may_send :: "u32 \<Rightarrow> sink \<Rightarrow> sink \<Rightarrow> bool" where
  "may_send n w w' \<longleftrightarrow> w' = w \<or> (\<exists>fr k err. agent_frame n fr \<and> sent w (wire_of fr) w' k err)"

definition conn_step :: "'h conn \<Rightarrow> 'h conn \<Rightarrow> bool" where
  "conn_step cn cn' \<longleftrightarrow>
     pool_ok cn' \<and> c_gotHello (cn_client cn') = c_gotHello (cn_client cn) \<and>
     c_maxFrameSize (cn_client cn') = c_maxFrameSize (cn_client cn) \<and>
     may_send (c_maxFrameSize (cn_client cn)) (cn_rw cn) (cn_rw cn')"

lemma wire_log_may_send:
  assumes "wire_log n w frs" and "may_send n w w'"
  shows "\<exists>more. wire_log n w' (frs @ more)"
proof (cases "w' = w")
  case True
  with assms(1) show ?thesis by (intro exI [of _ "[]"]) simp
next
  case False
  with assms(2) obtain fr k err where "agent_frame n fr" "sent w (wire_of fr) w' k err"
    by (auto simp: may_send_def)
  with wire_log_sent [OF assms(1) this(2,1)]
  have "wire_log n w' (frs @ (if err = None then [fr] else []))" by (cases err) simp_all
  then show ?thesis by blast
qed

lemma hello_bytes_frame: "hello_bytes c = wire_of (hello_frame (c_maxFrameSize c))"
  by (simp add: hello_bytes_def wire_of_def hello_frame_def agent_hello_def)

lemma onNotify_step:
  assumes "handler_ok handler" and "pool_ok cn"
  shows "conn_step cn (fst (onNotify handler f cn))"
proof (cases "ReadBytes (f_buf f)")
  case None
  with assms(2) show ?thesis by (simp add: onNotify_def conn_step_def may_send_def)
next
  case (Some b)
  let ?m = "ack_meta (FrameID (f_meta f)) (StreamID (f_meta f))"
  from onNotify_cases [OF assms(2) Some notify_callback_ok [OF assms(1)]] obtain aw pool where
    aw: "aw_ok aw" "wb_off aw = 0" "\<forall>f \<in> set pool. pool_frame f"
    and out: "notify_outcome (notify_callback handler (cn_client cn) b (cn_h cn) aw) ?m cn pool
      (onNotify handler f cn)" by blast
  obtain h' r where cb: "notify_callback handler (cn_client cn) b (cn_h cn) aw = (h', r)"
    by (metis prod.exhaust)
  have len: "length (wb_out aw') = wb_off aw'" if "r = Ret (aw', e)" for aw' e
    using notify_callback_ok [OF assms(1), of "cn_client cn" b] cb aw(1,2) that kw_out_length aw_ok_inv
    unfolding callback_ok_def by blast
  have ack: "agent_frame (c_maxFrameSize (cn_client cn)) (frameTypeIDAck, ?m, wb_out aw')"
    if "r = Ret (aw', e)" "\<not> unat (c_maxFrameSize (cn_client cn)) < length (pool_header frameTypeIDAck ?m) + wb_off aw'"
    for aw' e using that len [OF that(1)] by (simp add: agent_frame_def ack_of_size_def ack_meta_def)
  show ?thesis
  proof (cases r)
    case None
    with out cb aw(3) show ?thesis
      by (simp add: notify_outcome_def conn_step_def pool_ok_def may_send_def)
  next
    case (Some x)
    obtain aw' e where x: "x = (aw', e)" by (cases x)
    with out cb aw(3) Some ack [of aw' e] show ?thesis
      by (cases e)
        (auto simp: notify_outcome_def conn_step_def pool_ok_def may_send_def Let_def wire_of_def
          simp del: split_paired_Ex split: if_splits intro!: exI [of _ "(frameTypeIDAck, ?m, wb_out aw')"], blast)
  qed
qed

lemma onHAProxyDisconnect_step: "pool_ok cn \<Longrightarrow> conn_step cn (fst (onHAProxyDisconnect f cn))"
  by (auto simp: onHAProxyDisconnect_def conn_step_def pool_ok_def may_send_def Let_def
      split: option.splits prod.splits)

lemma frameHandler_step:
  assumes "handler_ok handler" and "pool_ok cn" and "frame_inv f" and "c_gotHello (cn_client cn)"
  shows "conn_step cn (fst (frameHandler handler f cn))"
proof -
  have rel: "conn_step cn (cn'\<lparr>cn_pool := releaseFrame f # cn_pool cn'\<rparr>)" if "conn_step cn cn'" for cn'
    using that pool_frame_release [OF assms(3)] by (auto simp: conn_step_def pool_ok_def)
  have same: "conn_step cn cn" using assms(2) by (simp add: conn_step_def may_send_def)
  have "fst (onHAProxyHello f cn) = cn" using assms(4) by (simp add: onHAProxyHello_def)
  with same onNotify_step [OF assms(1,2), of f] onHAProxyDisconnect_step [OF assms(2), of f]
  have "conn_step cn (fst (if f_frameType f = frameTypeIDHaproxyHello then onHAProxyHello f cn
      else if f_frameType f = frameTypeIDNotify then onNotify handler f cn
      else if f_frameType f = frameTypeIDHaproxyDisconnect then onHAProxyDisconnect f cn
      else (cn, Ret (Some (ErrFormatNat ''unknown frame type'' (unat (f_frameType f)))))))" by simp
  from rel [OF this] show ?thesis by (simp add: frameHandler_def case_prod_beta Let_def)
qed

text \<open>The first HELLO: an accepted frame size and the reply, or an error and nothing sent.\<close>

lemma onHAProxyHello_first:
  assumes "pool_ok cn" and "\<not> c_gotHello (cn_client cn)" and "c_maxFrameSize (cn_client cn) = 0"
    and "onHAProxyHello f cn = (cn', out)"
  shows "pool_ok cn' \<and> c_gotHello (cn_client cn') \<and>
    (cn_rw cn' = cn_rw cn \<and> out \<noteq> Ret None \<or>
     size_ok (c_maxFrameSize (cn_client cn')) \<and>
     (\<exists>k err. out = Ret err \<and>
        sent (cn_rw cn) (wire_of (hello_frame (c_maxFrameSize (cn_client cn')))) (cn_rw cn') k err))"
proof (cases "ReadBytes (f_buf f)")
  case None
  with assms show ?thesis by (auto simp: onHAProxyHello_def pool_ok_def)
next
  case (Some b)
  obtain c d res where F: "ForNextP hello_entry (AcquireKVScanner pooled_scanner b (-1)) NewKVEntry
      ((cn_client cn)\<lparr>c_gotHello := True\<rparr>, False) = ((c, d), res)" by (metis prod.exhaust)
  define cn1 where "cn1 = cn\<lparr>cn_client := c\<rparr>"
  obtain cn2 out2 where o: "(case res of None \<Rightarrow> (cn1, Panic) | Some (s, Some e) \<Rightarrow> (cn1, Ret (Some e))
      | Some (s, None) \<Rightarrow> hello_reply s cn1) = (cn2, out2)" by (metis prod.exhaust)
  have res: "out = out2" "cn' = (if d then cn2\<lparr>cn_client := ctxCancel None (cn_client cn2)\<rparr> else cn2)"
    using assms(2,4) Some F o
    by (cases res; auto simp: onHAProxyHello_def cn1_def Let_def split: prod.splits option.splits)+
  have p1: "pool_ok cn1" "cn_rw cn1 = cn_rw cn" using assms(1) by (simp_all add: cn1_def pool_ok_def)
  have c: "c_gotHello c" "res = Some (k', None) \<Longrightarrow> c_maxFrameSize c = 0 \<or> size_ok (c_maxFrameSize c)" for k'
    using hello_loop_keeps [OF F, of k'] assms(3) by auto
  have "pool_ok cn2 \<and> cn_client cn2 = c \<and> (cn_rw cn2 = cn_rw cn \<and> out2 \<noteq> Ret None \<or>
     size_ok (c_maxFrameSize c) \<and>
     (\<exists>k err. out2 = Ret err \<and> sent (cn_rw cn) (wire_of (hello_frame (c_maxFrameSize c))) (cn_rw cn2) k err))"
  proof (cases "\<exists>k'. res = Some (k', None)")
    case True
    then obtain k' where k': "res = Some (k', None)" by blast
    with o have hr: "hello_reply k' cn1 = (cn2, out2)" by simp
    have "cn_client cn1 = c" by (simp add: cn1_def)
    with hello_reply_cases [OF p1(1), of k'] hr c(2) [OF k'] p1
    show ?thesis by (auto simp: hello_bytes_frame pool_ok_def split: if_splits)
  next
    case False
    with o p1 show ?thesis by (auto simp: cn1_def split: option.splits)
  qed
  with res c(1) show ?thesis by (auto simp: pool_ok_def)
qed

lemma frameHandler_first:
  assumes "pool_ok cn" and "\<not> c_gotHello (cn_client cn)" and "c_maxFrameSize (cn_client cn) = 0"
    and "frame_inv f" and "f_frameType f = frameTypeIDHaproxyHello"
    and "frameHandler handler f cn = (cn', out)"
  shows "pool_ok cn' \<and> c_gotHello (cn_client cn') \<and>
    (cn_rw cn' = cn_rw cn \<and> out \<noteq> Ret None \<or>
     size_ok (c_maxFrameSize (cn_client cn')) \<and>
     (\<exists>k err. out = Ret err \<and>
        sent (cn_rw cn) (wire_of (hello_frame (c_maxFrameSize (cn_client cn')))) (cn_rw cn') k err))"
proof -
  obtain cn1 out1 where h: "onHAProxyHello f cn = (cn1, out1)" by (metis prod.exhaust)
  with assms(5,6) have "cn' = cn1\<lparr>cn_pool := releaseFrame f # cn_pool cn1\<rparr>" "out = out1"
    by (simp_all add: frameHandler_def)
  with onHAProxyHello_first [OF assms(1-3) h] pool_frame_release [OF assms(4)]
  show ?thesis by (auto simp: pool_ok_def)
qed

lemma Close_step:
  assumes "pool_ok cn"
  shows "\<exists>cn' e. Close cn = Ret (cn', e) \<and> conn_step cn cn'"
proof (cases "ctx_Err (cn_client cn)")
  case None
  from assms obtain pf pool where p: "acquireFrame (cn_pool cn) = Ret (pf, pool)" "pool_frame pf"
    "\<forall>f \<in> set pool. pool_frame f" by (auto simp: pool_ok_def elim: acquireFrame_ok)
  have "- (2 ^ 63) \<le> ErrorUnknown" "ErrorUnknown < 2 ^ 63" by (simp_all add: wire_defs)
  from AgentDisconnect_WriteTo_kvs [OF p(2) disconnect_kvs_fit [OF this], of "cn_rw cn"] obtain f' w' n err
    where w: "AgentDisconnect_WriteTo ErrorUnknown pf (cn_rw cn) = Ret (f', w', n, err)" "pool_frame f'"
      "sent (cn_rw cn) (wire_of disconnect_frame) w' n err"
    by (auto simp: disconnect_frame_def wire_of_def)
  have "agent_frame (c_maxFrameSize (cn_client cn)) disconnect_frame" by (simp add: agent_frame_def)
  with w(3) have "may_send (c_maxFrameSize (cn_client cn)) (cn_rw cn) w'"
    unfolding may_send_def by blast
  with None p w(1,2) show ?thesis by (simp add: Close_def conn_step_def pool_ok_def)
qed (use assms in \<open>simp add: Close_def conn_step_def may_send_def\<close>)

section \<open>The invariant of a connection\<close>

text \<open>
  \<open>h0\<close> is the state of the user's handler at the start: before the hello is through, no
  handler has run.
\<close>

definition sys_inv :: "'h \<Rightarrow> 'h sys \<Rightarrow> bool" where
  "sys_inv h0 s \<longleftrightarrow>
     (let cn = sy_conn s; c = cn_client cn in
      pool_ok cn \<and> (\<forall>f \<in> set (sy_queue s). frame_inv f) \<and>
      (sy_queue s \<noteq> [] \<longrightarrow> c_gotHello c \<and> size_ok (c_maxFrameSize c)) \<and>
      (\<not> c_gotHello c \<longrightarrow> cn_h cn = h0 \<and> (sy_serve s = Serving \<longrightarrow> c_maxFrameSize c = 0 \<and> sk_out (cn_rw cn) = [])) \<and>
      (\<exists>frs. wire_log (c_maxFrameSize c) (cn_rw cn) frs \<and>
         (sy_serve s = Serving \<longrightarrow> c_gotHello c \<longrightarrow>
            size_ok (c_maxFrameSize c) \<and> (\<exists>more. frs = hello_frame (c_maxFrameSize c) # more))))"

lemma sys_invI:
  assumes "pool_ok (sy_conn s)" and "\<forall>f \<in> set (sy_queue s). frame_inv f"
    and "wire_log (c_maxFrameSize (cn_client (sy_conn s))) (cn_rw (sy_conn s)) frs"
    and "sy_queue s \<noteq> [] \<Longrightarrow>
      c_gotHello (cn_client (sy_conn s)) \<and> size_ok (c_maxFrameSize (cn_client (sy_conn s)))"
    and "\<not> c_gotHello (cn_client (sy_conn s)) \<Longrightarrow> cn_h (sy_conn s) = h0"
    and "\<not> c_gotHello (cn_client (sy_conn s)) \<Longrightarrow> sy_serve s = Serving \<Longrightarrow>
      c_maxFrameSize (cn_client (sy_conn s)) = 0 \<and> sk_out (cn_rw (sy_conn s)) = []"
    and "sy_serve s = Serving \<Longrightarrow> c_gotHello (cn_client (sy_conn s)) \<Longrightarrow>
      size_ok (c_maxFrameSize (cn_client (sy_conn s))) \<and>
      (\<exists>more. frs = hello_frame (c_maxFrameSize (cn_client (sy_conn s))) # more)"
  shows "sys_inv h0 s"
  using assms unfolding sys_inv_def Let_def by blast

lemma wire_log_nothing: "sk_out w = [] \<Longrightarrow> wire_log n w []"
  by (simp add: wire_log_def)

lemma sys_inv_start: "sys_start s \<Longrightarrow> sys_inv (cn_h (sy_conn s)) s"
  using wire_log_nothing [of "cn_rw (sy_conn s)" "c_maxFrameSize (cn_client (sy_conn s))"]
  by (auto simp: sys_start_def sys_inv_def newProtocolClient_def Let_def)

text \<open>A step of a handler, with the queue or the status changed towards the end.\<close>

lemma sys_inv_conn_step:
  assumes "sys_inv h0 s" and "conn_step (sy_conn s) cn"
    and "c_gotHello (cn_client cn) \<or> cn_h cn = cn_h (sy_conn s)"
    and "set q \<subseteq> set (sy_queue s)" and "st = Serving \<longrightarrow> sy_serve s = Serving \<and>
      (c_gotHello (cn_client cn) \<or> cn_rw cn = cn_rw (sy_conn s))"
  shows "sys_inv h0 (s\<lparr>sy_conn := cn, sy_queue := q, sy_serve := st\<rparr>)"
proof -
  let ?c = "cn_client (sy_conn s)" and ?n = "c_maxFrameSize (cn_client (sy_conn s))"
  from assms(2) have st: "pool_ok cn" "c_gotHello (cn_client cn) = c_gotHello ?c"
    "c_maxFrameSize (cn_client cn) = ?n" "may_send ?n (cn_rw (sy_conn s)) (cn_rw cn)"
    by (auto simp: conn_step_def)
  from assms(1) have inv: "\<forall>f \<in> set (sy_queue s). frame_inv f"
    "sy_queue s \<noteq> [] \<longrightarrow> c_gotHello ?c \<and> size_ok ?n"
    "\<not> c_gotHello ?c \<longrightarrow> cn_h (sy_conn s) = h0 \<and>
      (sy_serve s = Serving \<longrightarrow> ?n = 0 \<and> sk_out (cn_rw (sy_conn s)) = [])"
    by (auto simp: sys_inv_def Let_def)
  from assms(1) obtain frs where l: "wire_log ?n (cn_rw (sy_conn s)) frs"
    "sy_serve s = Serving \<longrightarrow> c_gotHello ?c \<longrightarrow> size_ok ?n \<and> (\<exists>more. frs = hello_frame ?n # more)"
    unfolding sys_inv_def Let_def by blast
  obtain more where "wire_log ?n (cn_rw cn) (frs @ more)"
    using wire_log_may_send [OF l(1) st(4)] by blast
  moreover have "q \<noteq> [] \<longrightarrow> sy_queue s \<noteq> []" using assms(4) by auto
  moreover have "\<not> c_gotHello (cn_client cn) \<longrightarrow> cn_h cn = h0 \<and>
      (st = Serving \<longrightarrow> c_maxFrameSize (cn_client cn) = 0 \<and> sk_out (cn_rw cn) = [])"
    using inv(3) st(2,3) assms(3,5) by metis
  moreover have "st = Serving \<longrightarrow> c_gotHello (cn_client cn) \<longrightarrow>
      size_ok (c_maxFrameSize (cn_client cn)) \<and>
      (\<exists>more'. frs @ more = hello_frame (c_maxFrameSize (cn_client cn)) # more')"
    using l(2) st(2,3) assms(5) by fastforce
  moreover have "\<forall>f \<in> set q. frame_inv f" using inv(1) assms(4) by blast
  ultimately show ?thesis
    using st(1-3) inv(2) by (intro sys_invI [where frs = "frs @ more"]) auto
qed

lemma acquire_read:
  assumes "pool_ok cn"
  obtains "do { (f, pool) \<leftarrow> acquireFrame (cn_pool cn); (f, r, n, err) \<leftarrow> readFrom f r0 limit;
      Ret (f, pool, r, err) } = Panic"
  | f pool r err where "do { (f, pool) \<leftarrow> acquireFrame (cn_pool cn); (f, r, n, err) \<leftarrow> readFrom f r0 limit;
      Ret (f, pool, r, err) } = Ret (f, pool, r, err)"
      "frame_inv f" "\<forall>f \<in> set pool. pool_frame f"
      "\<exists>f0 n. readFrom f0 r0 limit = Ret (f, r, n, err) \<and> frame_inv f0"
proof -
  from assms obtain pf pool where p: "acquireFrame (cn_pool cn) = Ret (pf, pool)" "pool_frame pf"
    "\<forall>f \<in> set pool. pool_frame f" by (auto simp: pool_ok_def elim: acquireFrame_ok)
  show ?thesis
  proof (cases "readFrom pf r0 limit")
    case None
    with p that(1) show ?thesis by simp
  next
    case (Some res)
    obtain f r n err where res: "res = (f, r, n, err)" by (cases res)
    have "frame_inv f" using readFrom_inv [OF pool_frame_inv [OF p(2)]] Some res by blast
    with that(2) [of f pool r err] p Some res pool_frame_inv [OF p(2)] show ?thesis by auto
  qed
qed

lemma Serve_hello_inv:
  assumes "sys_inv h0 s" and "sy_serve s = Serving" and f: "frame_inv f" and p: "\<forall>f \<in> set pool. pool_frame f"
    and A: "do { (f, pool) \<leftarrow> acquireFrame (cn_pool (sy_conn s));
        (f, r, n, err) \<leftarrow> readFrom f (sy_in s) (serve_limit (cn_client (sy_conn s)));
        Ret (f, pool, r, err) } = Ret (f, pool, r, err)"
    and hello: "err = None" "\<not> c_gotHello (cn_client (sy_conn s))" "f_frameType f = frameTypeIDHaproxyHello"
  shows "sys_inv h0 (Serve_iter handler s)"
proof -
  let ?cn = "sy_conn s"
  obtain cn' out where fh: "frameHandler handler f (?cn\<lparr>cn_pool := pool\<rparr>) = (cn', out)"
    by (metis prod.exhaust)
  from assms(1,2) hello(2) have c: "c_maxFrameSize (cn_client ?cn) = 0" "sk_out (cn_rw ?cn) = []"
    "sy_queue s = []" by (auto simp: sys_inv_def Let_def)
  let ?n = "c_maxFrameSize (cn_client cn')"
  have "pool_ok (?cn\<lparr>cn_pool := pool\<rparr>)" using p by (simp add: pool_ok_def)
  from frameHandler_first [OF this _ _ f hello(3) fh] hello(2) c(1)
  have h: "pool_ok cn'" "c_gotHello (cn_client cn')"
    "cn_rw cn' = cn_rw ?cn \<and> out \<noteq> Ret None \<or> size_ok ?n \<and>
     (\<exists>k err. out = Ret err \<and> sent (cn_rw ?cn) (wire_of (hello_frame ?n)) (cn_rw cn') k err)" by simp_all
  define st where "st = (case out of None \<Rightarrow> Crashed | Some (Some e) \<Rightarrow> Returned (Some e)
    | Some None \<Rightarrow> (case c_ctx (cn_client cn') of None \<Rightarrow> Serving | Some cause \<Rightarrow> Returned (Some cause)))"
  have it: "Serve_iter handler s = s\<lparr>sy_conn := cn', sy_in := r, sy_serve := st\<rparr>"
    using A hello fh by (auto simp: Serve_iter_def st_def Let_def split: option.split)
  have "agent_frame ?n (hello_frame ?n)" by (simp add: agent_frame_def)
  have "wire_log ?n (cn_rw cn') (if out = Ret None then [hello_frame ?n] else [])"
  proof (cases "cn_rw cn' = cn_rw ?cn \<and> out \<noteq> Ret None")
    case True
    then show ?thesis using wire_log_nothing [of "cn_rw cn'" ?n] c(2) by simp
  next
    case False
    with h(3) obtain k e where "out = Ret e"
      "sent (cn_rw ?cn) (wire_of (hello_frame ?n)) (cn_rw cn') k e" by blast
    with wire_log_sent [OF wire_log_nothing [OF c(2)] this(2) \<open>agent_frame _ _\<close>] show ?thesis
      by (cases e) simp_all
  qed
  moreover have "st = Serving \<Longrightarrow> out = Ret None" by (auto simp: st_def split: option.splits)
  ultimately show ?thesis
    using h c(3) by (intro sys_invI [where frs = "if out = Ret None then [hello_frame ?n] else []"])
      (auto simp: it)
qed

lemma Serve_iter_inv:
  assumes "handler_ok handler" and "sys_inv h0 s" and "sy_serve s = Serving"
  shows "sys_inv h0 (Serve_iter handler s)"
proof -
  let ?cn = "sy_conn s" and ?c = "cn_client (sy_conn s)"
  have pool: "pool_ok ?cn" using assms(2) by (simp add: sys_inv_def Let_def)
  have step: "conn_step ?cn (?cn\<lparr>cn_pool := p\<rparr>)" if "\<forall>f \<in> set p. pool_frame f" for p
    using that by (simp add: conn_step_def pool_ok_def may_send_def)
  have keep: "sys_inv h0 (s\<lparr>sy_conn := ?cn\<lparr>cn_pool := p\<rparr>, sy_in := r, sy_serve := st\<rparr>)"
    if "\<forall>f \<in> set p. pool_frame f" "st \<noteq> Serving" for p r st
    using sys_inv_conn_step [OF assms(2) step [OF that(1)], of "sy_queue s" st] that(2)
    by (simp add: sys_inv_def Let_def)
  show ?thesis
  proof (rule acquire_read [OF pool, of "sy_in s" "serve_limit ?c"])
    assume "do { (f, pool) \<leftarrow> acquireFrame (cn_pool ?cn); (f, r, n, err) \<leftarrow> readFrom f (sy_in s) (serve_limit ?c);
      Ret (f, pool, r, err) } = Panic"
    then have "Serve_iter handler s = s\<lparr>sy_serve := Crashed\<rparr>" by (simp add: Serve_iter_def)
    with assms(2) show ?thesis by (auto simp: sys_inv_def Let_def)
  next
    fix f pool r err
    assume A: "do { (f, pool) \<leftarrow> acquireFrame (cn_pool ?cn); (f, r, n, err) \<leftarrow> readFrom f (sy_in s) (serve_limit ?c);
      Ret (f, pool, r, err) } = Ret (f, pool, r, err)"
      and f: "frame_inv f" and p: "\<forall>f \<in> set pool. pool_frame f"
    have p': "\<forall>g \<in> set (releaseFrame f # pool). pool_frame g" using p pool_frame_release [OF f] by simp
    consider (failed) e where "err = Some e" | (queued) "err = None" "c_gotHello ?c"
      | (other) "err = None" "\<not> c_gotHello ?c" "f_frameType f \<noteq> frameTypeIDHaproxyHello"
      | (hello) "err = None" "\<not> c_gotHello ?c" "f_frameType f = frameTypeIDHaproxyHello" by fastforce
    then show ?thesis
    proof cases
      case failed
      then have "Serve_iter handler s =
          s\<lparr>sy_conn := ?cn\<lparr>cn_pool := releaseFrame f # pool\<rparr>, sy_in := r, sy_serve := read_failed e ?c\<rparr>"
        using A by (simp add: Serve_iter_def Let_def)
      moreover have "read_failed e ?c \<noteq> Serving" by (simp add: read_failed_def split: option.split)
      ultimately show ?thesis using keep [OF p'] by simp
    next
      case queued
      then have "Serve_iter handler s =
          s\<lparr>sy_conn := ?cn\<lparr>cn_pool := pool\<rparr>, sy_in := r, sy_queue := sy_queue s @ [f]\<rparr>"
        using A by (simp add: Serve_iter_def Let_def)
      with assms(2,3) queued p f show ?thesis
        by (auto simp: sys_inv_def Let_def pool_ok_def)
    next
      case other
      then have "Serve_iter handler s = s\<lparr>sy_conn := ?cn\<lparr>cn_pool := releaseFrame f # pool\<rparr>, sy_in := r,
          sy_serve := Returned (Some (ErrFormatNat ''first frame must be HAPROXY-HELLO, got type''
                  (unat (f_frameType f))))\<rparr>"
        using A by (simp add: Serve_iter_def Let_def)
      then show ?thesis using keep [OF p'] by simp
    next
      case hello
      then show ?thesis using Serve_hello_inv [OF assms(2,3) f p A] by simp
    qed
  qed
qed

lemma conn_step_refl: "pool_ok cn \<Longrightarrow> conn_step cn cn"
  by (simp add: conn_step_def may_send_def)

lemma sstep_inv:
  assumes "sstep handler s s'" and "handler_ok handler" and "sys_inv h0 s"
  shows "sys_inv h0 s'"
  using assms(1)
proof cases
  case serve
  then show ?thesis using Serve_iter_inv [OF assms(2,3)] by simp
next
  case (work fs f gs cn err)
  from assms(3) work(2) have c: "pool_ok (sy_conn s)" "frame_inv f" "c_gotHello (cn_client (sy_conn s))"
    by (auto simp: sys_inv_def Let_def)
  have "cn = fst (frameHandler handler f (sy_conn s))"
    using work(3) by (auto simp: wrapPanic_def split: prod.splits option.splits)
  with frameHandler_step [OF assms(2) c] have st: "conn_step (sy_conn s) cn" by simp
  with c(3) have "c_gotHello (cn_client cn)" by (simp add: conn_step_def)
  with sys_inv_conn_step [OF assms(3) st, of "fs @ gs" "sy_serve s"] work(2) show ?thesis
    unfolding work(1) by auto
next
  case (base_cancel cause)
  have "conn_step (sy_conn s) ((sy_conn s)\<lparr>cn_client := ctxCancel cause (cn_client (sy_conn s))\<rparr>)"
    using assms(3) by (simp add: conn_step_def may_send_def sys_inv_def Let_def pool_ok_def)
  from sys_inv_conn_step [OF assms(3) this, of "sy_queue s" "sy_serve s"] show ?thesis
    unfolding base_cancel(1) by simp
next
  case (pool pool)
  have "conn_step (sy_conn s) ((sy_conn s)\<lparr>cn_pool := pool\<rparr>)"
    using pool(2) by (simp add: conn_step_def may_send_def pool_ok_def)
  from sys_inv_conn_step [OF assms(3) this, of "sy_queue s" "sy_serve s"] show ?thesis
    unfolding pool(1) by simp
next
  case (close err cn e)
  from assms(3) have "pool_ok (sy_conn s)" by (simp add: sys_inv_def Let_def)
  with Close_step close(3) have st: "conn_step (sy_conn s) cn" by fastforce
  have h: "cn_h cn = cn_h (sy_conn s)"
    using close(3) by (auto simp: Close_def bind_eq_Some_conv split: if_splits)
  from sys_inv_conn_step [OF assms(3) st, of "sy_queue s" Closed] h
  have "sys_inv h0 (s\<lparr>sy_conn := cn, sy_serve := Closed\<rparr>)" by simp
  then show ?thesis
    unfolding close(1) by (fastforce simp: sys_inv_def close_conn_def wire_log_def pool_ok_def Let_def)
qed

lemma reachable_inv:
  assumes "reachable handler s0 s" and "handler_ok handler" and "sys_start s0"
  shows "sys_inv (cn_h (sy_conn s0)) s"
  using assms by (induction rule: reachable.induct) (auto simp: sys_inv_start intro: sstep_inv)

text \<open>One iteration of \<open>Serve\<close> with a frame on the wire.\<close>

lemma Serve_iter_wire:
  assumes "pool_ok (sy_conn s)" and "rd_data (sy_in s) = wire_frame t m payload @ rest"
    and "25 + length payload \<le> unat (serve_limit (cn_client (sy_conn s)))"
  obtains f pool sp where "do { (f, pool) \<leftarrow> acquireFrame (cn_pool (sy_conn s));
        (f, r, n, err) \<leftarrow> readFrom f (sy_in s) (serve_limit (cn_client (sy_conn s)));
        Ret (f, pool, r, err) } = Ret (f, pool, (sy_in s)\<lparr>rd_data := rest\<rparr>, None)"
    "frame_inv f" "\<forall>f \<in> set pool. pool_frame f" "f_frameType f = t" "f_meta f = m"
    "ReadBytes (f_buf f) = Ret (Slice payload sp)"
proof -
  from assms(1) obtain pf pool where p: "acquireFrame (cn_pool (sy_conn s)) = Ret (pf, pool)" "pool_frame pf"
    "\<forall>f \<in> set pool. pool_frame f" by (auto simp: pool_ok_def elim: acquireFrame_ok)
  have "length (header_enc t (Flags m) (StreamID m) (FrameID m) @ payload)
      \<le> unat (serve_limit (cn_client (sy_conn s)))"
    using assms(3) length_header_le [of t "Flags m" "StreamID m" "FrameID m"] by simp
  from readFrom_wire_ok [OF pool_frame_inv [OF p(2)] assms(2) this] obtain f dat where
    "readFrom pf (sy_in s) (serve_limit (cn_client (sy_conn s))) =
      Ret (f, (sy_in s)\<lparr>rd_data := rest\<rparr>, length (wire_frame t m payload), None)"
    "f_frameType f = t" "f_meta f = m" "frame_inv f" "ReadBytes (f_buf f) = Ret dat" "vis dat = payload"
    by blast
  with p(1,3) that [of f pool "spare dat"] show ?thesis by (cases dat) simp
qed

section \<open>Properties of a connection\<close>

text \<open>A concrete connection: HAProxy's hello with a frame size of 1024, then the end of the input.\<close>

definition demo_kvs :: "kv list" where
  "demo_kvs = [(helloKeySupportedVersions, VString version), (helloKeyMaxFrameSize, VUInt32 1024)]"

definition demo_sys :: "nat sys" where
  "demo_sys =
     \<lparr>sy_conn = \<lparr>cn_client = newProtocolClient None, cn_rw = open_sink [], cn_pool = [], cn_h = 0\<rparr>,
      sy_in = \<lparr>rd_data = wire_frame frameTypeIDHaproxyHello fin_meta (concat (map kv_enc demo_kvs)) @ [],
               rd_err = ErrEOF\<rparr>,
      sy_queue = [], sy_serve = Serving\<rparr>"

definition demo_handler :: "nat handler" where
  "demo_handler h ctx aw m = (h + 1, Ret (aw, m))"

lemma demo_ok:
  "sys_start demo_sys" "handler_ok demo_handler" "sizes demo_kvs = [1024]" "\<not> healthcheck demo_kvs"
  "\<forall>kv \<in> set demo_kvs. wf_kv kv" "25 + length (concat (map kv_enc demo_kvs)) \<le> maxFrameSize"
proof -
  have l: "length helloKeyMaxFrameSize = 14" "length helloKeySupportedVersions = 18"
    "length helloKeyHealthcheck = 11" "length version = 3"
    by (simp_all add: helloKeyMaxFrameSize_def helloKeySupportedVersions_def helloKeyHealthcheck_def
        version_def)
  then have k: "helloKeySupportedVersions \<noteq> helloKeyMaxFrameSize" "helloKeySupportedVersions \<noteq> helloKeyHealthcheck"
    "helloKeyMaxFrameSize \<noteq> helloKeyHealthcheck" by auto
  show "sys_start demo_sys" by (auto simp: sys_start_def demo_sys_def pool_ok_def open_sink_def)
  show "handler_ok demo_handler" by (simp add: handler_ok_def demo_handler_def)
  show "sizes demo_kvs = [1024]" using k by (simp add: sizes_def demo_kvs_def)
  show "\<not> healthcheck demo_kvs" using k by (auto simp: healthcheck_def demo_kvs_def)
  show "\<forall>kv \<in> set demo_kvs. wf_kv kv" by (simp add: demo_kvs_def wf_kv_def len_ok_def l)
  show "25 + length (concat (map kv_enc demo_kvs)) \<le> maxFrameSize"
    using l length_bytes_enc_le [of helloKeyMaxFrameSize] length_bytes_enc_le [of helloKeySupportedVersions]
      length_bytes_enc_le [of version] length_varint_enc_le [of 1024]
    by (simp add: demo_kvs_def kv_enc_def maxFrameSize_def)
qed

lemma demo_reachable: "reachable demo_handler demo_sys (Serve_iter demo_handler demo_sys)"
  by (rule reachable.step [OF reachable.init sstep.serve]) (simp add: demo_sys_def)

text \<open>The first iteration, for a HELLO with acceptable sizes, in any context.\<close>

lemma serve_hello_step:
  assumes "sys_start s" and "healthy (cn_rw (sy_conn s))"
    and "rd_data (sy_in s) = wire_frame frameTypeIDHaproxyHello m (concat (map kv_enc kvs)) @ rest"
    and "25 + length (concat (map kv_enc kvs)) \<le> maxFrameSize" and "\<forall>kv \<in> set kvs. wf_kv kv"
    and "sizes kvs \<noteq> []" and "list_all size_ok (sizes kvs)"
  obtains cn where "Serve_iter handler s = s\<lparr>sy_conn := cn, sy_in := (sy_in s)\<lparr>rd_data := rest\<rparr>,
      sy_serve := (case c_ctx (cn_client cn) of None \<Rightarrow> Serving | Some cause \<Rightarrow> Returned (Some cause))\<rparr>"
    "pool_ok cn" "cn_h cn = cn_h (sy_conn s)" "healthy (cn_rw cn)"
    "sk_out (cn_rw cn) = wire_of (hello_frame (last (sizes kvs)))"
    "cn_client cn = (let c = negotiated kvs ((cn_client (sy_conn s))\<lparr>c_gotHello := True\<rparr>) in
       if healthcheck kvs then ctxCancel None c else c)"
proof -
  let ?cn = "sy_conn s"
  from assms(1) have st: "pool_ok ?cn" "\<not> c_gotHello (cn_client ?cn)" "sk_out (cn_rw ?cn) = []"
    by (auto simp: sys_start_def newProtocolClient_def)
  have "25 + length (concat (map kv_enc kvs)) \<le> unat (serve_limit (cn_client ?cn))"
    using assms(4) st(2) by (simp add: serve_limit_def maxFrameSize_def)
  with st(1) assms(3) obtain f pool sp where
    A: "do { (f, pool) \<leftarrow> acquireFrame (cn_pool ?cn);
        (f, r, n, err) \<leftarrow> readFrom f (sy_in s) (serve_limit (cn_client ?cn));
        Ret (f, pool, r, err) } = Ret (f, pool, (sy_in s)\<lparr>rd_data := rest\<rparr>, None)"
    and fi: "frame_inv f" and f: "\<forall>f \<in> set pool. pool_frame f" "f_frameType f = frameTypeIDHaproxyHello"
    and "f_meta f = m" and fb: "ReadBytes (f_buf f) = Ret (Slice (concat (map kv_enc kvs)) sp)"
    by (rule Serve_iter_wire)
  let ?c = "negotiated kvs ((cn_client ?cn)\<lparr>c_gotHello := True\<rparr>)"
  define cn1 where "cn1 = ?cn\<lparr>cn_pool := pool\<rparr>"
  have c1: "cn_client cn1 = cn_client ?cn" "cn_rw cn1 = cn_rw ?cn" "pool_ok cn1" "cn_h cn1 = cn_h ?cn"
    using f(1) by (simp_all add: cn1_def pool_ok_def)
  from st(2) c1 hello_negotiates [OF assms(5) _ c1(3) fb assms(6,7)] obtain cn' n err where
    h: "onHAProxyHello f cn1 = (cn', Ret err)" "pool_ok cn'" "cn_h cn' = cn_h ?cn"
      "c_maxFrameSize ?c = last (sizes kvs)" "cn_client cn' = (if healthcheck kvs then ctxCancel None ?c else ?c)"
      "sent (cn_rw ?cn) (hello_bytes ?c) (cn_rw cn') n err" unfolding Let_def c1(1,2,4) by blast
  from h(6) assms(2) st(3) have out: "err = None" "sk_out (cn_rw cn') = hello_bytes ?c" "healthy (cn_rw cn')"
    by (auto simp: sent_def)
  let ?cn2 = "cn'\<lparr>cn_pool := releaseFrame f # cn_pool cn'\<rparr>"
  have "frameHandler handler f (?cn\<lparr>cn_pool := pool\<rparr>) = (?cn2, Ret None)"
    using h(1) f(2) out(1) by (simp add: frameHandler_def cn1_def)
  then have "Serve_iter handler s = s\<lparr>sy_conn := ?cn2, sy_in := (sy_in s)\<lparr>rd_data := rest\<rparr>,
      sy_serve := (case c_ctx (cn_client ?cn2) of None \<Rightarrow> Serving | Some cause \<Rightarrow> Returned (Some cause))\<rparr>"
    using A st(2) f(2) by (simp add: Serve_iter_def Let_def)
  moreover have "pool_ok ?cn2" using h(2) pool_frame_release [OF fi] by (simp add: pool_ok_def)
  ultimately show ?thesis
    using h(3-5) out by (intro that [of ?cn2]) (simp_all add: hello_bytes_frame Let_def)
qed

text \<open>C7: the handshake: the first bytes of a connection being a HELLO with acceptable frame
  sizes, \<open>Serve\<close> consumes exactly that frame, answers with the AGENT-HELLO for the last size
  announced, stores size and engine id, and goes on; with a healthcheck it stops after the
  answer. This holds whatever the handler and the frames in the pool.\<close>

theorem serve_hello:
  assumes "sys_start s" and "c_ctx (cn_client (sy_conn s)) = None" and "healthy (cn_rw (sy_conn s))"
    and "rd_data (sy_in s) = wire_frame frameTypeIDHaproxyHello m (concat (map kv_enc kvs)) @ rest"
    and "25 + length (concat (map kv_enc kvs)) \<le> maxFrameSize" and "\<forall>kv \<in> set kvs. wf_kv kv"
    and "sizes kvs \<noteq> []" and "list_all size_ok (sizes kvs)"
  shows "let s' = Serve_iter handler s; c = cn_client (sy_conn s') in
    rd_data (sy_in s') = rest \<and>
    sk_out (cn_rw (sy_conn s')) = wire_of (hello_frame (last (sizes kvs))) \<and>
    c_gotHello c \<and> c_maxFrameSize c = last (sizes kvs) \<and> c_engineID c = last ([] # engines kvs) \<and>
    sy_serve s' = (if healthcheck kvs then Returned (Some ErrCanceled) else Serving)"
proof -
  from assms(1) have id: "c_engineID (cn_client (sy_conn s)) = []"
    by (auto simp: sys_start_def newProtocolClient_def)
  obtain cn where cn: "Serve_iter handler s = s\<lparr>sy_conn := cn, sy_in := (sy_in s)\<lparr>rd_data := rest\<rparr>,
      sy_serve := (case c_ctx (cn_client cn) of None \<Rightarrow> Serving | Some cause \<Rightarrow> Returned (Some cause))\<rparr>"
    "sk_out (cn_rw cn) = wire_of (hello_frame (last (sizes kvs)))"
    "cn_client cn = (let c = negotiated kvs ((cn_client (sy_conn s))\<lparr>c_gotHello := True\<rparr>) in
       if healthcheck kvs then ctxCancel None c else c)"
    by (rule serve_hello_step [OF assms(1,3-8)])
  then have "c_ctx (cn_client cn) = (if healthcheck kvs then Some ErrCanceled else None)"
    "c_gotHello (cn_client cn)" "c_maxFrameSize (cn_client cn) = last (sizes kvs)"
    "c_engineID (cn_client cn) = last ([] # engines kvs)"
    using assms(2,7) id by (simp_all add: negotiated_def ctxCancel_def Let_def)
  with cn(1,2) show ?thesis by (simp add: Let_def)
qed

lemma serve_hello_witness:
  "sk_out (cn_rw (sy_conn (Serve_iter demo_handler demo_sys))) = wire_of (hello_frame 1024) \<and>
   sy_serve (Serve_iter demo_handler demo_sys) = Serving"
proof -
  have "c_ctx (cn_client (sy_conn demo_sys)) = None" "healthy (cn_rw (sy_conn demo_sys))"
    "rd_data (sy_in demo_sys) = wire_frame frameTypeIDHaproxyHello fin_meta (concat (map kv_enc demo_kvs)) @ []"
    "sizes demo_kvs \<noteq> []" "list_all size_ok (sizes demo_kvs)"
    by (simp_all add: demo_sys_def newProtocolClient_def open_sink_def demo_ok size_ok_def wire_defs)
  from serve_hello [OF demo_ok(1) this(1-3) demo_ok(6,5) this(4,5), of demo_handler] demo_ok(3,4)
  show ?thesis by (simp add: Let_def)
qed

text \<open>The conversation of a connection, at every moment of every interleaving of \<open>Serve\<close>,
  workers, cancellation and close: what was sent is a sequence of whole AGENT-HELLO, ACK and
  AGENT-DISCONNECT frames, broken off only by a write error; ACKs never exceed the negotiated
  size; and while \<open>Serve\<close> runs, nothing is sent before the hello and the first frame is the
  AGENT-HELLO with that size, which is in the range of the protocol.\<close>

theorem connection_output:
  assumes "handler_ok handler" and "sys_start s0" and "reachable handler s0 s"
  shows "let n = c_maxFrameSize (cn_client (sy_conn s)); w = cn_rw (sy_conn s) in
    \<exists>frs. wire_log n w frs \<and>
      (sy_serve s = Serving \<longrightarrow>
        (if c_gotHello (cn_client (sy_conn s)) then size_ok n \<and> (\<exists>more. frs = hello_frame n # more)
         else sk_out w = []))"
  using reachable_inv [OF assms(3,1,2)] unfolding sys_inv_def Let_def by metis

lemma connection_output_witness:
  "\<exists>frs. wire_log (c_maxFrameSize (cn_client (sy_conn (Serve_iter demo_handler demo_sys))))
     (cn_rw (sy_conn (Serve_iter demo_handler demo_sys))) frs"
  using connection_output [OF demo_ok(2,1) demo_reachable] by (auto simp: Let_def)

text \<open>C26: before the hello is through, no frame is queued and the user's handler has not run;
  whatever is queued is handled under a negotiated size in the range of the protocol.\<close>

theorem no_work_before_hello:
  assumes "handler_ok handler" and "sys_start s0" and "reachable handler s0 s"
  shows "if c_gotHello (cn_client (sy_conn s))
    then sy_queue s \<noteq> [] \<longrightarrow> size_ok (c_maxFrameSize (cn_client (sy_conn s)))
    else sy_queue s = [] \<and> cn_h (sy_conn s) = cn_h (sy_conn s0)"
  using reachable_inv [OF assms(3,1,2)] unfolding sys_inv_def Let_def by metis

lemma no_work_before_hello_witness:
  "sy_queue demo_sys = [] \<and> cn_h (sy_conn demo_sys) = 0"
  using no_work_before_hello [OF demo_ok(2,1) reachable.init]
  by (simp add: demo_sys_def newProtocolClient_def)

text \<open>C27: a frame announced as longer than the limit, 65535 bytes before the hello and the
  negotiated size after it, ends \<open>Serve\<close> with an error before any of it is read or stored.\<close>

theorem serve_refuses_oversized:
  assumes "handler_ok handler" and "sys_start s0" and "reachable handler s0 s"
    and "c_ctx (cn_client (sy_conn s)) = None" and "rd_data (sy_in s) = be32 n @ rest"
    and "serve_limit (cn_client (sy_conn s)) < n"
  shows "let s' = Serve_iter handler s in
    sy_serve s' = Returned (Some (ErrFrameLength n (serve_limit (cn_client (sy_conn s))))) \<and>
    rd_data (sy_in s') = rest \<and> sy_queue s' = sy_queue s \<and> cn_rw (sy_conn s') = cn_rw (sy_conn s)"
proof -
  let ?lim = "serve_limit (cn_client (sy_conn s))"
  have "pool_ok (sy_conn s)"
    using reachable_inv [OF assms(3,1,2)] by (simp add: sys_inv_def Let_def)
  then obtain pf pool where p: "acquireFrame (cn_pool (sy_conn s)) = Ret (pf, pool)" "pool_frame pf"
    by (auto simp: pool_ok_def elim: acquireFrame_ok)
  from readFrom_limit [OF pool_frame_inv [OF p(2)] assms(5,6)]
  have "Serve_iter handler s = s\<lparr>
      sy_conn := (sy_conn s)\<lparr>cn_pool := releaseFrame (pf\<lparr>f_length := be32 n\<rparr>) # pool\<rparr>,
      sy_in := (sy_in s)\<lparr>rd_data := rest\<rparr>, sy_serve := Returned (Some (ErrFrameLength n ?lim))\<rparr>"
    using p(1) assms(4) by (simp add: Serve_iter_def read_failed_def Let_def)
  then show ?thesis by (simp add: Let_def)
qed

lemma serve_refuses_oversized_witness:
  "sy_serve (Serve_iter demo_handler (demo_sys\<lparr>sy_in := \<lparr>rd_data = be32 65536 @ [1], rd_err = ErrEOF\<rparr>\<rparr>)) =
    Returned (Some (ErrFrameLength 65536 65535))"
proof -
  let ?s = "demo_sys\<lparr>sy_in := \<lparr>rd_data = be32 65536 @ [1], rd_err = ErrEOF\<rparr>\<rparr>"
  have "sys_start ?s" using demo_ok(1) by (simp add: sys_start_def)
  moreover have "c_ctx (cn_client (sy_conn ?s)) = None" "rd_data (sy_in ?s) = be32 65536 @ [1]"
    "serve_limit (cn_client (sy_conn ?s)) = 65535"
    by (simp_all add: demo_sys_def newProtocolClient_def serve_limit_def maxFrameSize_def)
  ultimately show ?thesis
    using serve_refuses_oversized [OF demo_ok(2) _ reachable.init, of ?s 65536 "[1]"]
    by (simp add: Let_def)
qed

section \<open>Serve ends\<close>

lemma Serve_iter_consumes:
  assumes "pool_ok (sy_conn s)" and "sy_serve s = Serving" and "sy_serve (Serve_iter handler s) = Serving"
  shows "length (rd_data (sy_in (Serve_iter handler s))) + 4 \<le> length (rd_data (sy_in s))"
proof (rule acquire_read [OF assms(1), of "sy_in s" "serve_limit (cn_client (sy_conn s))"])
  assume "do { (f, pool) \<leftarrow> acquireFrame (cn_pool (sy_conn s));
      (f, r, n, err) \<leftarrow> readFrom f (sy_in s) (serve_limit (cn_client (sy_conn s)));
      Ret (f, pool, r, err) } = Panic"
  then show ?thesis using assms(3) by (simp add: Serve_iter_def)
next
  fix f pool r err
  assume A: "do { (f, pool) \<leftarrow> acquireFrame (cn_pool (sy_conn s));
      (f, r, n, err) \<leftarrow> readFrom f (sy_in s) (serve_limit (cn_client (sy_conn s)));
      Ret (f, pool, r, err) } = Ret (f, pool, r, err)"
    and "\<exists>f0 n. readFrom f0 (sy_in s) (serve_limit (cn_client (sy_conn s))) = Ret (f, r, n, err) \<and> frame_inv f0"
  then have c: "err = None \<Longrightarrow> length (rd_data r) + 4 \<le> length (rd_data (sy_in s))"
    using readFrom_consumes by blast
  have "err = None"
    using assms(3) A by (cases err) (auto simp: Serve_iter_def read_failed_def Let_def split: option.splits if_splits)
  with c A show ?thesis
    by (auto simp: Serve_iter_def Let_def split: option.split prod.split)
qed

interpretation serve_loop: consuming_loop "Serve_iter handler" "\<lambda>s. sy_serve s = Serving"
  "\<lambda>s. handler_ok handler \<and> sys_inv h0 s" "\<lambda>s. length (rd_data (sy_in s))" 4 for handler h0
proof
  fix s :: "'a sys"
  assume s: "handler_ok handler \<and> sys_inv h0 s" "sy_serve s = Serving" "sy_serve (Serve_iter handler s) = Serving"
  then have "pool_ok (sy_conn s)" by (simp add: sys_inv_def Let_def)
  from Serve_iter_consumes [OF this s(2,3)] Serve_iter_inv [of handler h0 s] s
  show "(handler_ok handler \<and> sys_inv h0 (Serve_iter handler s)) \<and>
      length (rd_data (sy_in (Serve_iter handler s))) + 4 \<le> length (rd_data (sy_in s))" by simp
qed simp

text \<open>C19: \<open>Serve\<close> ends: on every finite input it is over after at most one iteration per four
  bytes and one more, from every reachable state, with any handler.\<close>

theorem serve_ends:
  assumes "handler_ok handler" and "sys_start s0" and "reachable handler s0 s"
  shows "\<exists>k \<le> length (rd_data (sy_in s)) div 4 + 1. sy_serve ((Serve_iter handler ^^ k) s) \<noteq> Serving"
  using serve_loop.ends [OF conjI, OF assms(1) reachable_inv [OF assms(3,1,2)]] by simp

lemma serve_ends_witness: "\<exists>k. sy_serve ((Serve_iter demo_handler ^^ k) demo_sys) \<noteq> Serving"
  using serve_ends [OF demo_ok(2,1) reachable.init] by blast

end
