(* ===== verification/SpopAgent.thy ===== *)
theory SpopAgent
  imports SpopServe Scheduler
begin

text \<open>
  The whole agent (spop/agent.go, spop/scheduler.go): the accept loop of \<open>Agent.Serve\<close>, any number of
  connections, and the workers that take the frames of all of them from one bounded queue. The
  connections share the pool of frames and the user's handler; each has its own client, input and
  output.
\<close>

section \<open>The state\<close>

text \<open>\<open>ac_pending\<close>: the frame with which \<open>Serve\<close> waits in \<open>schedule\<close> for room in the queue.\<close>

record aconn =
  ac_client :: client
  ac_rw :: sink
  ac_in :: reader
  ac_serve :: serve
  ac_pending :: "frame option"

text \<open>
  \<open>ag_ctx\<close> is the error of the base context, \<open>ag_returned\<close> the result of \<open>Agent.Serve\<close> once it has one,
  \<open>ag_busy\<close> what the workers are handling. A queue element names its connection by its index.
\<close>

record 'h agent =
  ag_ctx :: "gerr option"
  ag_returned :: "gerr option"
  ag_conns :: "aconn list"
  ag_queue :: "(nat \<times> frame) queue"
  ag_busy :: "(nat \<times> frame) list"
  ag_pool :: "frame list"
  ag_h :: 'h

definition agent_init :: "nat \<times> frame \<Rightarrow> nat \<Rightarrow> 'h \<Rightarrow> 'h agent" where
  "agent_init zero numCPU h =
     \<lparr>ag_ctx = None, ag_returned = None, ag_conns = [],
      ag_queue = mo_queue (newAsyncScheduler zero numCPU), ag_busy = [], ag_pool = [], ag_h = h\<rparr>"

section \<open>The accept loop\<close>

text \<open>
  What \<open>Accept\<close> gives: an error, or a connection, with the results of the two buffer settings if it
  is a TCP connection. A connection whose settings fail is neither served nor closed.
\<close>

datatype accepted = AcceptFailed gerr | Accepted "(gerr option \<times> gerr option) option" reader "nat option"

definition new_conn :: "gerr option \<Rightarrow> reader \<Rightarrow> nat option \<Rightarrow> aconn" where
  "new_conn ctx input room =
     \<lparr>ac_client = newProtocolClient ctx, ac_rw = \<lparr>sk_out = [], sk_room = room, sk_closed = False\<rparr>, ac_in = input,
      ac_serve = Serving, ac_pending = None\<rparr>"

definition agent_accept :: "accepted \<Rightarrow> 'h agent \<Rightarrow> 'h agent" where
  "agent_accept acc A =
     (case acc of
        AcceptFailed e \<Rightarrow> A\<lparr>ag_returned := Some (ErrWrap ''accepting conn'' e)\<rparr>
      | Accepted tcp input room \<Rightarrow>
          (case tcp of
             Some (Some err, _) \<Rightarrow> A\<lparr>ag_returned := Some err\<rparr>
           | Some (None, Some err) \<Rightarrow> A\<lparr>ag_returned := Some err\<rparr>
           | _ \<Rightarrow> A\<lparr>ag_conns := ag_conns A @ [new_conn (ag_ctx A) input room]\<rparr>))"

section \<open>One connection of the agent\<close>

definition agent_conn :: "nat \<Rightarrow> 'h agent \<Rightarrow> 'h conn" where
  "agent_conn i A =
     \<lparr>cn_client = ac_client (ag_conns A ! i), cn_rw = ac_rw (ag_conns A ! i), cn_pool = ag_pool A, cn_h = ag_h A\<rparr>"

definition put_conn :: "nat \<Rightarrow> 'h conn \<Rightarrow> 'h agent \<Rightarrow> 'h agent" where
  "put_conn i cn A =
     A\<lparr>ag_conns := (ag_conns A)[i := (ag_conns A ! i)\<lparr>ac_client := cn_client cn, ac_rw := cn_rw cn\<rparr>],
       ag_pool := cn_pool cn, ag_h := cn_h cn\<rparr>"

definition upd_conn :: "nat \<Rightarrow> (aconn \<Rightarrow> aconn) \<Rightarrow> 'h agent \<Rightarrow> 'h agent" where
  "upd_conn i g A = A\<lparr>ag_conns := (ag_conns A)[i := g (ag_conns A ! i)]\<rparr>"

text \<open>\<open>Serve\<close> of connection \<open>i\<close>: one round, which may end in \<open>schedule\<close> with a frame.\<close>

definition agent_serve :: "'h handler \<Rightarrow> nat \<Rightarrow> 'h agent \<Rightarrow> 'h agent" where
  "agent_serve handler i A =
     (let s = Serve_iter handler \<lparr>sy_conn = agent_conn i A, sy_in = ac_in (ag_conns A ! i), sy_queue = [],
            sy_serve = ac_serve (ag_conns A ! i)\<rparr> in
      upd_conn i (\<lambda>c. c\<lparr>ac_in := sy_in s, ac_serve := sy_serve s,
          ac_pending := (case sy_queue s of [] \<Rightarrow> None | f # _ \<Rightarrow> Some f)\<rparr>)
        (put_conn i (sy_conn s) A))"

section \<open>The steps of the agent\<close>

inductive worker_step :: "nat \<Rightarrow> 'h handler \<Rightarrow> 'h agent \<Rightarrow> 'h agent \<Rightarrow> bool" for numCPU handler where
  schedule: "i < length (ag_conns A) \<Longrightarrow> ac_pending (ag_conns A ! i) = Some f \<Longrightarrow> \<not> isFull (ag_queue A) \<Longrightarrow>
    Put_elem (i, f) (ag_queue A) = Ret q \<Longrightarrow>
    worker_step numCPU handler A (upd_conn i (\<lambda>c. c\<lparr>ac_pending := None\<rparr>) (A\<lparr>ag_queue := q\<rparr>))"
| take: "length (ag_busy A) < numCPU \<Longrightarrow> \<not> isEmpty (ag_queue A) \<Longrightarrow> Get_elem (ag_queue A) = Ret (x, q) \<Longrightarrow>
    worker_step numCPU handler A (A\<lparr>ag_queue := q, ag_busy := ag_busy A @ [x]\<rparr>)"
| work: "ag_busy A = xs @ (i, f) # ys \<Longrightarrow> wrapPanic (frameHandler handler f (agent_conn i A)) = (cn, err) \<Longrightarrow>
    worker_step numCPU handler A (put_conn i cn (A\<lparr>ag_busy := xs @ ys\<rparr>))"

inductive agent_step :: "nat \<Rightarrow> 'h handler \<Rightarrow> 'h agent \<Rightarrow> 'h agent \<Rightarrow> bool" for numCPU handler where
  accept: "ag_returned A = None \<Longrightarrow> agent_step numCPU handler A (agent_accept acc A)"
| serve: "i < length (ag_conns A) \<Longrightarrow> ac_serve (ag_conns A ! i) = Serving \<Longrightarrow> ac_pending (ag_conns A ! i) = None \<Longrightarrow>
    agent_step numCPU handler A (agent_serve handler i A)"
| worker: "worker_step numCPU handler A A' \<Longrightarrow> agent_step numCPU handler A A'"
| close: "i < length (ag_conns A) \<Longrightarrow> ac_serve (ag_conns A ! i) = Returned e \<or> ac_serve (ag_conns A ! i) = Crashed \<Longrightarrow>
    Close (agent_conn i A) = Ret (cn, e') \<Longrightarrow>
    agent_step numCPU handler A (upd_conn i (\<lambda>c. c\<lparr>ac_serve := Closed\<rparr>) (put_conn i (close_conn cn) A))"
| base_cancel: "agent_step numCPU handler A
    (A\<lparr>ag_ctx := Some ErrCanceled,
       ag_conns := map (\<lambda>c. c\<lparr>ac_client := ctxCancel (Some ErrCanceled) (ac_client c)\<rparr>) (ag_conns A)\<rparr>)"

definition agent_reachable :: "nat \<Rightarrow> 'h handler \<Rightarrow> 'h agent \<Rightarrow> bool" where
  "agent_reachable numCPU handler A \<longleftrightarrow>
     (\<exists>zero h. rtranclp (agent_step numCPU handler) (agent_init zero numCPU h) A)"

section \<open>A connection as if it were alone\<close>

text \<open>The frames of connection \<open>i\<close> on their way, those that have gone furthest first.\<close>

definition frames_of :: "nat \<Rightarrow> 'h agent \<Rightarrow> frame list" where
  "frames_of i A =
     map snd (filter (\<lambda>x. fst x = i) (ag_busy A @ q_list (ag_queue A))) @
     (case ac_pending (ag_conns A ! i) of None \<Rightarrow> [] | Some f \<Rightarrow> [f])"

definition view :: "nat \<Rightarrow> 'h agent \<Rightarrow> 'h sys" where
  "view i A =
     \<lparr>sy_conn = agent_conn i A, sy_in = ac_in (ag_conns A ! i), sy_queue = frames_of i A,
      sy_serve = ac_serve (ag_conns A ! i)\<rparr>"

definition agent_inv :: "nat \<Rightarrow> 'h agent \<Rightarrow> bool" where
  "agent_inv numCPU A \<longleftrightarrow>
     q_inv (ag_queue A) \<and> length (q_elems (ag_queue A)) = numCPU * 2 \<and> length (ag_busy A) \<le> numCPU \<and>
     (\<forall>f \<in> set (ag_pool A). pool_frame f) \<and>
     (\<forall>x \<in> set (ag_busy A @ q_list (ag_queue A)). fst x < length (ag_conns A)) \<and>
     (\<forall>i < length (ag_conns A). \<exists>h0. sys_inv h0 (view i A))"

text \<open>The other connections may change the pool and the state of the handler.\<close>

lemma sys_inv_env:
  assumes "sys_inv h0 s" "\<forall>f \<in> set pool. pool_frame f"
  shows "\<exists>h1. sys_inv h1 (s\<lparr>sy_conn := (sy_conn s)\<lparr>cn_pool := pool, cn_h := h\<rparr>\<rparr>)"
proof -
  from assms have "sys_inv h (s\<lparr>sy_conn := (sy_conn s)\<lparr>cn_pool := pool, cn_h := h\<rparr>\<rparr>)"
    by (auto simp: sys_inv_def Let_def pool_ok_def)
  then show ?thesis by blast
qed

text \<open>A round of \<open>Serve\<close> does not look at the queue.\<close>

lemma Serve_iter_queue:
  "Serve_iter handler s =
     (let s' = Serve_iter handler (s\<lparr>sy_queue := []\<rparr>) in s'\<lparr>sy_queue := sy_queue s @ sy_queue s'\<rparr>)"
  by (cases s) (auto simp: Serve_iter_def Let_def split: option.split prod.split)

lemma Serve_iter_queue_cases:
  "sy_queue s = [] \<Longrightarrow> sy_queue (Serve_iter handler s) = [] \<or> (\<exists>f. sy_queue (Serve_iter handler s) = [f])"
  by (auto simp: Serve_iter_def Let_def split: option.split prod.split)

section \<open>Every connection behaves as if it were alone\<close>

lemma agent_invI:
  assumes "agent_inv n A" "length (ag_conns B) = length (ag_conns A)"
    and "q_inv (ag_queue B)" "length (q_elems (ag_queue B)) = n * 2" "length (ag_busy B) \<le> n"
    and "\<forall>f \<in> set (ag_pool B). pool_frame f"
    and "\<forall>x \<in> set (ag_busy B @ q_list (ag_queue B)). fst x < length (ag_conns A)"
    and "\<And>j. j < length (ag_conns A) \<Longrightarrow> j \<noteq> i \<Longrightarrow>
      view j B = (view j A)\<lparr>sy_conn := (sy_conn (view j A))\<lparr>cn_pool := ag_pool B, cn_h := ag_h B\<rparr>\<rparr>"
    and "i < length (ag_conns A) \<Longrightarrow> \<exists>h1. sys_inv h1 (view i B)"
  shows "agent_inv n B"
proof -
  have "\<exists>h1. sys_inv h1 (view j B)" if j: "j < length (ag_conns A)" for j
  proof (cases "j = i")
    case True
    with assms(9) j show ?thesis by blast
  next
    case False
    from assms(1) j obtain h0 where "sys_inv h0 (view j A)" by (auto simp: agent_inv_def)
    from sys_inv_env [OF this assms(6), of "ag_h B"] assms(8) [OF j False] show ?thesis by simp
  qed
  with assms(2-7) show ?thesis by (simp add: agent_inv_def)
qed

lemma put_conn_sel [simp]:
  "length (ag_conns (put_conn i cn A)) = length (ag_conns A)"
  "ag_queue (put_conn i cn A) = ag_queue A" "ag_busy (put_conn i cn A) = ag_busy A"
  "ag_pool (put_conn i cn A) = cn_pool cn" "ag_h (put_conn i cn A) = cn_h cn"
  "length (ag_conns (upd_conn i g A)) = length (ag_conns A)"
  "ag_queue (upd_conn i g A) = ag_queue A" "ag_busy (upd_conn i g A) = ag_busy A"
  "ag_pool (upd_conn i g A) = ag_pool A" "ag_h (upd_conn i g A) = ag_h A"
  by (simp_all add: put_conn_def upd_conn_def)

lemma put_conn_nth:
  "i < length (ag_conns A) \<Longrightarrow> ag_conns (put_conn i cn A) ! j =
     (if j = i then (ag_conns A ! i)\<lparr>ac_client := cn_client cn, ac_rw := cn_rw cn\<rparr> else ag_conns A ! j)"
  "i < length (ag_conns A) \<Longrightarrow> ag_conns (upd_conn i g A) ! j = (if j = i then g (ag_conns A ! i) else ag_conns A ! j)"
  by (auto simp: put_conn_def upd_conn_def nth_list_update)

lemma frames_of_cong:
  "ag_busy B @ q_list (ag_queue B) = ag_busy A @ q_list (ag_queue A) \<Longrightarrow>
   ac_pending (ag_conns B ! i) = ac_pending (ag_conns A ! i) \<Longrightarrow> frames_of i B = frames_of i A"
  by (simp add: frames_of_def del: filter_append map_append)

text \<open>What a change of the agent is for the views of its connections.\<close>

lemma view_put_conn:
  assumes "i < length (ag_conns A)"
  shows "view i (put_conn i cn A) = (view i A)\<lparr>sy_conn := cn\<rparr>"
    and "j \<noteq> i \<Longrightarrow> view j (put_conn i cn A) = (view j A)\<lparr>sy_conn := (sy_conn (view j A))\<lparr>cn_pool := cn_pool cn, cn_h := cn_h cn\<rparr>\<rparr>"
  using assms by (simp_all add: view_def agent_conn_def put_conn_nth frames_of_def)

lemma view_upd_conn:
  assumes "i < length (ag_conns A)"
  shows "view i (upd_conn i (\<lambda>c. c\<lparr>ac_serve := st\<rparr>) A) = (view i A)\<lparr>sy_serve := st\<rparr>"
    and "view i (upd_conn i (\<lambda>c. c\<lparr>ac_rw := w\<rparr>) A) = (view i A)\<lparr>sy_conn := (sy_conn (view i A))\<lparr>cn_rw := w\<rparr>\<rparr>"
    and "j \<noteq> i \<Longrightarrow> view j (upd_conn i g A) = view j A"
  using assms by (simp_all add: view_def agent_conn_def put_conn_nth frames_of_def)

lemma view_pool: "view i (A\<lparr>ag_pool := pool\<rparr>) = (view i A)\<lparr>sy_conn := (sy_conn (view i A))\<lparr>cn_pool := pool\<rparr>\<rparr>"
  by (simp add: view_def agent_conn_def frames_of_def)

lemma view_busy:
  assumes "ag_busy A = xs @ (i, f) # ys"
  shows "\<exists>fs gs. sy_queue (view i A) = fs @ f # gs \<and> view i (A\<lparr>ag_busy := xs @ ys\<rparr>) = (view i A)\<lparr>sy_queue := fs @ gs\<rparr>"
    and "j \<noteq> i \<Longrightarrow> view j (A\<lparr>ag_busy := xs @ ys\<rparr>) = view j A"
proof -
  let ?fr = "\<lambda>zs. map snd (filter (\<lambda>x. fst x = i) zs)"
  let ?tail = "?fr ys @ ?fr (q_list (ag_queue A)) @ (case ac_pending (ag_conns A ! i) of None \<Rightarrow> [] | Some f \<Rightarrow> [f])"
  have "sy_queue (view i A) = ?fr xs @ f # ?tail" "view i (A\<lparr>ag_busy := xs @ ys\<rparr>) = (view i A)\<lparr>sy_queue := ?fr xs @ ?tail\<rparr>"
    by (simp_all add: view_def agent_conn_def frames_of_def assms)
  then show "\<exists>fs gs. sy_queue (view i A) = fs @ f # gs \<and> view i (A\<lparr>ag_busy := xs @ ys\<rparr>) = (view i A)\<lparr>sy_queue := fs @ gs\<rparr>"
    by blast
  show "j \<noteq> i \<Longrightarrow> view j (A\<lparr>ag_busy := xs @ ys\<rparr>) = view j A"
    by (simp add: view_def agent_conn_def frames_of_def assms)
qed

lemma view_serve:
  fixes A :: "'h agent"
  assumes "i < length (ag_conns A)" "ac_pending (ag_conns A ! i) = None"
  shows "view i (agent_serve handler i A) = Serve_iter handler (view i A)"
    and "j \<noteq> i \<Longrightarrow> view j (agent_serve handler i A) = (view j A)\<lparr>sy_conn := (sy_conn (view j A))\<lparr>
      cn_pool := cn_pool (sy_conn (Serve_iter handler (view i A))), cn_h := cn_h (sy_conn (Serve_iter handler (view i A)))\<rparr>\<rparr>"
proof -
  let ?init = "\<lparr>sy_conn = agent_conn i A, sy_in = ac_in (ag_conns A ! i), sy_queue = [],
            sy_serve = ac_serve (ag_conns A ! i)\<rparr>"
  let ?s = "Serve_iter handler ?init" and ?B = "agent_serve handler i A"
  have s0: "(view i A)\<lparr>sy_queue := []\<rparr> = ?init" by (simp add: view_def)
  have conn: "ag_conns ?B ! j = (if j = i then (ag_conns A ! i)\<lparr>ac_client := cn_client (sy_conn ?s),
        ac_rw := cn_rw (sy_conn ?s), ac_in := sy_in ?s, ac_serve := sy_serve ?s,
        ac_pending := (case sy_queue ?s of [] \<Rightarrow> None | f # _ \<Rightarrow> Some f)\<rparr> else ag_conns A ! j)" for j
    using assms(1) by (simp add: agent_serve_def Let_def put_conn_nth)
  have sel: "ag_queue ?B = ag_queue A" "ag_busy ?B = ag_busy A" "ag_pool ?B = cn_pool (sy_conn ?s)" "ag_h ?B = cn_h (sy_conn ?s)"
    by (simp_all add: agent_serve_def Let_def)
  have "frames_of i ?B = frames_of i A @ sy_queue ?s"
    using Serve_iter_queue_cases [of ?init handler] assms(2) by (auto simp: frames_of_def sel conn)
  then show "view i ?B = Serve_iter handler (view i A)"
    unfolding Serve_iter_queue [of handler "view i A"] s0
    by (simp add: view_def agent_conn_def conn sel Let_def)
  have "sy_conn (Serve_iter handler (view i A)) = sy_conn ?s"
    unfolding Serve_iter_queue [of handler "view i A"] s0 by (simp add: Let_def)
  then show "j \<noteq> i \<Longrightarrow> view j ?B = (view j A)\<lparr>sy_conn := (sy_conn (view j A))\<lparr>
      cn_pool := cn_pool (sy_conn (Serve_iter handler (view i A))), cn_h := cn_h (sy_conn (Serve_iter handler (view i A)))\<rparr>\<rparr>"
    by (simp add: view_def agent_conn_def conn sel frames_of_def)
qed

lemma agent_serve_sel [simp]:
  "length (ag_conns (agent_serve handler i A)) = length (ag_conns A)"
  "ag_queue (agent_serve handler i A) = ag_queue A" "ag_busy (agent_serve handler i A) = ag_busy A"
  by (simp_all add: agent_serve_def Let_def)

lemma view_schedule:
  assumes "q_inv (ag_queue A)" "i < length (ag_conns A)" "ac_pending (ag_conns A ! i) = Some f"
    and "\<not> isFull (ag_queue A)" "Put_elem (i, f) (ag_queue A) = Ret q"
  shows "view j (upd_conn i (\<lambda>c. c\<lparr>ac_pending := None\<rparr>) (A\<lparr>ag_queue := q\<rparr>)) = view j A"
proof -
  from ring.putD [OF assms(1,4,5)] have "q_list q = q_list (ag_queue A) @ [(i, f)]" by simp
  with assms(2,3) show ?thesis
    by (simp add: view_def agent_conn_def frames_of_def put_conn_nth(2) [of i "A\<lparr>ag_queue := q\<rparr>"])
qed

lemma view_take:
  assumes "q_inv (ag_queue A)" "\<not> isEmpty (ag_queue A)" "Get_elem (ag_queue A) = Ret (x, q)"
  shows "view j (A\<lparr>ag_queue := q, ag_busy := ag_busy A @ [x]\<rparr>) = view j A"
proof -
  from ring.getD [OF assms] have "q_list (ag_queue A) = x # q_list q" by simp
  then show ?thesis by (simp add: view_def agent_conn_def frames_of_def)
qed

lemma view_cancel:
  "j < length (ag_conns A) \<Longrightarrow> view j (A\<lparr>ag_ctx := c, ag_conns := map (\<lambda>c. c\<lparr>ac_client := ctxCancel e (ac_client c)\<rparr>) (ag_conns A)\<rparr>) =
    (view j A)\<lparr>sy_conn := (sy_conn (view j A))\<lparr>cn_client := ctxCancel e (cn_client (sy_conn (view j A)))\<rparr>\<rparr>"
  by (simp add: view_def agent_conn_def frames_of_def)

lemma view_new_conn:
  "j < length (ag_conns A) \<Longrightarrow> view j (A\<lparr>ag_conns := ag_conns A @ [c]\<rparr>) = view j A"
  by (simp add: view_def agent_conn_def frames_of_def nth_append)

lemma agent_inv_serve:
  assumes "agent_inv n A" "handler_ok handler" "i < length (ag_conns A)"
    and "ac_serve (ag_conns A ! i) = Serving" "ac_pending (ag_conns A ! i) = None"
  shows "agent_inv n (agent_serve handler i A)" (is "agent_inv n ?B")
proof -
  from assms(1,3) obtain h0 where "sys_inv h0 (view i A)" by (auto simp: agent_inv_def)
  from Serve_iter_inv [OF assms(2) this] assms(4) have inv: "sys_inv h0 (view i ?B)"
    by (simp add: view_serve(1) [OF assms(3,5)]) (simp add: view_def)
  have "sy_conn (view i ?B) = agent_conn i ?B" by (simp add: view_def)
  then have B: "ag_pool ?B = cn_pool (sy_conn (view i ?B))" "ag_h ?B = cn_h (sy_conn (view i ?B))"
    by (simp_all add: agent_conn_def)
  then have "\<forall>f \<in> set (ag_pool ?B). pool_frame f" using inv by (simp add: sys_inv_def pool_ok_def Let_def)
  with assms(1) inv B view_serve [OF assms(3,5), where handler = handler] show ?thesis
    by (intro agent_invI [OF assms(1), where i = i]) (auto simp: agent_inv_def)
qed

lemma agent_inv_views:
  assumes "agent_inv n A" "length (ag_conns B) = length (ag_conns A)" "\<And>j. view j B = view j A"
    and "q_inv (ag_queue B)" "length (q_elems (ag_queue B)) = n * 2" "length (ag_busy B) \<le> n" "ag_pool B = ag_pool A"
    and "set (ag_busy B @ q_list (ag_queue B)) \<subseteq> insert x (set (ag_busy A @ q_list (ag_queue A)))" "fst x < length (ag_conns A)"
  shows "agent_inv n B"
  using assms unfolding agent_inv_def by auto

lemma agent_inv_schedule:
  assumes "agent_inv n A" "i < length (ag_conns A)" "ac_pending (ag_conns A ! i) = Some f"
    and "\<not> isFull (ag_queue A)" "Put_elem (i, f) (ag_queue A) = Ret q"
  shows "agent_inv n (upd_conn i (\<lambda>c. c\<lparr>ac_pending := None\<rparr>) (A\<lparr>ag_queue := q\<rparr>))"
proof -
  from assms(1) have "q_inv (ag_queue A)" by (simp add: agent_inv_def)
  from ring.putD [OF this assms(4,5)] view_schedule [OF this assms(2-5)] assms(1,2) show ?thesis
    by (intro agent_inv_views [OF assms(1), where x = "(i, f)"]) (auto simp: agent_inv_def)
qed

lemma agent_inv_take:
  assumes "agent_inv n A" "length (ag_busy A) < n" "\<not> isEmpty (ag_queue A)" "Get_elem (ag_queue A) = Ret (x, q)"
  shows "agent_inv n (A\<lparr>ag_queue := q, ag_busy := ag_busy A @ [x]\<rparr>)"
proof -
  from assms(1) have "q_inv (ag_queue A)" by (simp add: agent_inv_def)
  from ring.getD [OF this assms(3,4)] view_take [OF this assms(3,4)] assms(1,2) show ?thesis
    by (intro agent_inv_views [OF assms(1), where x = x]) (auto simp: agent_inv_def)
qed

lemma agent_inv_work:
  assumes "agent_inv n A" "handler_ok handler" "ag_busy A = xs @ (i, f) # ys"
    and "wrapPanic (frameHandler handler f (agent_conn i A)) = (cn, err)"
  shows "agent_inv n (put_conn i cn (A\<lparr>ag_busy := xs @ ys\<rparr>))" (is "agent_inv n ?B")
proof -
  from assms(1,3) have i: "i < length (ag_conns A)" by (auto simp: agent_inv_def)
  with assms(1) obtain h0 where inv: "sys_inv h0 (view i A)" by (auto simp: agent_inv_def)
  obtain fs gs where q: "sy_queue (view i A) = fs @ f # gs"
    "view i (A\<lparr>ag_busy := xs @ ys\<rparr>) = (view i A)\<lparr>sy_queue := fs @ gs\<rparr>" using view_busy(1) [OF assms(3)] by blast
  from view_put_conn(1) [of i "A\<lparr>ag_busy := xs @ ys\<rparr>" cn] i q(2)
  have v: "view i ?B = (view i A)\<lparr>sy_conn := cn, sy_queue := fs @ gs\<rparr>" by simp
  from sstep.work [OF q(1), of handler cn err] assms(4) have "sstep handler (view i A) (view i ?B)"
    unfolding v by (simp add: view_def)
  from sstep_inv [OF this assms(2) inv] have inv': "sys_inv h0 (view i ?B)" .
  then have "\<forall>f \<in> set (cn_pool cn). pool_frame f" unfolding v by (simp add: sys_inv_def pool_ok_def Let_def)
  with assms(1,3) inv' view_put_conn(2) [of i "A\<lparr>ag_busy := xs @ ys\<rparr>"] i view_busy(2) [OF assms(3)] show ?thesis
    by (intro agent_invI [OF assms(1), where i = i]) (auto simp: agent_inv_def)
qed

lemma agent_inv_close:
  fixes A :: "'h agent" and handler :: "'h handler"
  assumes "agent_inv n A" "handler_ok handler" "i < length (ag_conns A)"
    and "ac_serve (ag_conns A ! i) = Returned e \<or> ac_serve (ag_conns A ! i) = Crashed"
    and "Close (agent_conn i A) = Ret (cn, e')"
  shows "agent_inv n (upd_conn i (\<lambda>c. c\<lparr>ac_serve := Closed\<rparr>) (put_conn i (close_conn cn) A))" (is "agent_inv n ?B")
proof -
  from assms(1,3) obtain h0 where inv: "sys_inv h0 (view i A)" by (auto simp: agent_inv_def)
  have v: "view i ?B = (view i A)\<lparr>sy_conn := close_conn cn, sy_serve := Closed\<rparr>"
    using assms(3) view_upd_conn(1) [of i "put_conn i (close_conn cn) A"] view_put_conn(1) [OF assms(3), of "close_conn cn"] by simp
  have "sstep handler (view i A) (view i ?B)"
    unfolding v using assms(4,5) by (intro sstep.close) (simp_all add: view_def)
  from sstep_inv [OF this assms(2) inv] have inv': "sys_inv h0 (view i ?B)" .
  then have "\<forall>f \<in> set (cn_pool (close_conn cn)). pool_frame f" unfolding v by (simp add: sys_inv_def pool_ok_def Let_def)
  with assms(1) inv' view_put_conn(2) [OF assms(3), of _ "close_conn cn"]
    view_upd_conn(3) [of i "put_conn i (close_conn cn) A"] assms(3) show ?thesis
    by (intro agent_invI [OF assms(1), where i = i]) (auto simp: agent_inv_def)
qed

lemma agent_inv_cancel:
  fixes A :: "'h agent" and handler :: "'h handler"
  assumes "agent_inv n A" "handler_ok handler"
  shows "agent_inv n (A\<lparr>ag_ctx := Some ErrCanceled,
    ag_conns := map (\<lambda>c. c\<lparr>ac_client := ctxCancel (Some ErrCanceled) (ac_client c)\<rparr>) (ag_conns A)\<rparr>)" (is "agent_inv n ?B")
proof -
  have "\<exists>h0. sys_inv h0 (view j ?B)" if j: "j < length (ag_conns A)" for j
  proof -
    from assms(1) j obtain h0 where inv: "sys_inv h0 (view j A)" by (auto simp: agent_inv_def)
    from sstep_inv [OF sstep.base_cancel [of handler "view j A" "Some ErrCanceled"] assms(2) inv] show ?thesis
      unfolding view_cancel [OF j] by auto
  qed
  with assms(1) show ?thesis by (simp add: agent_inv_def)
qed

lemma agent_inv_new_conn:
  fixes A :: "'h agent"
  assumes "agent_inv n A"
  shows "agent_inv n (A\<lparr>ag_conns := ag_conns A @ [new_conn ctx input room]\<rparr>)" (is "agent_inv n ?B")
proof -
  have bound: "\<forall>x \<in> set (ag_busy A @ q_list (ag_queue A)). fst x < length (ag_conns A)"
    using assms by (simp add: agent_inv_def)
  have "\<exists>h0. sys_inv h0 (view j ?B)" if "j < length (ag_conns ?B)" for j
  proof (cases "j < length (ag_conns A)")
    case True
    have "frames_of j ?B = frames_of j A" by (rule frames_of_cong) (simp_all add: nth_append True)
    then have "view j ?B = view j A" by (simp add: view_def agent_conn_def nth_append True)
    with assms True show ?thesis by (simp add: agent_inv_def)
  next
    case False
    with that have j: "j = length (ag_conns A)" by simp
    have "filter (\<lambda>x. fst x = j) (ag_busy A @ q_list (ag_queue A)) = []"
      using bound unfolding j filter_empty_conv by (metis less_irrefl)
    then have "frames_of j ?B = []" by (simp add: frames_of_def j new_conn_def)
    then have "sys_start (view j ?B)" using assms
      by (auto simp: sys_start_def view_def agent_conn_def j new_conn_def pool_ok_def agent_inv_def)
    from sys_inv_start [OF this] show ?thesis by blast
  qed
  moreover have "\<forall>x \<in> set (ag_busy ?B @ q_list (ag_queue ?B)). fst x < length (ag_conns ?B)"
    using bound by (force simp: less_Suc_eq)
  ultimately show ?thesis using assms unfolding agent_inv_def by simp
qed

lemma agent_inv_accept: "agent_inv n A \<Longrightarrow> agent_inv n (agent_accept acc A)"
proof -
  assume inv: "agent_inv n A"
  have "agent_inv n (A\<lparr>ag_returned := e\<rparr>)" for e
    using inv by (simp add: agent_inv_def view_def frames_of_def agent_conn_def)
  with inv agent_inv_new_conn [OF inv] show ?thesis
    by (auto simp: agent_accept_def split: accepted.split option.split prod.split)
qed

lemma worker_step_inv: "worker_step n handler A B \<Longrightarrow> handler_ok handler \<Longrightarrow> agent_inv n A \<Longrightarrow> agent_inv n B"
  by (cases rule: worker_step.cases) (auto intro: agent_inv_schedule agent_inv_take agent_inv_work)

lemma agent_step_inv: "agent_step n handler A B \<Longrightarrow> handler_ok handler \<Longrightarrow> agent_inv n A \<Longrightarrow> agent_inv n B"
  by (cases rule: agent_step.cases)
    (auto intro: agent_inv_accept agent_inv_serve worker_step_inv agent_inv_close agent_inv_cancel)

lemma agent_inv_init: "agent_inv n (agent_init zero n h)"
  using newAsyncScheduler_init [of zero n]
  by (simp add: agent_inv_def agent_init_def mo_inv_def del: length_q_list)

lemma agent_reachable_inv:
  assumes "agent_reachable n handler A" "handler_ok handler"
  shows "agent_inv n A"
proof -
  from assms(1) obtain zero h where "rtranclp (agent_step n handler) (agent_init zero n h) A"
    by (auto simp: agent_reachable_def)
  then show ?thesis by (induction rule: rtranclp_induct) (auto intro: agent_inv_init agent_step_inv assms(2))
qed

text \<open>In every reachable state of an agent with any number of connections, under every
  interleaving of accepting, the connections' \<open>Serve\<close>, the workers, cancellation and closing, where a
  worker's handling of a frame is one step (as for clients that wait for their answers, theory
  \<open>SpopWrites\<close>), every connection has sent only whole frames that belong to it: nothing before its own AGENT-HELLO while
  it is served, and no ACK above the frame size that this connection negotiated.\<close>

lemma agent_output:
  assumes "handler_ok handler" and "agent_reachable numCPU handler A" and "i < length (ag_conns A)"
  shows "let n = c_maxFrameSize (ac_client (ag_conns A ! i)); w = ac_rw (ag_conns A ! i) in
    \<exists>frs. wire_log n w frs \<and>
      (ac_serve (ag_conns A ! i) = Serving \<longrightarrow>
        (if c_gotHello (ac_client (ag_conns A ! i)) then size_ok n \<and> (\<exists>more. frs = hello_frame n # more)
         else sk_out w = []))"
proof -
  from agent_reachable_inv [OF assms(2,1)] assms(3) obtain h0 where "sys_inv h0 (view i A)"
    by (auto simp: agent_inv_def)
  then show ?thesis unfolding sys_inv_def Let_def by (simp add: view_def agent_conn_def) metis
qed

text \<open>An agent with one connection, whose first round of \<open>Serve\<close> reads a HELLO.\<close>

definition demo_agent :: "nat \<times> frame \<Rightarrow> nat agent" where
  "demo_agent zero =
     agent_serve demo_handler 0 (agent_accept (Accepted (Some (None, None)) (sy_in demo_sys) None) (agent_init zero 1 0))"

lemma demo_agent_reachable: "agent_reachable 1 demo_handler (demo_agent zero)" "length (ag_conns (demo_agent zero)) = 1"
proof -
  let ?A = "agent_init zero 1 0 :: nat agent"
  let ?B = "agent_accept (Accepted (Some (None, None)) (sy_in demo_sys) None) ?A"
  have "agent_step 1 demo_handler ?A ?B" by (rule agent_step.accept) (simp add: agent_init_def)
  moreover have "agent_step 1 demo_handler ?B (agent_serve demo_handler 0 ?B)"
    by (rule agent_step.serve) (simp_all add: agent_accept_def agent_init_def new_conn_def)
  ultimately have "rtranclp (agent_step 1 demo_handler) ?A (agent_serve demo_handler 0 ?B)"
    by (meson converse_rtranclp_into_rtranclp rtranclp.rtrancl_refl)
  then show "agent_reachable 1 demo_handler (demo_agent zero)"
    unfolding agent_reachable_def demo_agent_def by blast
  show "length (ag_conns (demo_agent zero)) = 1"
    by (simp add: demo_agent_def agent_serve_def Let_def agent_accept_def agent_init_def)
qed

section \<open>The workers finish what was accepted\<close>

text \<open>What is left to do: three steps for a frame that waits, two for a queued one, one for a busy worker.\<close>

definition waiting :: "aconn \<Rightarrow> nat" where
  "waiting c = (case ac_pending c of None \<Rightarrow> 0 | Some f \<Rightarrow> 1)"

definition outstanding :: "'h agent \<Rightarrow> nat" where
  "outstanding A = 3 * sum_list (map waiting (ag_conns A)) + 2 * q_size (ag_queue A) + length (ag_busy A)"

lemma outstanding_eq: "outstanding A = 3 * sum_list (map waiting (ag_conns A)) +
    2 * length (q_list (ag_queue A)) + length (ag_busy A)"
  by (simp add: outstanding_def)

lemma waiting_same:
  "i < length cs \<Longrightarrow> ac_pending c = ac_pending (cs ! i) \<Longrightarrow> map waiting (cs[i := c]) = map waiting cs"
  by (simp add: map_update waiting_def list_update_same_conv)

lemma waiting_scheduled:
  assumes "i < length cs" "ac_pending (cs ! i) = Some f"
  shows "sum_list (map waiting (cs[i := (cs ! i)\<lparr>ac_pending := None\<rparr>])) + 1 = sum_list (map waiting cs)"
proof -
  have "waiting (cs ! i) \<le> sum_list (map waiting cs)"
    using assms(1) by (intro member_le_sum_list) simp_all
  with assms show ?thesis by (simp add: map_update sum_list_update waiting_def)
qed

lemma worker_step_outstanding:
  assumes "worker_step n handler A B" "agent_inv n A"
  shows "outstanding B < outstanding A"
  using assms(1)
proof cases
  case (schedule i f q)
  from assms(2) have "q_inv (ag_queue A)" by (simp add: agent_inv_def)
  from ring.putD [OF this schedule(4,5)] have "length (q_list q) = length (q_list (ag_queue A)) + 1" by simp
  with waiting_scheduled [OF schedule(2,3)] schedule(1) show ?thesis
    by (simp add: outstanding_def upd_conn_def)
next
  case (take x q)
  from assms(2) have "q_inv (ag_queue A)" by (simp add: agent_inv_def)
  from ring.getD [OF this take(3,4)] have "length (q_list (ag_queue A)) = length (q_list q) + 1" by simp
  with take(1) show ?thesis by (simp add: outstanding_def)
next
  case (work xs i f ys cn err)
  from assms(2) work(2) have "i < length (ag_conns A)" by (auto simp: agent_inv_def)
  with work show ?thesis by (simp add: outstanding_def put_conn_def waiting_same)
qed

lemma worker_step_enabled:
  assumes "agent_inv n A" "0 < n" "outstanding A \<noteq> 0"
  shows "\<exists>B. worker_step n handler A B"
proof -
  from assms(1) have q: "q_inv (ag_queue A)" "length (q_elems (ag_queue A)) = n * 2" by (simp_all add: agent_inv_def)
  consider (busy) x where "x \<in> set (ag_busy A)" | (queued) "ag_busy A = []" "\<not> isEmpty (ag_queue A)"
    | (pending) "ag_busy A = []" "isEmpty (ag_queue A)" by (cases "ag_busy A") auto
  then show ?thesis
  proof cases
    case busy
    then obtain xs i f ys where "ag_busy A = xs @ (i, f) # ys" by (metis split_list surj_pair)
    moreover obtain cn err where "wrapPanic (frameHandler handler f (agent_conn i A)) = (cn, err)" by (metis surj_pair)
    ultimately show ?thesis by (blast intro: worker_step.work)
  next
    case queued
    from ring.get_ok [OF q(1) queued(2)] obtain x q' where "Get_elem (ag_queue A) = Ret (x, q')" by blast
    with queued assms(2) have "worker_step n handler A (A\<lparr>ag_queue := q', ag_busy := ag_busy A @ [x]\<rparr>)"
      by (intro worker_step.take) simp_all
    then show ?thesis by blast
  next
    case pending
    from pending(2) have "q_size (ag_queue A) = 0" by (simp add: isEmpty_def)
    with assms(3) pending(1) have "sum_list (map waiting (ag_conns A)) \<noteq> 0" by (simp add: outstanding_def)
    then obtain i where i: "i < length (ag_conns A)" "waiting (ag_conns A ! i) \<noteq> 0"
      by (auto simp: sum_list_eq_0_iff in_set_conv_nth)
    then obtain f where f: "ac_pending (ag_conns A ! i) = Some f" by (auto simp: waiting_def split: option.splits)
    have nf: "\<not> isFull (ag_queue A)" using \<open>q_size (ag_queue A) = 0\<close> q(2) assms(2) by (simp add: isFull_def)
    from ring.put_ok [OF q(1) nf] obtain q' where "Put_elem (i, f) (ag_queue A) = Ret q'" by blast
    with i f nf show ?thesis by (blast intro: worker_step.schedule)
  qed
qed

lemma outstanding_frames: "outstanding A = 0 \<Longrightarrow> i < length (ag_conns A) \<Longrightarrow> frames_of i A = []"
proof -
  assume o: "outstanding A = 0" and i: "i < length (ag_conns A)"
  from o have "ag_busy A = []" "q_list (ag_queue A) = []" by (simp_all add: outstanding_eq del: length_q_list)
  moreover from o i have "waiting (ag_conns A ! i) = 0" by (simp add: outstanding_def)
  ultimately show ?thesis by (simp add: frames_of_def waiting_def split: option.splits)
qed

lemma worker_steps_outstanding:
  assumes "(worker_step n handler ^^ k) A B" "handler_ok handler" "agent_inv n A"
  shows "agent_inv n B \<and> k + outstanding B \<le> outstanding A"
  using assms(1)
proof (induction k arbitrary: B)
  case (Suc k)
  then obtain C where C: "(worker_step n handler ^^ k) A C" "worker_step n handler C B" by auto
  from Suc.IH [OF C(1)] have "agent_inv n C" "k + outstanding C \<le> outstanding A" by simp_all
  with worker_step_outstanding [OF C(2)] worker_step_inv [OF C(2) assms(2)] show ?case by auto
qed (use assms(3) in simp)

text \<open>C12: the workers finish: from every reachable state of an agent with at least one processor,
  whatever the handler does, panics included, the workers make at most \<open>outstanding\<close> steps until
  new frames arrive; and where they can make none, no frame of any connection is waiting, queued
  or being handled.\<close>

theorem agent_drains:
  assumes "handler_ok handler" and "agent_reachable numCPU handler A" and "0 < numCPU"
    and "(worker_step numCPU handler ^^ k) A B"
  shows "k \<le> outstanding A \<and>
    ((\<exists>C. worker_step numCPU handler B C) \<or> (\<forall>i < length (ag_conns B). frames_of i B = []))"
  using worker_steps_outstanding [OF assms(4,1) agent_reachable_inv [OF assms(2,1)]]
    worker_step_enabled [OF _ assms(3)] outstanding_frames by fastforce

lemma agent_drains_witness:
  "\<forall>zero. (\<exists>C. worker_step 1 demo_handler (demo_agent zero) C) \<or>
     (\<forall>i < length (ag_conns (demo_agent zero)). frames_of i (demo_agent zero) = [])"
proof
  fix zero
  have "(worker_step 1 demo_handler ^^ 0) (demo_agent zero) (demo_agent zero)" by simp
  from agent_drains [OF demo_ok(2) demo_agent_reachable(1) _ this]
  show "(\<exists>C. worker_step 1 demo_handler (demo_agent zero) C) \<or>
     (\<forall>i < length (ag_conns (demo_agent zero)). frames_of i (demo_agent zero) = [])" by simp
qed

end
