(* ===== verification/KVUnmarshal.thy ===== *)
theory KVUnmarshal
  imports KVScanner
begin

text \<open>
  Unmarshalling of a key-value list into a struct (pkg/encoding/kvunmarshal.go). What reflection
  shows of a Go value is data here: the types the code distinguishes, the values of a field, and a
  struct as the list of its fields with name, \<open>spoe\<close> tag, type and value. A field is settable when
  it is exported.
\<close>

section \<open>Accessors of an entry (kvscanner.go)\<close>

definition NameBytes :: "kventry \<Rightarrow> byte list" where
  "NameBytes k = ke_name k"

definition ValueBytes :: "kventry \<Rightarrow> byte list" where
  "ValueBytes k = ke_byteVal k"

definition ValueInt :: "kventry \<Rightarrow> u64" where
  "ValueInt k = ke_intVal k"

definition ValueBool :: "kventry \<Rightarrow> bool" where
  "ValueBool k = ke_boolVar k"

definition KVEntry_Type :: "kventry \<Rightarrow> byte" where
  "KVEntry_Type k = ke_dataType k"

lemmas entry_accessors = NameBytes_def ValueBytes_def ValueInt_def ValueBool_def KVEntry_Type_def

section \<open>Structs as data\<close>

datatype go_type =
    TString | TBytes | TSlice string | TInt32 | TInt64 | TUint32 | TUint64 | TBool | TAddr
  | TPtr go_type | TOther string

datatype go_val =
    GString "byte list" | GBytes "byte list" | GInt32 u32 | GInt64 u64 | GUint32 u32 | GUint64 u64
  | GBool bool | GAddr addr | GPtr "go_val option" | GOther string

fun is_ptr :: "go_type \<Rightarrow> bool" where
  "is_ptr (TPtr t) = True"
| "is_ptr _ = False"

record go_field =
  fd_name :: string
  fd_tag :: "byte list"
  fd_settable :: bool
  fd_type :: go_type
  fd_val :: go_val

text \<open>The argument of \<open>Unmarshal\<close>: a pointer that is not nil points to a struct or to something else.\<close>

datatype target = NotPointer | NilPointer | ToOther | ToStruct "go_field list"

section \<open>Setting a field\<close>

text \<open>\<open>SetInt\<close> and \<open>SetUint\<close> on a 32-bit field keep the low 32 bits.\<close>

definition setValue :: "go_type \<Rightarrow> go_val \<Rightarrow> kventry \<Rightarrow> (go_val \<times> gerr option) option" where
  "setValue ty old entry =
     (let t = ke_dataType entry; bad = (\<lambda>msg. Ret (old, Some (ErrFormatNat msg (unat t)))) in
      case ty of
        TString \<Rightarrow>
          if t \<noteq> DataTypeString then bad ''expected string''
          else (case KVEntry_Value entry of Some (VString s) \<Rightarrow> Ret (GString s, None) | _ \<Rightarrow> Panic)
      | TSlice e \<Rightarrow> Ret (old, Some (ErrFormat ''unsupported slice type''))
      | TBytes \<Rightarrow>
          if t \<noteq> DataTypeString \<and> t \<noteq> DataTypeBinary then bad ''expected string or binary''
          else Ret (GBytes (ValueBytes entry), None)
      | TInt32 \<Rightarrow> if t \<noteq> DataTypeInt32 then bad ''expected int32'' else Ret (GInt32 (ucast (ValueInt entry)), None)
      | TInt64 \<Rightarrow> if t \<noteq> DataTypeInt64 then bad ''expected int64'' else Ret (GInt64 (ValueInt entry), None)
      | TUint32 \<Rightarrow> if t \<noteq> DataTypeUInt32 then bad ''expected uint32'' else Ret (GUint32 (ucast (ValueInt entry)), None)
      | TUint64 \<Rightarrow> if t \<noteq> DataTypeUInt64 then bad ''expected uint64'' else Ret (GUint64 (ValueInt entry), None)
      | TBool \<Rightarrow> if t \<noteq> DataTypeBool then bad ''expected bool'' else Ret (GBool (ValueBool entry), None)
      | TAddr \<Rightarrow>
          if t \<noteq> DataTypeIPV4 \<and> t \<noteq> DataTypeIPV6 then bad ''expected IP address''
          else do { addr \<leftarrow> ValueAddr entry; Ret (GAddr addr, None) }
      | TPtr e \<Rightarrow> Ret (old, Some (ErrFormat ''unsupported field type''))
      | TOther e \<Rightarrow> Ret (old, Some (ErrFormat ''unsupported field type'')))"

text \<open>\<open>reflect.New(elemType).Elem()\<close>: a zero value of the type, which \<open>setValue\<close> overwrites.\<close>

definition setFieldValue :: "go_type \<Rightarrow> go_val \<Rightarrow> kventry \<Rightarrow> (go_val \<times> gerr option) option" where
  "setFieldValue ty old entry =
     (case ty of
        TPtr elemType \<Rightarrow>
          if ke_dataType entry = DataTypeNull then Ret (GPtr None, None)
          else do {
            (elemValue, err) \<leftarrow> setValue elemType (GOther ''zero'') entry;
            if err \<noteq> None then Ret (old, err) else Ret (GPtr (Some elemValue), None)
          }
      | _ \<Rightarrow> setValue ty old entry)"

section \<open>Unmarshal\<close>

fun IndexByte :: "byte list \<Rightarrow> byte \<Rightarrow> nat option" where
  "IndexByte [] c = None"
| "IndexByte (x # xs) c = (if x = c then Some 0 else map_option Suc (IndexByte xs c))"

definition tag_key :: "byte list \<Rightarrow> byte list" where
  "tag_key tag = (case IndexByte tag 44 of Some commaIdx \<Rightarrow> take commaIdx tag | None \<Rightarrow> tag)"

text \<open>The loop over the fields of the struct: key, index, and whether the field is a pointer.\<close>

fun field_infos :: "nat \<Rightarrow> go_field list \<Rightarrow> (byte list \<times> nat \<times> bool) list" where
  "field_infos i [] = []"
| "field_infos i (f # fs) =
     (if fd_tag f = [] \<or> fd_tag f = [45] then field_infos (i + 1) fs
      else if tag_key (fd_tag f) \<noteq> [] then
        (tag_key (fd_tag f), i, is_ptr (fd_type f)) # field_infos (i + 1) fs
      else field_infos (i + 1) fs)"

definition pointer_indices :: "(byte list \<times> nat \<times> bool) list \<Rightarrow> nat list" where
  "pointer_indices infos = map (\<lambda>(key, i, p). i) (filter (\<lambda>(key, i, p). p) infos)"

text \<open>The body of the loop over the entries: struct and set pointer infos, and an error that returns.\<close>

definition unmarshal_entry ::
  "(byte list \<times> nat \<times> bool) list \<Rightarrow> kventry \<Rightarrow> go_field list \<times> nat set \<Rightarrow>
   ((go_field list \<times> nat set) \<times> gerr option) option" where
  "unmarshal_entry infos entry st =
     (case st of (fs, setPointerFields) \<Rightarrow>
        (case find (\<lambda>(key, i, p). NameEquals entry key) infos of
           None \<Rightarrow> Ret ((fs, setPointerFields), None)
         | Some (key, i, p) \<Rightarrow>
             if \<not> fd_settable (fs ! i) then
               Ret ((fs, setPointerFields), Some (ErrFormat (''field '' @ fd_name (fs ! i) @ '' is not settable'')))
             else do {
               (v, err) \<leftarrow> setFieldValue (fd_type (fs ! i)) (fd_val (fs ! i)) entry;
               case err of
                 Some e \<Rightarrow> Ret ((fs, setPointerFields), Some (ErrWrap (''field '' @ fd_name (fs ! i)) e))
               | None \<Rightarrow>
                   Ret ((fs[i := (fs ! i)\<lparr>fd_val := v\<rparr>],
                         if p then insert i setPointerFields else setPointerFields), None)
             }))"

text \<open>The last loop; \<open>Set\<close> panics on a field that is not exported.\<close>

fun clear_pointers :: "nat list \<Rightarrow> nat set \<Rightarrow> go_field list \<Rightarrow> go_field list option" where
  "clear_pointers [] setPointerFields fs = Ret fs"
| "clear_pointers (i # is) setPointerFields fs =
     (if i \<in> setPointerFields then clear_pointers is setPointerFields fs
      else if \<not> fd_settable (fs ! i) then Panic
      else clear_pointers is setPointerFields (fs[i := (fs ! i)\<lparr>fd_val := GPtr None\<rparr>]))"

definition Unmarshal :: "kvscanner \<Rightarrow> target \<Rightarrow> (kvscanner \<times> target \<times> gerr option) option" where
  "Unmarshal k v =
     (case v of
        NotPointer \<Rightarrow> Ret (k, v, Some (ErrFormat ''unmarshal target must be a non-nil pointer to struct''))
      | NilPointer \<Rightarrow> Ret (k, v, Some (ErrFormat ''unmarshal target must be a non-nil pointer to struct''))
      | ToOther \<Rightarrow> Ret (k, v, Some (ErrFormat ''unmarshal target must be a pointer to struct''))
      | ToStruct fs \<Rightarrow>
          let infos = field_infos 0 fs in
          do {
            (k, (fs, setPointerFields), res) \<leftarrow> ForNext (unmarshal_entry infos) k NewKVEntry (fs, {});
            case res of
              Some e \<Rightarrow> Ret (k, ToStruct fs, Some e)
            | None \<Rightarrow>
                (case KVScanner_Error k of
                   Some e \<Rightarrow> Ret (k, ToStruct fs, Some (ErrWrap ''scanner error'' e))
                 | None \<Rightarrow> do {
                     fs \<leftarrow> clear_pointers (pointer_indices infos) setPointerFields fs;
                     Ret (k, ToStruct fs, None)
                   })
          })"

section \<open>The reference\<close>

text \<open>The values a field of a type accepts, and what the field holds then.\<close>

fun decode_direct :: "go_type \<Rightarrow> kval \<Rightarrow> go_val option" where
  "decode_direct TString (VString s) = Some (GString s)"
| "decode_direct TBytes (VString s) = Some (GBytes s)"
| "decode_direct TBytes (VBinary s) = Some (GBytes s)"
| "decode_direct TInt32 (VInt32 w) = Some (GInt32 w)"
| "decode_direct TInt64 (VInt64 w) = Some (GInt64 w)"
| "decode_direct TUint32 (VUInt32 w) = Some (GUint32 w)"
| "decode_direct TUint64 (VUInt64 w) = Some (GUint64 w)"
| "decode_direct TBool (VBool b) = Some (GBool b)"
| "decode_direct TAddr (VAddr a) = Some (GAddr (drop_zone a))"
| "decode_direct _ _ = None"

definition decode_as :: "go_type \<Rightarrow> kval \<Rightarrow> go_val option" where
  "decode_as ty v =
     (case ty of
        TPtr e \<Rightarrow> if v = VNull then Some (GPtr None) else map_option (\<lambda>x. GPtr (Some x)) (decode_direct e v)
      | _ \<Rightarrow> decode_direct ty v)"

text \<open>The key a field is found by.\<close>

definition field_key :: "go_field \<Rightarrow> byte list option" where
  "field_key f =
     (if fd_tag f = [] \<or> fd_tag f = [45] \<or> tag_key (fd_tag f) = [] then None else Some (tag_key (fd_tag f)))"

text \<open>The last value that the entries give a field.\<close>

definition value_of :: "kv list \<Rightarrow> go_field \<Rightarrow> kval option" where
  "value_of kvs f = (case field_key f of None \<Rightarrow> None | Some k \<Rightarrow> map_of (rev kvs) k)"

text \<open>A field after the entries \<open>kvs\<close>, and a pointer field that no entry names.\<close>

definition loaded :: "kv list \<Rightarrow> go_field \<Rightarrow> go_field" where
  "loaded kvs f =
     (case value_of kvs f of
        None \<Rightarrow> f
      | Some v \<Rightarrow> f\<lparr>fd_val := the (decode_as (fd_type f) v)\<rparr>)"

definition unset_pointer :: "kv list \<Rightarrow> go_field \<Rightarrow> bool" where
  "unset_pointer kvs f \<longleftrightarrow>
     is_ptr (fd_type f) \<and> field_key f \<noteq> None \<and> value_of kvs f = None"

definition filled :: "kv list \<Rightarrow> go_field \<Rightarrow> go_field" where
  "filled kvs f = (if unset_pointer kvs f then f\<lparr>fd_val := GPtr None\<rparr> else loaded kvs f)"

definition accepts :: "go_field list \<Rightarrow> kv \<Rightarrow> bool" where
  "accepts fs kv \<longleftrightarrow> (\<forall>f \<in> set fs. field_key f = Some (fst kv) \<longrightarrow> decode_as (fd_type f) (snd kv) \<noteq> None)"

definition keys_distinct :: "go_field list \<Rightarrow> bool" where
  "keys_distinct fs \<longleftrightarrow> distinct (map fst (field_infos 0 fs))"

definition all_settable :: "go_field list \<Rightarrow> bool" where
  "all_settable fs \<longleftrightarrow> (\<forall>f \<in> set fs. field_key f \<noteq> None \<longrightarrow> fd_settable f)"

definition named_settable :: "go_field list \<Rightarrow> kv \<Rightarrow> bool" where
  "named_settable fs kv \<longleftrightarrow> (\<forall>f \<in> set fs. field_key f = Some (fst kv) \<longrightarrow> fd_settable f)"

lemma all_settable_named: "all_settable fs \<Longrightarrow> named_settable fs kv"
  by (simp add: all_settable_def named_settable_def)

section \<open>One field\<close>

lemma setValue_direct:
  assumes "wf_kv kv"
  shows "case decode_direct ty (snd kv) of
      Some v \<Rightarrow> setValue ty old (entry_of kv) = Ret (v, None)
    | None \<Rightarrow> \<exists>e. setValue ty old (entry_of kv) = Ret (old, Some e)"
proof (cases kv)
  case (Pair n v)
  with assms show ?thesis
    by (cases ty; cases v)
      (auto simp: setValue_def Let_def entry_of_def wire_defs entry_accessors KVEntry_Value_def ValueAddr_def
        wf_kv_def AddrFromSlice_AsSlice)
qed

lemma setFieldValue_decode:
  assumes "wf_kv kv"
  shows "case decode_as ty (snd kv) of
      Some v \<Rightarrow> setFieldValue ty old (entry_of kv) = Ret (v, None)
    | None \<Rightarrow> \<exists>e. setFieldValue ty old (entry_of kv) = Ret (old, Some e)"
proof (cases "\<exists>e. ty = TPtr e")
  case True
  then obtain e where ty: "ty = TPtr e" by blast
  have null: "ke_dataType (entry_of kv) = DataTypeNull \<longleftrightarrow> snd kv = VNull"
    by (cases "snd kv") (auto simp: entry_of_def wire_defs)
  show ?thesis
    using setValue_direct [OF assms, of e "GOther ''zero''"]
    by (auto simp: ty decode_as_def setFieldValue_def null split: option.splits)
next
  case False
  then have "decode_as ty (snd kv) = decode_direct ty (snd kv)"
    "setFieldValue ty old (entry_of kv) = setValue ty old (entry_of kv)"
    by (cases ty; simp add: decode_as_def setFieldValue_def)+
  then show ?thesis
    using setValue_direct [OF assms, of ty old] by (simp split: option.splits)
qed

section \<open>The fields of the struct\<close>

lemma field_infos_Cons:
  "field_infos n (f # fs) =
     (case field_key f of
        Some k \<Rightarrow> (k, n, is_ptr (fd_type f)) # field_infos (n + 1) fs
      | None \<Rightarrow> field_infos (n + 1) fs)"
  by (simp add: field_key_def)

lemma field_infos_iff:
  "(k, i, p) \<in> set (field_infos n fs) \<longleftrightarrow>
     (\<exists>j < length fs. i = n + j \<and> field_key (fs ! j) = Some k \<and> p = is_ptr (fd_type (fs ! j)))"
proof (induction fs arbitrary: n)
  case (Cons f fs)
  then show ?case
    by (auto simp: field_infos_Cons Ex_less_Suc2 simp del: field_infos.simps(2) split: option.splits)
qed simp

text \<open>The search of the loop finds the field of the key, or there is none.\<close>

lemma find_info_None:
  assumes "find (\<lambda>(key, i, p). NameEquals e key) (field_infos 0 fs) = None"
  shows "\<forall>f \<in> set fs. field_key f \<noteq> Some (ke_name e)"
proof
  fix f assume "f \<in> set fs"
  then obtain j where j: "j < length fs" "fs ! j = f" by (auto simp: in_set_conv_nth)
  show "field_key f \<noteq> Some (ke_name e)"
  proof
    assume "field_key f = Some (ke_name e)"
    with j have "(ke_name e, j, is_ptr (fd_type f)) \<in> set (field_infos 0 fs)"
      by (auto simp: field_infos_iff)
    with assms show False by (auto simp: find_None_iff NameEquals_iff)
  qed
qed

lemma find_info_Some:
  assumes "find (\<lambda>(key, i, p). NameEquals e key) (field_infos 0 fs) = Some (key, i, p)"
  shows "key = ke_name e" "i < length fs" "field_key (fs ! i) = Some (ke_name e)" "p = is_ptr (fd_type (fs ! i))"
proof -
  from assms have "(key, i, p) \<in> set (field_infos 0 fs)" "key = ke_name e"
    by (auto simp: find_Some_iff NameEquals_iff) (metis nth_mem)
  then show "key = ke_name e" "i < length fs" "field_key (fs ! i) = Some (ke_name e)" "p = is_ptr (fd_type (fs ! i))"
    by (auto simp: field_infos_iff)
qed

lemma keys_distinct_index:
  assumes "keys_distinct fs" "i < length fs" "j < length fs" "field_key (fs ! i) = Some k" "field_key (fs ! j) = Some k"
  shows "i = j"
proof -
  have "(k, i, is_ptr (fd_type (fs ! i))) \<in> set (field_infos 0 fs)"
    "(k, j, is_ptr (fd_type (fs ! j))) \<in> set (field_infos 0 fs)"
    using assms by (auto simp: field_infos_iff)
  with assms(1) have "(i, is_ptr (fd_type (fs ! i))) = (j, is_ptr (fd_type (fs ! j)))"
    unfolding keys_distinct_def by (rule eq_key_imp_eq_value)
  then show ?thesis by simp
qed

lemma value_of_snoc:
  "value_of (ps @ [kv]) f = (if field_key f = Some (fst kv) then Some (snd kv) else value_of ps f)"
  by (cases kv) (auto simp: value_of_def split: option.splits)

lemma loaded_sel [simp]:
  "fd_name (loaded ps f) = fd_name f" "fd_tag (loaded ps f) = fd_tag f"
  "fd_settable (loaded ps f) = fd_settable f" "fd_type (loaded ps f) = fd_type f"
  by (simp_all add: loaded_def split: option.splits)

lemma loaded_other: "field_key f \<noteq> Some (fst kv) \<Longrightarrow> loaded (ps @ [kv]) f = loaded ps f"
  by (simp add: loaded_def value_of_snoc)

lemma loaded_same:
  "field_key f = Some (fst kv) \<Longrightarrow> decode_as (fd_type f) (snd kv) = Some v \<Longrightarrow>
   loaded (ps @ [kv]) f = (loaded ps f)\<lparr>fd_val := v\<rparr>"
  by (simp add: loaded_def value_of_snoc split: option.splits)

text \<open>The pointer fields that the entries \<open>ps\<close> have set.\<close>

definition set_pointers :: "go_field list \<Rightarrow> kv list \<Rightarrow> nat set" where
  "set_pointers fs ps = {i. i < length fs \<and> is_ptr (fd_type (fs ! i)) \<and> value_of ps (fs ! i) \<noteq> None}"

lemma set_pointers_other:
  "\<forall>f \<in> set fs. field_key f \<noteq> Some (fst kv) \<Longrightarrow> set_pointers fs (ps @ [kv]) = set_pointers fs ps"
  by (auto simp: set_pointers_def value_of_snoc)

lemma set_pointers_same:
  assumes "keys_distinct fs" "i < length fs" "field_key (fs ! i) = Some (fst kv)"
  shows "set_pointers fs (ps @ [kv]) =
    (if is_ptr (fd_type (fs ! i)) then insert i (set_pointers fs ps) else set_pointers fs ps)"
proof -
  have "field_key (fs ! j) = Some (fst kv) \<longleftrightarrow> j = i" if "j < length fs" for j
    using keys_distinct_index [OF assms(1) that assms(2) _ assms(3)] assms(3) by blast
  with assms(2) show ?thesis
    by (auto simp: set_pointers_def value_of_snoc split: if_splits)
qed

section \<open>The loop over the entries\<close>

lemma unmarshal_entry_step:
  assumes "wf_kv kv" "keys_distinct fs" "named_settable fs kv"
  defines "st \<equiv> \<lambda>ps. (map (loaded ps) fs, set_pointers fs ps)"
  shows "if accepts fs kv then unmarshal_entry (field_infos 0 fs) (entry_of kv) (st ps) = Ret (st (ps @ [kv]), None)
    else \<exists>st' e. unmarshal_entry (field_infos 0 fs) (entry_of kv) (st ps) = Ret (st', Some e)"
proof (cases "find (\<lambda>(key, i, p). NameEquals (entry_of kv) key) (field_infos 0 fs)")
  case None
  from find_info_None [OF None] have other: "\<forall>f \<in> set fs. field_key f \<noteq> Some (fst kv)"
    by (simp add: entry_of_def)
  then have "accepts fs kv" by (simp add: accepts_def)
  with None other show ?thesis
    by (simp add: unmarshal_entry_def st_def set_pointers_other loaded_other)
next
  case (Some info)
  obtain key i p where info: "info = (key, i, p)" by (cases info)
  from find_info_Some [OF Some [unfolded info]]
  have i: "i < length fs" "field_key (fs ! i) = Some (fst kv)" "p = is_ptr (fd_type (fs ! i))"
    by (simp_all add: entry_of_def)
  from i assms(3) have settable: "fd_settable (fs ! i)" by (simp add: named_settable_def)
  have acc: "accepts fs kv \<longleftrightarrow> decode_as (fd_type (fs ! i)) (snd kv) \<noteq> None"
  proof -
    have "f = fs ! i" if "f \<in> set fs" "field_key f = Some (fst kv)" for f
    proof -
      from that(1) obtain j where j: "j < length fs" "fs ! j = f" by (auto simp: in_set_conv_nth)
      with keys_distinct_index [OF assms(2) j(1) i(1) _ i(2)] that(2) show ?thesis by simp
    qed
    with i show ?thesis by (auto simp: accepts_def)
  qed
  have upd: "(map (loaded ps) fs)[i := (loaded ps (fs ! i))\<lparr>fd_val := v\<rparr>] = map (loaded (ps @ [kv])) fs"
    if "decode_as (fd_type (fs ! i)) (snd kv) = Some v" for v
  proof (rule nth_equalityI)
    fix j assume "j < length ((map (loaded ps) fs)[i := (loaded ps (fs ! i))\<lparr>fd_val := v\<rparr>])"
    then have j: "j < length fs" by simp
    show "(map (loaded ps) fs)[i := (loaded ps (fs ! i))\<lparr>fd_val := v\<rparr>] ! j = map (loaded (ps @ [kv])) fs ! j"
    proof (cases "j = i")
      case True
      with i that show ?thesis by (simp add: loaded_same)
    next
      case False
      with keys_distinct_index [OF assms(2) j i(1) _ i(2)] have "field_key (fs ! j) \<noteq> Some (fst kv)" by blast
      with False j show ?thesis by (simp add: loaded_other)
    qed
  qed simp
  note decode = setFieldValue_decode [OF assms(1), of "fd_type (fs ! i)" "fd_val (loaded ps (fs ! i))"]
  show ?thesis
  proof (cases "decode_as (fd_type (fs ! i)) (snd kv)")
    case None
    with decode obtain e where
      "setFieldValue (fd_type (fs ! i)) (fd_val (loaded ps (fs ! i))) (entry_of kv) = Ret (fd_val (loaded ps (fs ! i)), Some e)"
      by auto
    with None show ?thesis
      by (simp add: acc unmarshal_entry_def st_def Some info i(1) settable)
  next
    case decoded: (Some v)
    with decode have
      "setFieldValue (fd_type (fs ! i)) (fd_val (loaded ps (fs ! i))) (entry_of kv) = Ret (v, None)"
      by simp
    with decoded show ?thesis
      by (simp add: acc unmarshal_entry_def st_def Some info i(1,3) settable upd set_pointers_same [OF assms(2) i(1,2)])
  qed
qed

lemma for_entries_unmarshal:
  assumes "\<forall>kv \<in> set kvs. wf_kv kv" "keys_distinct fs" "\<forall>kv \<in> set kvs. named_settable fs kv"
  defines "st \<equiv> \<lambda>ps. (map (loaded ps) fs, set_pointers fs ps)"
  shows "if \<forall>kv \<in> set kvs. accepts fs kv
    then for_entries (unmarshal_entry (field_infos 0 fs)) kvs (st ps) = Ret (st (ps @ kvs), None)
    else \<exists>st' e. for_entries (unmarshal_entry (field_infos 0 fs)) kvs (st ps) = Ret (st', Some e)"
  using assms(1,3)
proof (induction kvs arbitrary: ps)
  case (Cons kv kvs)
  show ?case
  proof (cases "accepts fs kv")
    case True
    with unmarshal_entry_step [OF _ assms(2), of kv ps] Cons.prems
    have "unmarshal_entry (field_infos 0 fs) (entry_of kv) (st ps) = Ret (st (ps @ [kv]), None)"
      by (simp add: st_def)
    with Cons.IH [of "ps @ [kv]"] Cons.prems True show ?thesis
      by (cases "\<forall>kv \<in> set kvs. accepts fs kv") auto
  next
    case False
    with unmarshal_entry_step [OF _ assms(2), of kv ps] Cons.prems
    obtain st' e where "unmarshal_entry (field_infos 0 fs) (entry_of kv) (st ps) = Ret (st', Some e)"
      by (auto simp: st_def)
    with False show ?thesis by simp
  qed
qed simp

section \<open>The last loop\<close>

lemma clear_pointers_eq:
  assumes "\<forall>i \<in> set is. i \<in> S \<or> fd_settable (fs ! i)" "\<forall>i \<in> set is. i < length fs"
  shows "clear_pointers is S fs =
    Ret (map (\<lambda>j. if j \<in> set is \<and> j \<notin> S then (fs ! j)\<lparr>fd_val := GPtr None\<rparr> else fs ! j) [0..<length fs])"
  using assms
proof (induction "is" arbitrary: fs)
  case Nil
  then show ?case by (simp add: map_nth)
next
  case (Cons i "is")
  show ?case
  proof (cases "i \<in> S")
    case True
    with Cons show ?thesis by (auto intro!: arg_cong [of _ _ Some] map_cong)
  next
    case False
    let ?fs = "fs[i := (fs ! i)\<lparr>fd_val := GPtr None\<rparr>]"
    have len: "length ?fs = length fs" by simp
    from Cons.prems have "\<forall>j \<in> set is. j \<in> S \<or> fd_settable (?fs ! j)" "\<forall>j \<in> set is. j < length ?fs"
      by (auto simp: nth_list_update)
    from Cons.IH [OF this] False Cons.prems show ?thesis
      by (auto simp: nth_list_update)
  qed
qed

lemma set_pointer_indices:
  "set (pointer_indices (field_infos 0 fs)) =
     {j. j < length fs \<and> field_key (fs ! j) \<noteq> None \<and> is_ptr (fd_type (fs ! j))}"
  by (force simp: pointer_indices_def field_infos_iff image_iff)

lemma clear_pointers_filled:
  assumes "all_settable fs"
  shows "clear_pointers (pointer_indices (field_infos 0 fs)) (set_pointers fs kvs) (map (loaded kvs) fs) =
    Ret (map (filled kvs) fs)"
proof -
  have "clear_pointers (pointer_indices (field_infos 0 fs)) (set_pointers fs kvs) (map (loaded kvs) fs) =
    Ret (map (\<lambda>j. if j \<in> set (pointer_indices (field_infos 0 fs)) \<and> j \<notin> set_pointers fs kvs
        then (map (loaded kvs) fs ! j)\<lparr>fd_val := GPtr None\<rparr> else map (loaded kvs) fs ! j)
      [0..<length (map (loaded kvs) fs)])"
    using assms by (intro clear_pointers_eq) (auto simp: set_pointer_indices all_settable_def)
  moreover have "map (\<lambda>j. if j \<in> set (pointer_indices (field_infos 0 fs)) \<and> j \<notin> set_pointers fs kvs
        then (map (loaded kvs) fs ! j)\<lparr>fd_val := GPtr None\<rparr> else map (loaded kvs) fs ! j)
      [0..<length (map (loaded kvs) fs)] = map (filled kvs) fs"
    by (rule nth_equalityI)
      (auto simp: set_pointer_indices set_pointers_def filled_def unset_pointer_def loaded_def split: option.splits)
  ultimately show ?thesis by simp
qed

lemma clear_pointers_panics:
  "\<exists>i \<in> set is. i \<notin> S \<and> \<not> fd_settable (fs ! i) \<Longrightarrow> clear_pointers is S fs = Panic"
proof (induction "is" arbitrary: fs)
  case (Cons j "is")
  have "fd_settable (fs[j := (fs ! j)\<lparr>fd_val := v\<rparr>] ! i) = fd_settable (fs ! i)" for i v
    by (cases "i = j"; cases "j < length fs") (simp_all add: list_update_beyond)
  with Cons show ?case by auto
qed simp

section \<open>Unmarshal on a written list\<close>

text \<open>\<open>scanner_of kvs sp l\<close>: a scanner at the start of the encoded list.\<close>

abbreviation (input) scanner_of :: "kv list \<Rightarrow> byte list \<Rightarrow> int \<Rightarrow> kvscanner" where
  "scanner_of kvs sp l \<equiv> NewKVScanner (Slice (concat (map kv_enc kvs)) sp) l"

lemma ForNext_unmarshal:
  assumes "\<forall>kv \<in> set kvs. wf_kv kv" "keys_distinct fs" "\<forall>kv \<in> set kvs. named_settable fs kv"
  shows "if \<forall>kv \<in> set kvs. accepts fs kv
    then \<exists>k'. ks_lastErr k' = None \<and>
      ForNext (unmarshal_entry (field_infos 0 fs)) (scanner_of kvs sp l) NewKVEntry (fs, {}) =
        Ret (k', (map (loaded kvs) fs, set_pointers fs kvs), None)
    else \<exists>k' st' e. ForNext (unmarshal_entry (field_infos 0 fs)) (scanner_of kvs sp l) NewKVEntry (fs, {}) =
        Ret (k', st', Some e)"
proof -
  have init: "(fs, {}) = (map (loaded []) fs, set_pointers fs [])"
    by (auto simp: loaded_def value_of_def set_pointers_def map_idI split: option.splits)
  note loop = ForNext_enc [OF assms(1), of "unmarshal_entry (field_infos 0 fs)" sp l NewKVEntry "(fs, {})"]
  note fe = for_entries_unmarshal [OF assms, of "[]", folded init]
  show ?thesis
  proof (cases "\<forall>kv \<in> set kvs. accepts fs kv")
    case True
    with loop fe obtain k' where
      k': "ForNext (unmarshal_entry (field_infos 0 fs)) (scanner_of kvs sp l) NewKVEntry (fs, {}) =
        Ret (k', (map (loaded kvs) fs, set_pointers fs kvs), None)"
      by auto
    from ForNext_enc_scanner [OF assms(1) this] True k' show ?thesis by auto
  next
    case False
    with loop fe show ?thesis by auto
  qed
qed

text \<open>C23: unmarshalling a well-formed list into a struct whose tagged fields are exported and have
  different keys never panics. It succeeds exactly if every field accepts the values under its
  key; then every field holds the value of the last entry under its key, a pointer field without
  an entry is nil, and every other field is as it was.\<close>

theorem unmarshal_struct:
  assumes "\<forall>kv \<in> set kvs. wf_kv kv" "keys_distinct fs" "all_settable fs"
  shows "\<exists>k' fs' err. Unmarshal (NewKVScanner (Slice (concat (map kv_enc kvs)) sp) l) (ToStruct fs) =
      Ret (k', ToStruct fs', err) \<and>
    (err = None \<longleftrightarrow> (\<forall>kv \<in> set kvs. accepts fs kv)) \<and>
    (err = None \<longrightarrow> fs' = map (filled kvs) fs)"
proof (cases "\<forall>kv \<in> set kvs. accepts fs kv")
  case True
  with ForNext_unmarshal [OF assms(1,2), of sp l] all_settable_named [OF assms(3)]
  obtain k' where "ks_lastErr k' = None"
    "ForNext (unmarshal_entry (field_infos 0 fs)) (scanner_of kvs sp l) NewKVEntry (fs, {}) =
      Ret (k', (map (loaded kvs) fs, set_pointers fs kvs), None)"
    by auto
  with True clear_pointers_filled [OF assms(3), of kvs] show ?thesis
    by (simp add: Unmarshal_def KVScanner_Error_def)
next
  case False
  with ForNext_unmarshal [OF assms(1,2), of sp l] all_settable_named [OF assms(3)]
  obtain k' st' e where "ForNext (unmarshal_entry (field_infos 0 fs)) (scanner_of kvs sp l) NewKVEntry (fs, {}) =
      Ret (k', st', Some e)"
    by auto
  with False show ?thesis by (cases st') (simp add: Unmarshal_def)
qed

definition sample_fields :: "go_field list" where
  "sample_fields =
     [\<lparr>fd_name = ''Status'', fd_tag = [115], fd_settable = True, fd_type = TInt32, fd_val = GInt32 7\<rparr>,
      \<lparr>fd_name = ''Host'', fd_tag = [104, 44, 111], fd_settable = True, fd_type = TPtr TString,
        fd_val = GPtr (Some (GString [1]))\<rparr>,
      \<lparr>fd_name = ''Other'', fd_tag = [], fd_settable = False, fd_type = TBool, fd_val = GBool True\<rparr>]"

lemma unmarshal_struct_witness:
  "\<exists>k'. Unmarshal (NewKVScanner (Slice (concat (map kv_enc [([115], VInt32 5), ([115], VInt32 (- 1))])) []) 2)
      (ToStruct sample_fields) =
    Ret (k', ToStruct (map (filled [([115], VInt32 5), ([115], VInt32 (- 1))]) sample_fields), None) \<and>
    map fd_val (map (filled [([115], VInt32 5), ([115], VInt32 (- 1))]) sample_fields) =
      [GInt32 (- 1), GPtr None, GBool True]"
proof -
  let ?kvs = "[([115], VInt32 5), ([115], VInt32 (- 1))] :: kv list"
  have sample: "keys_distinct sample_fields" "all_settable sample_fields" "\<forall>kv \<in> set ?kvs. wf_kv kv"
    "\<forall>kv \<in> set ?kvs. accepts sample_fields kv"
    "map fd_val (map (filled ?kvs) sample_fields) = [GInt32 (- 1), GPtr None, GBool True]"
    by (simp_all add: keys_distinct_def all_settable_def field_key_def tag_key_def sample_fields_def wf_kv_def
        len_ok_def accepts_def decode_as_def filled_def loaded_def unset_pointer_def value_of_def)
  from unmarshal_struct [OF sample(3,1,2), of "[]" 2] sample(4,5) show ?thesis
    by auto
qed

text \<open>A tagged pointer field that is not exported and that no entry names makes Unmarshal panic,
  where an entry for it would have been reported as an error: the loop that clears the unset pointers
  does not ask whether it may set them.\<close>

lemma unmarshal_unexported_pointer_panics:
  assumes "\<forall>kv \<in> set kvs. wf_kv kv" "keys_distinct fs" "\<forall>kv \<in> set kvs. named_settable fs kv"
    and "\<forall>kv \<in> set kvs. accepts fs kv"
    and "f \<in> set fs" "unset_pointer kvs f" "\<not> fd_settable f"
  shows "Unmarshal (NewKVScanner (Slice (concat (map kv_enc kvs)) sp) l) (ToStruct fs) = Panic"
proof -
  from ForNext_unmarshal [OF assms(1-3), of sp l] assms(4)
  obtain k' where k': "ks_lastErr k' = None"
    "ForNext (unmarshal_entry (field_infos 0 fs)) (scanner_of kvs sp l) NewKVEntry (fs, {}) =
      Ret (k', (map (loaded kvs) fs, set_pointers fs kvs), None)"
    by auto
  from assms(5) obtain i where i: "i < length fs" "fs ! i = f" by (auto simp: in_set_conv_nth)
  with assms(6,7) have "i \<in> set (pointer_indices (field_infos 0 fs))" "i \<notin> set_pointers fs kvs"
    "\<not> fd_settable (map (loaded kvs) fs ! i)"
    by (auto simp: set_pointer_indices set_pointers_def unset_pointer_def)
  then have "clear_pointers (pointer_indices (field_infos 0 fs)) (set_pointers fs kvs) (map (loaded kvs) fs) = Panic"
    by (blast intro: clear_pointers_panics)
  with k' show ?thesis by (simp add: Unmarshal_def KVScanner_Error_def)
qed

lemma unmarshal_unexported_pointer_panics_witness:
  "Unmarshal (NewKVScanner (Slice (concat (map kv_enc [])) []) 0)
     (ToStruct [\<lparr>fd_name = ''host'', fd_tag = [104], fd_settable = False, fd_type = TPtr TString, fd_val = GPtr None\<rparr>]) =
   Panic"
  by (rule unmarshal_unexported_pointer_panics [where f = "\<lparr>fd_name = ''host'', fd_tag = [104],
      fd_settable = False, fd_type = TPtr TString, fd_val = GPtr None\<rparr>"])
    (simp_all add: keys_distinct_def tag_key_def unset_pointer_def field_key_def value_of_def)

end
