(* ===== verification/SpopExample.thy ===== *)
theory SpopExample
  imports SpopAgent KVUnmarshal
begin

text \<open>
  The handler of the example agent (spop/example/header-to-body/main.go): it sets the variable
  \<open>body\<close> of the transaction to the argument \<open>headers\<close>. With it the theorems about agents hold of a
  whole program: its handler keeps the contract, and a NOTIFY is followed from the frame on the wire
  to the ACK.
\<close>

section \<open>The handler\<close>

text \<open>The handler's state is what it has logged. A panic of the loop keeps the log.\<close>

function headers_loop ::
  "kvscanner \<Rightarrow> kventry \<Rightarrow> gerr list \<Rightarrow> actionwriter \<Rightarrow> gerr list \<times> (kvscanner \<times> actionwriter) option" where
  "headers_loop s k log w =
     (case Next s k of
        None \<Rightarrow> (log, Panic)
      | Some (s', k', cont) \<Rightarrow>
          if \<not> cont then (log, Ret (s', w))
          else if NameEquals k' (str ''headers'') then
            (case Action_SetStringBytes VarScopeTransaction (str ''body'') (ValueBytes k') w of
               None \<Rightarrow> (log, Panic)
             | Some (w, None) \<Rightarrow> headers_loop s' k' log w
             | Some (w, Some e) \<Rightarrow> headers_loop s' k' (log @ [e]) w)
          else headers_loop s' k' log w)"
  by pat_completeness auto
termination
  by (relation "measure (\<lambda>(s, k, log, w). slen (ks_buf s))") (auto simp: Next_shrinks)

declare headers_loop.simps [simp del]

definition HandleSPOE_headers :: "gerr list handler" where
  "HandleSPOE_headers log ctx w m =
     (case m_KV m of
        None \<Rightarrow> (log, Panic)
      | Some s \<Rightarrow>
          (case headers_loop s NewKVEntry log w of
             (log, None) \<Rightarrow> (log, Panic)
           | (log, Some (s, w)) \<Rightarrow>
               ((case KVScanner_Error s of None \<Rightarrow> log | Some e \<Rightarrow> log @ [e]), Ret (w, m\<lparr>m_KV := Some s\<rparr>))))"

section \<open>The contract of a handler\<close>

lemma set_body_ok:
  "Action_SetStringBytes c name v w = Ret (w', err) \<Longrightarrow> aw_ok w \<Longrightarrow> aw_ok w'"
  using action_write_ok [of "SetVar c name (VString v)" w w' err] by (simp add: Action_SetString_def)

lemma headers_loop_ok: "headers_loop s k log w = (log', Ret (s', w')) \<Longrightarrow> aw_ok w \<Longrightarrow> aw_ok w'"
proof (induction "slen (ks_buf s)" arbitrary: s k log w rule: less_induct)
  case less
  note run = less.prems(1) [unfolded headers_loop.simps [of s]]
  show ?case
  proof (cases "Next s k")
    case (Some x)
    obtain s1 k1 cont where x: "x = (s1, k1, cont)" by (cases x)
    note IH = less.hyps [of s1 k1]
    have sm: "slen (ks_buf s1) < slen (ks_buf s)" if cont using Next_shrinks [of s k s1 k1] Some x that by simp
    show ?thesis
    proof (cases "cont \<and> NameEquals k1 (str ''headers'')")
      case True
      with run Some x obtain w1 e log1 where
        "Action_SetStringBytes VarScopeTransaction (str ''body'') (ValueBytes k1) w = Ret (w1, e)"
        "headers_loop s1 k1 log1 w1 = (log', Ret (s', w'))"
        by (auto split: option.splits)
      with IH sm True set_body_ok less.prems(2) show ?thesis by blast
    qed (use run Some x IH sm less.prems(2) in \<open>auto split: if_splits\<close>)
  qed (use run in simp)
qed

lemma headers_handler_ok: "handler_ok HandleSPOE_headers"
  by (auto simp: handler_ok_def HandleSPOE_headers_def dest: headers_loop_ok split: option.splits prod.splits)

section \<open>From a NOTIFY to its ACK\<close>

text \<open>The actions for the arguments of a message.\<close>

definition body_actions :: "kv list \<Rightarrow> action list" where
  "body_actions kvs =
     map (\<lambda>kv. SetVar VarScopeTransaction (str ''body'') (VString (val_bytes (snd kv))))
       (filter (\<lambda>kv. fst kv = str ''headers'') kvs)"

lemma len_ok_val_bytes: "wf_val v \<Longrightarrow> len_ok (val_bytes v)"
  by (cases v) (auto simp: len_ok_def AsSlice_length)

lemma body_actions_Cons:
  "body_actions (kv # kvs) =
     (if fst kv = str ''headers''
      then SetVar VarScopeTransaction (str ''body'') (VString (val_bytes (snd kv))) # body_actions kvs
      else body_actions kvs)"
  by (simp add: body_actions_def)

lemma headers_loop_enc:
  assumes "\<forall>kv \<in> set kvs. wf_kv kv" and "write_all action_write (body_actions kvs) w = Ret (w', None)"
  shows "\<exists>s'. headers_loop (NewKVScanner (Slice (concat (map kv_enc kvs)) sp) l) e log w = (log, Ret (s', w')) \<and>
    ks_lastErr s' = None \<and> slen (ks_buf s') = 0"
  using assms
proof (induction kvs arbitrary: e w l)
  case Nil
  then show ?case by (simp add: headers_loop.simps Next_def NewKVScanner_def body_actions_def)
next
  case (Cons kv kvs)
  have n: "Next (NewKVScanner (Slice (concat (map kv_enc (kv # kvs))) sp) l) e =
      Ret (NewKVScanner (Slice (concat (map kv_enc kvs)) sp) (l - 1), entry_of kv, True)"
    using Cons.prems(1) by (simp add: NewKVScanner_def Next_enc)
  show ?case
  proof (cases "fst kv = str ''headers''")
    case True
    with Cons.prems(2) obtain w1 where
      "Action_SetStringBytes VarScopeTransaction (str ''body'') (val_bytes (snd kv)) w = Ret (w1, None)"
      "write_all action_write (body_actions kvs) w1 = Ret (w', None)"
      by (auto simp: body_actions_Cons Action_SetString_def then_ok_def bind_eq_Some_conv split: option.splits)
    with n True Cons.IH [of w1] Cons.prems(1) show ?thesis
      by (subst headers_loop.simps) (simp add: NameEquals_entry ValueBytes_def entry_of_def NameEquals_iff)
  next
    case False
    with n Cons show ?thesis
      by (subst headers_loop.simps) (simp add: NameEquals_entry body_actions_Cons)
  qed
qed

lemma body_actions_wf: "wf_msg m \<Longrightarrow> \<forall>a \<in> set (body_actions (snd m)). wf_action a"
  using len_ok_val_bytes by (fastforce simp: body_actions_def wf_msg_def wf_kv_def)

text \<open>The handler answers each message alike in every state, and logs nothing.\<close>

lemma headers_answers:
  assumes "wf_msg m" and "2 * length (concat (map action_enc (body_actions (snd m)))) \<le> max_alloc"
    and "aw_ok aw" and "wb_off aw = 0"
  shows "\<exists>aw' m' kv kv'.
    HandleSPOE_headers h ctx aw (delivered m (concat (map kv_enc (snd m))) sp) = (h, Ret (aw', m')) \<and>
    write_all action_write (body_actions (snd m)) aw = Ret (aw', None) \<and> m_KV m' = Some kv \<and>
    Discard kv = Ret (kv', None)"
proof -
  let ?as = "body_actions (snd m)"
  from assms(2,4) have "aw_room aw (length (concat (map action_enc ?as)))" by (simp add: aw_room_def)
  from actw.write_all_ok [OF body_actions_wf [OF assms(1)] _ this] aw_ok_inv [OF assms(3)] obtain aw' where
    w: "write_all action_write ?as aw = Ret (aw', None)" by blast
  have "\<forall>kv \<in> set (snd m). wf_kv kv" using assms(1) by (simp add: wf_msg_def)
  from headers_loop_enc [OF this w] obtain s' where
    "headers_loop (NewKVScanner (Slice (concat (map kv_enc (snd m))) sp)
       (uint (of_nat (length (snd m)) :: byte))) NewKVEntry h aw = (h, Ret (s', aw'))"
    "ks_lastErr s' = None" "slen (ks_buf s') = 0" by blast
  with w show ?thesis
    by (simp add: HandleSPOE_headers_def delivered_def KVScanner_Error_def Discard_def RemainingBuf_def)
qed

text \<open>C14: the example agent, from the payload of a NOTIFY to the bytes of its ACK: every argument named
  \<open>headers\<close> sets the transaction's variable \<open>body\<close> to its value, in order, the other arguments are
  skipped, nothing is logged, and the ACK has the identifiers of the NOTIFY, if it fits the
  negotiated size; otherwise nothing is sent.\<close>

theorem header_to_body:
  assumes "pool_ok cn" and "wf_msg m" and "ReadBytes (f_buf f) = Ret (Slice (msg_enc m) sp)"
    and "2 * length (concat (map action_enc (body_actions (snd m)))) \<le> max_alloc"
  shows "\<exists>cn' err. onNotify HandleSPOE_headers f cn = (cn', Ret err) \<and> cn_h cn' = cn_h cn \<and> pool_ok cn' \<and>
    (let a = ack_meta (FrameID (f_meta f)) (StreamID (f_meta f));
         p = concat (map action_enc (body_actions (snd m))) in
     if length (pool_header frameTypeIDAck a) + length p \<le> unat (c_maxFrameSize (cn_client cn))
     then \<exists>n. sent (cn_rw cn) (wire_frame frameTypeIDAck a p) (cn_rw cn') n err
     else err \<noteq> None \<and> cn_rw cn' = cn_rw cn)"
proof -
  have "\<forall>aw. aw_ok aw \<longrightarrow> wb_off aw = 0 \<longrightarrow> (\<exists>aw' m' kv kv'.
      HandleSPOE_headers (cn_h cn) (c_ctx (cn_client cn)) aw (delivered m (concat (map kv_enc (snd m))) sp) =
        (cn_h cn, Ret (aw', m')) \<and>
      write_all action_write (body_actions (snd m)) aw = Ret (aw', None) \<and> m_KV m' = Some kv \<and>
      Discard kv = Ret (kv', None))"
    using headers_answers [OF assms(2,4)] by blast
  from notify_answers [OF assms(1) headers_handler_ok assms(2,3) this body_actions_wf [OF assms(2)] assms(4)]
  show ?thesis by blast
qed

lemma header_to_body_witness:
  "\<exists>cn' n. onNotify HandleSPOE_headers
      (payload_frame (msg_enc ([109], [(str ''path'', VString [47]), (str ''headers'', VString [72, 58])])))
      ((fresh_conn [])\<lparr>cn_client := (newProtocolClient None)\<lparr>c_maxFrameSize := 256\<rparr>\<rparr>) = (cn', Ret None) \<and>
    cn_h cn' = [] \<and>
    sk_out (cn_rw cn') = wire_frame frameTypeIDAck (ack_meta 0 0) [1, 3, 2, 4, 98, 111, 100, 121, 8, 2, 72, 58]"
proof -
  let ?cn = "(fresh_conn ([] :: gerr list))\<lparr>cn_client := (newProtocolClient None)\<lparr>c_maxFrameSize := 256\<rparr>\<rparr>"
  let ?m = "([109], [(str ''path'', VString [47]), (str ''headers'', VString [72, 58])]) :: msg"
  have e: "concat (map action_enc (body_actions (snd ?m))) = [1, 3, 2, 4, 98, 111, 100, 121, 8, 2, 72, 58]"
    by code_simp
  have p: "pool_ok ?cn" "wf_msg ?m" "ReadBytes (f_buf (payload_frame (msg_enc ?m))) = Ret (Slice (msg_enc ?m) [])"
    by (simp_all add: pool_ok_def fresh_conn_def wf_msg_def wf_kv_def len_ok_def str_def payload_frame_ReadBytes)
  have m: "2 * length (concat (map action_enc (body_actions (snd ?m)))) \<le> max_alloc"
    unfolding e by (simp add: max_alloc_def)
  have fit: "length (pool_header frameTypeIDAck (ack_meta 0 0)) + 12 \<le> unat (256 :: u32)"
    using length_pool_header [of frameTypeIDAck "ack_meta 0 0"] by simp
  have sel: "f_meta (payload_frame x) = no_meta" "cn_rw ?cn = open_sink []" "cn_h ?cn = []"
    "c_maxFrameSize (cn_client ?cn) = 256" for x
    by (simp_all add: payload_frame_def fresh_conn_def)
  from header_to_body [OF p m, unfolded e Let_def sel] fit
  show ?thesis by (fastforce simp: no_meta_def sent_def open_sink_def)
qed

end
