(* ===== verification/SpopWrites.thy ===== *)
theory SpopWrites
  imports SpopServe
begin

text \<open>
  A connection with the single calls of \<open>Write\<close> as steps. The workers share the connection without a
  lock, and a frame takes up to three calls (frame.go, \<open>writeTo\<close>): its length, the buffer with the
  header, and the payload. With a client that waits for the answer before it sends the next frame
  the connection behaves as in \<open>SpopServe\<close>, where the handling of a frame is one step; with a client
  that does not (SPOP calls this pipelining) the frames of two workers can be mixed.
\<close>

section \<open>The calls of Write\<close>

text \<open>Calls one after another, up to the first that fails.\<close>

fun Writes :: "byte list list \<Rightarrow> sink \<Rightarrow> sink" where
  "Writes [] w = w"
| "Writes (c # cs) w = (case Write c w of (w, n, err) \<Rightarrow> if err = None then Writes cs w else w)"

text \<open>The calls that \<open>writeTo\<close> makes as long as they succeed, and the frame it leaves.\<close>

definition writeTo_calls :: "frame \<Rightarrow> byte list \<Rightarrow> (frame \<times> byte list list) option" where
  "writeTo_calls f payload =
     (let frameLen = of_int (buf_Len (f_buf f)) + of_nat (length payload) :: u64 in
      if frameLen > 0xFFFFFFFF then Ret (f, [])
      else do {
        len \<leftarrow> PutUint32 (Slice (f_length f) []) (ucast frameLen);
        t \<leftarrow> ReadBytes (f_buf f);
        Ret (f\<lparr>f_length := vis len\<rparr>, [vis len, vis t] @ (if length payload = 0 then [] else [payload]))
      })"

definition AgentDisconnect_calls :: "int \<Rightarrow> frame \<Rightarrow> (frame \<times> byte list list) option" where
  "AgentDisconnect_calls ErrCode f =
     do {
       let f = f\<lparr>f_frameType := frameTypeIDAgentDisconnect,
                 f_meta := \<lparr>Flags = frameFlagFin, StreamID = 0, FrameID = 0\<rparr>\<rparr>;
       (f, err) \<leftarrow> encodeHeader f;
       if err \<noteq> None then Ret (releaseFrame f, [])
       else do {
         t \<leftarrow> WriteBytes (f_buf f);
         (kvw, err) \<leftarrow>
           then_ok (SetUInt32 statusCodeKey (of_int ErrCode) (NewKVWriter t 0)) (\<lambda>kvw.
             SetString messageKey (str (errorCode_String ErrCode)) kvw);
         let f = f\<lparr>f_buf := write_back (sb_w (f_buf f)) (wb_data kvw) (f_buf f)\<rparr>;
         if err \<noteq> None then Ret (releaseFrame f, [])
         else do {
           (f, calls) \<leftarrow> writeTo_calls (f\<lparr>f_buf := AdvanceW (KVWriter_Off kvw) (f_buf f)\<rparr>) [];
           Ret (releaseFrame f, calls)
         }
       }
     }"

definition Ack_calls :: "'h callback \<Rightarrow> u64 \<Rightarrow> u64 \<Rightarrow> frame \<Rightarrow> u32 \<Rightarrow> 'h \<Rightarrow> 'h \<times> (frame \<times> byte list list) option" where
  "Ack_calls callback fid sid f limit h =
     (let f = f\<lparr>f_frameType := frameTypeIDAck,
                f_meta := \<lparr>Flags = frameFlagFin, StreamID = sid, FrameID = fid\<rparr>\<rparr> in
      case encodeHeader f of
        None \<Rightarrow> (h, Panic)
      | Some (f, Some e) \<Rightarrow> (h, Ret (releaseFrame f, []))
      | Some (f, None) \<Rightarrow>
          (case WriteBytes (f_buf f) of
             None \<Rightarrow> (h, Panic)
           | Some t \<Rightarrow>
               (case callback h (AcquireActionWriter pooled_writer t 0) of
                  (h, None) \<Rightarrow> (h, Panic)
                | (h, Some (aw, err)) \<Rightarrow>
                    (h, if err \<noteq> None then Ret (releaseFrame f, [])
                        else let frameLen = of_int (buf_Len (f_buf f)) + of_nat (ActionWriter_Off aw) :: u64 in
                          if frameLen > ucast limit then Ret (releaseFrame f, [])
                          else do {
                            payload \<leftarrow> ActionWriter_Bytes aw;
                            (f, calls) \<leftarrow> writeTo_calls f (vis payload);
                            Ret (releaseFrame f, calls)
                          }))))"

text \<open>
  What a worker does with a frame before it writes: the connection it leaves, the calls to come, and
  the frames that go back to the pool after them. A HELLO in the queue is a duplicate, for which
  \<open>onHAProxyHello\<close> panics.
\<close>

definition onNotify_calls :: "'h handler \<Rightarrow> frame \<Rightarrow> 'h conn \<Rightarrow> 'h conn \<times> byte list list \<times> frame list" where
  "onNotify_calls handler f cn =
     (case do {
             b \<leftarrow> ReadBytes (f_buf f);
             (pf, pool) \<leftarrow> acquireFrame (cn_pool cn);
             Ret (AcquireMessageScanner pooled_msgscanner b, pf, pool)
           } of
        None \<Rightarrow> (cn, [], [])
      | Some (s, pf, pool) \<Rightarrow>
          (case Ack_calls (notify_loop handler (c_ctx (cn_client cn)) s NewMessage)
                  (FrameID (f_meta f)) (StreamID (f_meta f)) pf (c_maxFrameSize (cn_client cn)) (cn_h cn) of
             (h, None) \<Rightarrow> (cn\<lparr>cn_h := h, cn_pool := pool\<rparr>, [], [])
           | (h, Some (pf, calls)) \<Rightarrow> (cn\<lparr>cn_h := h, cn_pool := pool\<rparr>, calls, [pf])))"

definition frame_calls :: "'h handler \<Rightarrow> frame \<Rightarrow> 'h conn \<Rightarrow> 'h conn \<times> byte list list \<times> frame list" where
  "frame_calls handler f cn =
     (let (cn, calls, held) =
        (if f_frameType f = frameTypeIDHaproxyHello then (fst (onHAProxyHello f cn), [], [])
         else if f_frameType f = frameTypeIDNotify then onNotify_calls handler f cn
         else if f_frameType f = frameTypeIDHaproxyDisconnect then (fst (onHAProxyDisconnect f cn), [], [])
         else (cn, [], []))
      in (cn, calls, releaseFrame f # held))"

definition Close_calls :: "'h conn \<Rightarrow> ('h conn \<times> byte list list \<times> frame list) option" where
  "Close_calls cn =
     (if ctx_Err (cn_client cn) \<noteq> None then Ret (cn, [], [])
      else do {
        (pf, pool) \<leftarrow> acquireFrame (cn_pool cn);
        (pf, calls) \<leftarrow> AgentDisconnect_calls ErrorUnknown pf;
        Ret (cn\<lparr>cn_pool := pool\<rparr>, calls, [pf])
      })"

section \<open>The calls make up what the methods write\<close>

lemma writeTo_calls:
  assumes "writeTo_calls f payload = Ret (f', calls)"
  shows "\<exists>n err. writeTo f payload w = Ret (f', Writes calls w, n, err)"
proof -
  let ?len = "of_int (buf_Len (f_buf f)) + of_nat (length payload) :: u64"
  show ?thesis
  proof (cases "?len > 0xFFFFFFFF")
    case True
    with assms show ?thesis by (simp add: writeTo_calls_def writeTo_def Let_def)
  next
    case False
    with assms obtain b t where b: "PutUint32 (Slice (f_length f) []) (ucast ?len) = Ret b"
      "ReadBytes (f_buf f) = Ret t" "f' = f\<lparr>f_length := vis b\<rparr>"
      "calls = [vis b, vis t] @ (if length payload = 0 then [] else [payload])"
      by (auto simp: writeTo_calls_def Let_def bind_eq_Some_conv)
    obtain w1 n1 e1 where w1: "Write (vis b) w = (w1, n1, e1)" by (cases "Write (vis b) w")
    obtain w2 n2 e2 where w2: "Write (vis t) w1 = (w2, n2, e2)" by (cases "Write (vis t) w1")
    obtain w3 n3 e3 where w3: "Write payload w2 = (w3, n3, e3)" by (cases "Write payload w2")
    from False b w1 w2 w3 show ?thesis by (simp add: writeTo_def Let_def)
  qed
qed

text \<open>On a frame in use \<open>writeTo\<close> has no reason to panic; its first call is that for the length.\<close>

definition prefixed :: "byte list list \<Rightarrow> bool" where
  "prefixed calls \<longleftrightarrow> calls = [] \<or> length (hd calls) = 4"

lemma writeTo_calls_SB:
  assumes "f_buf f = SB [] body free s" and "length (f_length f) = 4"
  shows "\<exists>l calls. writeTo_calls f payload = Ret (f\<lparr>f_length := l\<rparr>, calls) \<and> length l = 4 \<and> prefixed calls"
proof (cases "(of_int (buf_Len (f_buf f)) + of_nat (length payload) :: u64) > 0xFFFFFFFF")
  case True
  with assms(2) show ?thesis
    by (intro exI [of _ "f_length f"] exI [of _ "[]"]) (simp add: writeTo_calls_def Let_def prefixed_def)
next
  case False
  with assms show ?thesis
    by (simp add: writeTo_calls_def Let_def PutUint32_def ReadBytes_SB) (intro conjI impI; (rule exI, rule conjI, rule refl, simp add: prefixed_def))
qed

lemma bind_RetE: "m \<bind> k = Ret y \<Longrightarrow> (\<And>x. m = Ret x \<Longrightarrow> k x = Ret y \<Longrightarrow> P) \<Longrightarrow> P"
  by (cases m) auto

lemma AgentDisconnect_calls:
  assumes "AgentDisconnect_calls e f = Ret (f', calls)"
  shows "\<exists>n err. AgentDisconnect_WriteTo e f w = Ret (f', Writes calls w, n, err)"
  using assms
  by (auto simp: AgentDisconnect_calls_def AgentDisconnect_WriteTo_def WriteTo_def Let_def
      elim!: bind_RetE dest!: writeTo_calls [where w = w] split: if_split_asm prod.split_asm)

lemma Ack_calls_Some:
  assumes "Ack_calls callback fid sid f limit h = (h', Ret (f', calls))"
  shows "\<exists>n err. Ack_writeTo callback fid sid f limit h w = (h', Ret (f', Writes calls w, n, err))"
  using assms
  by (auto simp: Ack_calls_def Ack_writeTo_def Let_def
      elim!: bind_RetE dest!: writeTo_calls [where w = w]
      split: option.split_asm prod.split_asm if_split_asm)


text \<open>An ACK on a frame of the pool: only the callback can panic, and the frame goes back clean.\<close>

lemma Ack_calls_cases:
  assumes "pool_frame f" and "callback_ok callback"
  shows "(\<exists>h'. Ack_calls callback fid sid f limit h = (h', Panic) \<and>
      (\<forall>w. Ack_writeTo callback fid sid f limit h w = (h', Panic))) \<or>
    (\<exists>h' f' calls. Ack_calls callback fid sid f limit h = (h', Ret (f', calls)) \<and> pool_frame f' \<and>
      prefixed calls)"
proof -
  let ?m = "ack_meta fid sid" and ?h = "pool_header frameTypeIDAck (ack_meta fid sid)"
  from assms(1) obtain free s l where f:
    "encodeHeader (f\<lparr>f_frameType := frameTypeIDAck, f_meta := ?m\<rparr>) =
       Ret (\<lparr>f_buf = SB [] ?h free s, f_length = l, f_meta = ?m, f_frameType = frameTypeIDAck\<rparr>, None)"
    "length l = 4" "buf_size (length ?h + length free)"
    by (rule encodeHeader_pool)
  let ?f = "\<lparr>f_buf = SB [] ?h free s, f_length = l, f_meta = ?m, f_frameType = frameTypeIDAck\<rparr>"
  have aw: "AcquireActionWriter pooled_writer (Slice free s) 0 = WB [] free s"
    by (simp add: AcquireActionWriter_def pooled_writer_def NewActionWriter_def WB_def)
  have rel: "pool_frame (releaseFrame (?f\<lparr>f_length := l'\<rparr>))" if "length l' = 4" for l'
    using that f(3) by (simp add: releaseFrame_sent)
  obtain h' r where r: "callback h (WB [] free s) = (h', r)" by (cases "callback h (WB [] free s)")
  show ?thesis
  proof (cases r)
    case None
    with f(1) aw r show ?thesis
      by (simp add: Ack_calls_def Ack_writeTo_def WriteBytes_SB Let_def flip: ack_meta_def)
  next
    case (Some x)
    obtain aw' err where x: "x = (aw', err)" by (cases x)
    have "aw_ok (WB [] free s)" "wb_off (WB [] free s) = 0" using f(3) by (simp_all add: max_alloc_def)
    with assms(2) r Some x have "aw_ok aw'" unfolding callback_ok_def by blast
    then have b: "ActionWriter_Bytes aw' =
        Ret (Slice (wb_out aw') (drop (wb_off aw') (vis (wb_data aw')) @ spare (wb_data aw')))"
      using ActionWriter_Bytes_inv aw_ok_inv by blast
    obtain l' calls where c: "writeTo_calls ?f (wb_out aw') = Ret (?f\<lparr>f_length := l'\<rparr>, calls)" "length l' = 4" "prefixed calls"
      using writeTo_calls_SB [of ?f ?h free s "wb_out aw'"] f(2) by auto
    have "prefixed []" by (simp add: prefixed_def)
    with f(1) aw r Some x b c(1,3) rel [OF c(2)] rel [OF f(2)] show ?thesis
      by (simp add: Ack_calls_def WriteBytes_SB Let_def flip: ack_meta_def)
  qed
qed

lemma onNotify_calls:
  assumes "handler_ok handler" and "pool_ok cn" and "onNotify_calls handler f cn = (cn', calls, held)"
  shows "pool_ok cn' \<and> (\<forall>f \<in> set held. pool_frame f) \<and> cn_client cn' = cn_client cn \<and> cn_rw cn' = cn_rw cn \<and>
    prefixed calls \<and> fst (onNotify handler f cn) = cn'\<lparr>cn_rw := Writes calls (cn_rw cn), cn_pool := held @ cn_pool cn'\<rparr>"
proof (cases "ReadBytes (f_buf f)")
  case None
  with assms(2,3) show ?thesis by (auto simp: onNotify_calls_def onNotify_def prefixed_def)
next
  case (Some b)
  from assms(2) obtain pf pool where p: "acquireFrame (cn_pool cn) = Ret (pf, pool)" "pool_frame pf"
    "\<forall>f \<in> set pool. pool_frame f" by (auto simp: pool_ok_def elim: acquireFrame_ok)
  let ?cb = "notify_callback handler (cn_client cn) b"
  let ?A = "Ack_calls ?cb (FrameID (f_meta f)) (StreamID (f_meta f)) pf (c_maxFrameSize (cn_client cn)) (cn_h cn)"
  have C: "onNotify_calls handler f cn =
      (case ?A of (h, None) \<Rightarrow> (cn\<lparr>cn_h := h, cn_pool := pool\<rparr>, [], [])
        | (h, Some (pf, calls)) \<Rightarrow> (cn\<lparr>cn_h := h, cn_pool := pool\<rparr>, calls, [pf]))"
    by (simp add: onNotify_calls_def Some p(1) AcquireMessageScanner_pooled notify_callback_def)
  have N: "onNotify handler f cn =
      (case Ack_writeTo ?cb (FrameID (f_meta f)) (StreamID (f_meta f)) pf (c_maxFrameSize (cn_client cn)) (cn_h cn) (cn_rw cn)
       of (h, None) \<Rightarrow> (cn\<lparr>cn_h := h, cn_pool := pool\<rparr>, Panic)
        | (h, Some (pf, w, n, err)) \<Rightarrow> (cn\<lparr>cn_h := h, cn_pool := pf # pool, cn_rw := w\<rparr>, Ret err))"
    by (simp add: onNotify_def Some p(1) AcquireMessageScanner_pooled notify_callback_def)
  from Ack_calls_cases [OF p(2) notify_callback_ok [OF assms(1)], of "cn_client cn" b "FrameID (f_meta f)"
      "StreamID (f_meta f)" "c_maxFrameSize (cn_client cn)" "cn_h cn"]
  show ?thesis
  proof (elim disjE exE conjE)
    fix h' assume "?A = (h', Panic)" and "\<forall>w. Ack_writeTo ?cb (FrameID (f_meta f)) (StreamID (f_meta f)) pf
        (c_maxFrameSize (cn_client cn)) (cn_h cn) w = (h', Panic)"
    with C N assms(3) p(3) show ?thesis by (auto simp: pool_ok_def prefixed_def)
  next
    fix h' f' cs assume a: "?A = (h', Ret (f', cs))" "pool_frame f'" "prefixed cs"
    from Ack_calls_Some [OF a(1), of "cn_rw cn"] a C N assms(3) p(3) show ?thesis by (auto simp: pool_ok_def)
  qed
qed

lemma frame_calls_handler:
  assumes "handler_ok handler" and "pool_ok cn" and "frame_inv f" and "c_gotHello (cn_client cn)"
    and "frame_calls handler f cn = (cn', calls, held)"
  shows "pool_ok cn'" "\<forall>f \<in> set held. pool_frame f" "cn_rw cn' = cn_rw cn" "prefixed calls"
    and "fst (frameHandler handler f cn) = cn'\<lparr>cn_rw := Writes calls (cn_rw cn), cn_pool := held @ cn_pool cn'\<rparr>"
proof -
  have hello: "fst (onHAProxyHello f cn) = cn" using assms(4) by (simp add: onHAProxyHello_def)
  have disc: "cn_rw (fst (onHAProxyDisconnect f cn)) = cn_rw cn" "cn_pool (fst (onHAProxyDisconnect f cn)) = cn_pool cn"
    by (auto simp: onHAProxyDisconnect_def Let_def split: option.splits prod.splits)
  obtain nc calls' held' where n: "onNotify_calls handler f cn = (nc, calls', held')"
    by (cases "onNotify_calls handler f cn")
  note N = onNotify_calls [OF assms(1,2) n]
  have "pool_ok cn' \<and> (\<forall>f \<in> set held. pool_frame f) \<and> cn_rw cn' = cn_rw cn \<and> prefixed calls \<and>
      fst (frameHandler handler f cn) = cn'\<lparr>cn_rw := Writes calls (cn_rw cn), cn_pool := held @ cn_pool cn'\<rparr>"
    using assms(2,5) pool_frame_release [OF assms(3)] hello disc n N
    by (auto simp: frame_calls_def frameHandler_def pool_ok_def prefixed_def case_prod_beta Let_def split: if_splits)
  then show "pool_ok cn'" "\<forall>f \<in> set held. pool_frame f" "cn_rw cn' = cn_rw cn" "prefixed calls"
    "fst (frameHandler handler f cn) = cn'\<lparr>cn_rw := Writes calls (cn_rw cn), cn_pool := held @ cn_pool cn'\<rparr>"
    by blast+
qed

lemma Close_calls:
  assumes "Close_calls cn = Ret (cn', calls, held)"
  shows "\<exists>e. Close cn = Ret (cn'\<lparr>cn_rw := Writes calls (cn_rw cn), cn_pool := held @ cn_pool cn',
      cn_client := ctxCancel (Some (ErrFormat ''closing client'')) (cn_client cn)\<rparr>, e)"
    and "cn_rw cn' = cn_rw cn" "cn_client cn' = cn_client cn"
  using assms
  by (auto simp: Close_calls_def Close_def ctx_Err_def ctxCancel_def
      elim!: bind_RetE dest!: AgentDisconnect_calls [where w = "cn_rw cn"] split: if_split_asm prod.split_asm option.splits)

section \<open>The steps of a connection\<close>

text \<open>
  \<open>ws_writing\<close>: for each worker that has handled a frame of the connection, the calls of \<open>Write\<close> that
  it has still to make and the frames it will give back; \<open>ws_closing\<close>: the same for \<open>Close\<close>, which
  the connection's goroutine runs when \<open>Serve\<close> is over. Before the hello is through there are no
  workers on the connection, so a round of \<open>Serve\<close>, with what \<open>onHAProxyHello\<close> writes, is one step.
  A client that does not pipeline sends a frame, or ends the connection, only when it has the answers
  to all earlier ones.
\<close>

record 'h wsys =
  ws_sys :: "'h sys"
  ws_writing :: "(byte list list \<times> frame list) list"
  ws_closing :: "(byte list list \<times> frame list) option"

definition idle :: "'h wsys \<Rightarrow> bool" where
  "idle s \<longleftrightarrow> sy_queue (ws_sys s) = [] \<and> ws_writing s = []"

abbreviation upd_sys :: "('h conn \<Rightarrow> 'h conn) \<Rightarrow> 'h wsys \<Rightarrow> 'h wsys" where
  "upd_sys g s \<equiv> s\<lparr>ws_sys := (ws_sys s)\<lparr>sy_conn := g (sy_conn (ws_sys s))\<rparr>\<rparr>"

inductive wstep :: "bool \<Rightarrow> 'h handler \<Rightarrow> 'h wsys \<Rightarrow> 'h wsys \<Rightarrow> bool" for pipelining handler where
  serve: "sy_serve (ws_sys s) = Serving \<Longrightarrow> pipelining \<or> idle s \<Longrightarrow>
    wstep pipelining handler s (s\<lparr>ws_sys := Serve_iter handler (ws_sys s)\<rparr>)"
| handle: "sy_queue (ws_sys s) = fs @ f # gs \<Longrightarrow> frame_calls handler f (sy_conn (ws_sys s)) = (cn, calls, held) \<Longrightarrow>
    wstep pipelining handler s
      (s\<lparr>ws_sys := (ws_sys s)\<lparr>sy_conn := cn, sy_queue := fs @ gs\<rparr>, ws_writing := ws_writing s @ [(calls, held)]\<rparr>)"
| call: "ws_writing s = xs @ (c # cs, held) # ys \<Longrightarrow> Write c (cn_rw (sy_conn (ws_sys s))) = (w, n, err) \<Longrightarrow>
    wstep pipelining handler s (upd_sys (\<lambda>cn. cn\<lparr>cn_rw := w\<rparr>)
      (s\<lparr>ws_writing := xs @ (if err = None then cs else [], held) # ys\<rparr>))"
| finish: "ws_writing s = xs @ ([], held) # ys \<Longrightarrow>
    wstep pipelining handler s (upd_sys (\<lambda>cn. cn\<lparr>cn_pool := held @ cn_pool cn\<rparr>) (s\<lparr>ws_writing := xs @ ys\<rparr>))"
| base_cancel: "wstep pipelining handler s
    (upd_sys (\<lambda>cn. cn\<lparr>cn_client := ctxCancel cause (cn_client cn)\<rparr>) s)"
| pool: "\<forall>f \<in> set pool. pool_frame f \<Longrightarrow> wstep pipelining handler s (upd_sys (\<lambda>cn. cn\<lparr>cn_pool := pool\<rparr>) s)"
| close: "sy_serve (ws_sys s) = Returned e \<or> sy_serve (ws_sys s) = Crashed \<Longrightarrow>
    Close_calls (sy_conn (ws_sys s)) = Ret (cn, calls, held) \<Longrightarrow>
    wstep pipelining handler s
      (s\<lparr>ws_sys := (ws_sys s)\<lparr>sy_conn := cn, sy_serve := Closed\<rparr>, ws_closing := Some (calls, held)\<rparr>)"
| close_call: "ws_closing s = Some (c # cs, held) \<Longrightarrow> Write c (cn_rw (sy_conn (ws_sys s))) = (w, n, err) \<Longrightarrow>
    wstep pipelining handler s (upd_sys (\<lambda>cn. cn\<lparr>cn_rw := w\<rparr>)
      (s\<lparr>ws_closing := Some (if err = None then cs else [], held)\<rparr>))"
| hangup: "ws_closing s = Some ([], held) \<Longrightarrow>
    wstep pipelining handler s (upd_sys (\<lambda>cn. close_conn (cn\<lparr>cn_pool := held @ cn_pool cn,
        cn_client := ctxCancel (Some (ErrFormat ''closing client'')) (cn_client cn)\<rparr>)) (s\<lparr>ws_closing := None\<rparr>))"

definition wstart :: "'h sys \<Rightarrow> 'h wsys" where
  "wstart s = \<lparr>ws_sys = s, ws_writing = [], ws_closing = None\<rparr>"

inductive wreachable :: "bool \<Rightarrow> 'h handler \<Rightarrow> 'h sys \<Rightarrow> 'h wsys \<Rightarrow> bool" for pipelining handler s0 where
  init: "wreachable pipelining handler s0 (wstart s0)"
| step: "wreachable pipelining handler s0 s \<Longrightarrow> wstep pipelining handler s s' \<Longrightarrow>
    wreachable pipelining handler s0 s'"

section \<open>A client that waits for the answers\<close>

text \<open>What the connection will have sent when the calls to come have been made.\<close>

definition flush :: "'h wsys \<Rightarrow> sink" where
  "flush s = Writes (concat (map fst (ws_writing s)) @ (case ws_closing s of None \<Rightarrow> [] | Some (calls, _) \<Rightarrow> calls))
     (cn_rw (sy_conn (ws_sys s)))"

text \<open>At most one frame is under way, none once \<open>Serve\<close> is over, and the pool gets clean frames.\<close>

definition orderly :: "'h wsys \<Rightarrow> bool" where
  "orderly s \<longleftrightarrow>
     length (sy_queue (ws_sys s)) + length (ws_writing s) \<le> 1 \<and>
     (sy_serve (ws_sys s) \<noteq> Serving \<longrightarrow> idle s) \<and> (ws_closing s \<noteq> None \<longrightarrow> sy_serve (ws_sys s) = Closed) \<and>
     pool_ok (sy_conn (ws_sys s)) \<and> (\<forall>w \<in> set (ws_writing s). \<forall>f \<in> set (snd w). pool_frame f) \<and>
     (\<forall>calls held. ws_closing s = Some (calls, held) \<longrightarrow> (\<forall>f \<in> set held. pool_frame f))"

text \<open>The connection of \<open>SpopServe\<close> has made the calls that are still to come here.\<close>

definition ahead :: "'h wsys \<Rightarrow> 'h sys \<Rightarrow> bool" where
  "ahead s a \<longleftrightarrow>
     (if sy_serve (ws_sys s) = Closed then
        sy_serve a = Closed \<and> sk_out (cn_rw (sy_conn a)) = sk_out (flush s) \<and>
        sk_room (cn_rw (sy_conn a)) = sk_room (flush s) \<and>
        c_maxFrameSize (cn_client (sy_conn a)) = c_maxFrameSize (cn_client (sy_conn (ws_sys s))) \<and>
        c_gotHello (cn_client (sy_conn a)) = c_gotHello (cn_client (sy_conn (ws_sys s)))
      else \<exists>pool. (\<forall>f \<in> set pool. pool_frame f) \<and>
        a = (ws_sys s)\<lparr>sy_conn := (sy_conn (ws_sys s))\<lparr>cn_rw := flush s, cn_pool := pool\<rparr>\<rparr>)"

lemma flush_start [simp]: "flush (wstart s) = cn_rw (sy_conn s)"
  by (simp add: flush_def wstart_def)

lemma ahead_start: "sys_start s \<Longrightarrow> orderly (wstart s) \<and> ahead (wstart s) s"
  by (auto simp: orderly_def ahead_def wstart_def flush_def idle_def sys_start_def pool_ok_def
      intro!: exI [of _ "cn_pool (sy_conn s)"])

lemma Serve_iter_not_closed: "sy_serve s = Serving \<Longrightarrow> sy_serve (Serve_iter handler s) \<noteq> Closed"
  by (auto simp: Serve_iter_def read_failed_def Let_def split: option.split prod.split)

lemma Serve_iter_queued:
  "sy_serve s = Serving \<Longrightarrow> sy_queue (Serve_iter handler s) = sy_queue s \<or>
     sy_serve (Serve_iter handler s) = Serving \<and> (\<exists>f. sy_queue (Serve_iter handler s) = sy_queue s @ [f])"
  by (auto simp: Serve_iter_def Let_def split: option.split prod.split)

text \<open>
  A property of connections that the steps keep, and that has the invariant: being reachable, or the
  invariant itself.
\<close>

definition step_closed :: "'h handler \<Rightarrow> ('h sys \<Rightarrow> bool) \<Rightarrow> bool" where
  "step_closed handler Q \<longleftrightarrow>
     (\<forall>a a'. Q a \<longrightarrow> sstep handler a a' \<longrightarrow> Q a') \<and> (\<forall>a. Q a \<longrightarrow> (\<exists>h0. sys_inv h0 a))"

lemma step_closedD:
  "step_closed handler Q \<Longrightarrow> Q a \<Longrightarrow> sstep handler a a' \<Longrightarrow> Q a'"
  "step_closed handler Q \<Longrightarrow> Q a \<Longrightarrow> \<exists>h0. sys_inv h0 a"
  by (auto simp: step_closed_def)

lemma step_closed_reachable: "handler_ok handler \<Longrightarrow> sys_start s0 \<Longrightarrow> step_closed handler (reachable handler s0)"
  using reachable_inv by (fastforce simp: step_closed_def intro: reachable.step)

lemma step_closed_inv: "handler_ok handler \<Longrightarrow> step_closed handler (\<lambda>a. \<exists>h0. sys_inv h0 a)"
  by (auto simp: step_closed_def intro: sstep_inv)

text \<open>Where nothing is to come, the other connection can take over the pool, and then agrees.\<close>

lemma ahead_idle:
  assumes "ahead s a" and "orderly s" and "sy_serve (ws_sys s) \<noteq> Closed" and "ws_writing s = []"
    and "Q a" and "step_closed handler Q"
  shows "Q (ws_sys s)"
proof -
  from assms(1,3) obtain pool where a: "a = (ws_sys s)\<lparr>sy_conn := (sy_conn (ws_sys s))\<lparr>cn_rw := flush s, cn_pool := pool\<rparr>\<rparr>"
    by (auto simp: ahead_def)
  have "flush s = cn_rw (sy_conn (ws_sys s))" using assms(2-4) by (auto simp: flush_def orderly_def split: option.splits)
  with a have "a\<lparr>sy_conn := (sy_conn a)\<lparr>cn_pool := cn_pool (sy_conn (ws_sys s))\<rparr>\<rparr> = ws_sys s" by simp
  moreover have "\<forall>f \<in> set (cn_pool (sy_conn (ws_sys s))). pool_frame f" using assms(2) by (simp add: orderly_def pool_ok_def)
  ultimately show ?thesis using step_closedD(1) [OF assms(6) assms(5) sstep.pool] by metis
qed

lemma orderly_closing: "orderly s \<Longrightarrow> sy_serve (ws_sys s) = Serving \<Longrightarrow> ws_closing s = None"
  by (cases "ws_closing s") (auto simp: orderly_def)

lemma orderly_busy:
  assumes "orderly s" and "ws_writing s \<noteq> [] \<or> sy_queue (ws_sys s) \<noteq> []"
  shows "sy_serve (ws_sys s) = Serving" "ws_closing s = None"
proof -
  show "sy_serve (ws_sys s) = Serving" using assms by (auto simp: orderly_def idle_def)
  with orderly_closing [OF assms(1)] show "ws_closing s = None" .
qed

lemma ahead_serve:
  assumes "ahead s a" and "orderly s" and "Q a" and "handler_ok handler" and "step_closed handler Q"
    and "sy_serve (ws_sys s) = Serving" and "idle s"
  shows "\<exists>a'. Q a' \<and> ahead (s\<lparr>ws_sys := Serve_iter handler (ws_sys s)\<rparr>) a' \<and>
    orderly (s\<lparr>ws_sys := Serve_iter handler (ws_sys s)\<rparr>)" (is "\<exists>a'. _ \<and> ahead ?t a' \<and> orderly ?t")
proof -
  let ?a = "Serve_iter handler (ws_sys s)"
  from assms(7) have q: "ws_writing s = []" "sy_queue (ws_sys s) = []" by (simp_all add: idle_def)
  have "Q (ws_sys s)" using ahead_idle [OF assms(1,2) _ q(1) assms(3,5)] assms(6) by simp
  then have r: "Q ?a" using sstep.serve [OF assms(6)] by (rule step_closedD(1) [OF assms(5)])
  from step_closedD(2) [OF assms(5) this] have p: "pool_ok (sy_conn ?a)" by (auto simp: sys_inv_def Let_def)
  have c: "ws_closing s = None" by (rule orderly_closing [OF assms(2,6)])
  have "orderly ?t"
    using Serve_iter_queued [OF assms(6), of handler] q c p by (auto simp: orderly_def idle_def)
  moreover have "ahead ?t ?a"
    using Serve_iter_not_closed [OF assms(6), of handler] q(1) c p
    by (auto simp: ahead_def flush_def pool_ok_def intro!: exI [of _ "cn_pool (sy_conn ?a)"])
  ultimately show ?thesis using r by blast
qed

lemma ahead_handle:
  assumes "ahead s a" and "orderly s" and "Q a" and "handler_ok handler" and "step_closed handler Q"
    and "sy_queue (ws_sys s) = fs @ f # gs" and "frame_calls handler f (sy_conn (ws_sys s)) = (cn, calls, held)"
  shows "\<exists>a'. Q a' \<and>
    ahead (s\<lparr>ws_sys := (ws_sys s)\<lparr>sy_conn := cn, sy_queue := fs @ gs\<rparr>, ws_writing := ws_writing s @ [(calls, held)]\<rparr>) a' \<and>
    orderly (s\<lparr>ws_sys := (ws_sys s)\<lparr>sy_conn := cn, sy_queue := fs @ gs\<rparr>, ws_writing := ws_writing s @ [(calls, held)]\<rparr>)"
    (is "\<exists>a'. _ \<and> ahead ?t a' \<and> orderly ?t")
proof -
  have q: "fs = []" "gs = []" "ws_writing s = []" "sy_serve (ws_sys s) = Serving" "ws_closing s = None"
    using assms(2,6) orderly_busy [OF assms(2)] by (auto simp: orderly_def)
  have r: "Q (ws_sys s)" using ahead_idle [OF assms(1,2) _ q(3) assms(3,5)] q(4) by simp
  from step_closedD(2) [OF assms(5) r] assms(6) have i: "pool_ok (sy_conn (ws_sys s))" "frame_inv f"
    "c_gotHello (cn_client (sy_conn (ws_sys s)))" by (auto simp: sys_inv_def Let_def)
  note fc = frame_calls_handler [OF assms(4) i assms(7)]
  let ?cn = "fst (frameHandler handler f (sy_conn (ws_sys s)))"
  obtain err where "wrapPanic (frameHandler handler f (sy_conn (ws_sys s))) = (?cn, err)"
    by (cases "frameHandler handler f (sy_conn (ws_sys s))"; cases "snd (frameHandler handler f (sy_conn (ws_sys s)))")
      (auto simp: wrapPanic_def)
  from step_closedD(1) [OF assms(5) r sstep.work [OF assms(6) this]]
  have "Q ((ws_sys s)\<lparr>sy_conn := ?cn, sy_queue := fs @ gs\<rparr>)" .
  moreover have "ahead ?t ((ws_sys s)\<lparr>sy_conn := ?cn, sy_queue := fs @ gs\<rparr>)"
    using q fc by (auto simp: ahead_def flush_def pool_ok_def intro!: exI [of _ "held @ cn_pool cn"])
  moreover have "orderly ?t" using q fc(1,2) by (auto simp: orderly_def)
  ultimately show ?thesis by blast
qed

text \<open>The calls of \<open>Write\<close> and the frames given back do not change what is ahead.\<close>

lemma ahead_call:
  assumes "ahead s a" and "orderly s" and "ws_writing s = xs @ (c # cs, held) # ys"
    and "Write c (cn_rw (sy_conn (ws_sys s))) = (w, n, err)"
  shows "ahead (upd_sys (\<lambda>cn. cn\<lparr>cn_rw := w\<rparr>) (s\<lparr>ws_writing := xs @ (if err = None then cs else [], held) # ys\<rparr>)) a \<and>
    orderly (upd_sys (\<lambda>cn. cn\<lparr>cn_rw := w\<rparr>) (s\<lparr>ws_writing := xs @ (if err = None then cs else [], held) # ys\<rparr>))"
    (is "ahead ?t a \<and> orderly ?t")
proof -
  have q: "xs = []" "ys = []" "sy_serve (ws_sys s) = Serving" "ws_closing s = None"
    using assms(2,3) orderly_busy [OF assms(2)] by (auto simp: orderly_def)
  have "flush ?t = flush s" using assms(3,4) q by (simp add: flush_def)
  with assms(1-3) q show ?thesis by (auto simp: ahead_def orderly_def pool_ok_def)
qed

lemma ahead_finish:
  assumes "ahead s a" and "orderly s" and "ws_writing s = xs @ ([], held) # ys"
  shows "ahead (upd_sys (\<lambda>cn. cn\<lparr>cn_pool := held @ cn_pool cn\<rparr>) (s\<lparr>ws_writing := xs @ ys\<rparr>)) a \<and>
    orderly (upd_sys (\<lambda>cn. cn\<lparr>cn_pool := held @ cn_pool cn\<rparr>) (s\<lparr>ws_writing := xs @ ys\<rparr>))"
    (is "ahead ?t a \<and> orderly ?t")
proof -
  have q: "xs = []" "ys = []" "sy_serve (ws_sys s) = Serving" "ws_closing s = None"
    using assms(2,3) orderly_busy [OF assms(2)] by (auto simp: orderly_def)
  have "flush ?t = flush s" using assms(3) q by (simp add: flush_def)
  with assms(1-3) q show ?thesis by (auto simp: ahead_def orderly_def pool_ok_def)
qed

lemma ahead_cancel:
  assumes "ahead s a" and "orderly s" and "Q a" and "step_closed handler Q"
  shows "\<exists>a'. Q a' \<and>
    ahead (upd_sys (\<lambda>cn. cn\<lparr>cn_client := ctxCancel cause (cn_client cn)\<rparr>) s) a' \<and>
    orderly (upd_sys (\<lambda>cn. cn\<lparr>cn_client := ctxCancel cause (cn_client cn)\<rparr>) s)" (is "\<exists>a'. _ \<and> ahead ?t a' \<and> orderly ?t")
proof -
  have o: "orderly ?t" using assms(2) by (simp add: orderly_def idle_def pool_ok_def)
  have fl: "flush ?t = flush s" by (simp add: flush_def)
  show ?thesis
  proof (cases "sy_serve (ws_sys s) = Closed")
    case True
    with assms(1) fl have "ahead ?t a" by (simp add: ahead_def)
    with o assms(3) show ?thesis by blast
  next
    case False
    let ?a = "a\<lparr>sy_conn := (sy_conn a)\<lparr>cn_client := ctxCancel cause (cn_client (sy_conn a))\<rparr>\<rparr>"
    have "ahead ?t ?a" using assms(1) False fl by (auto simp: ahead_def)
    with o step_closedD(1) [OF assms(4,3) sstep.base_cancel] show ?thesis by blast
  qed
qed

lemma ahead_pool:
  assumes "ahead s a" and "orderly s" and "\<forall>f \<in> set pool. pool_frame f"
  shows "ahead (upd_sys (\<lambda>cn. cn\<lparr>cn_pool := pool\<rparr>) s) a \<and> orderly (upd_sys (\<lambda>cn. cn\<lparr>cn_pool := pool\<rparr>) s)"
  using assms by (auto simp: ahead_def orderly_def idle_def pool_ok_def flush_def)

lemma Close_calls_pool:
  assumes "pool_ok cn" and "Close_calls cn = Ret (cn', calls, held)"
  shows "pool_ok cn' \<and> (\<forall>f \<in> set held. pool_frame f)"
proof -
  obtain e where "Close cn = Ret (cn'\<lparr>cn_rw := Writes calls (cn_rw cn), cn_pool := held @ cn_pool cn',
      cn_client := ctxCancel (Some (ErrFormat ''closing client'')) (cn_client cn)\<rparr>, e)"
    using Close_calls(1) [OF assms(2)] by blast
  with Close_step [OF assms(1)] show ?thesis by (auto simp: conn_step_def pool_ok_def)
qed

lemma ahead_close:
  assumes "ahead s a" and "orderly s" and "Q a" and "step_closed handler Q"
    and "sy_serve (ws_sys s) = Returned e \<or> sy_serve (ws_sys s) = Crashed"
    and "Close_calls (sy_conn (ws_sys s)) = Ret (cn, calls, held)"
  shows "\<exists>a'. Q a' \<and>
    ahead (s\<lparr>ws_sys := (ws_sys s)\<lparr>sy_conn := cn, sy_serve := Closed\<rparr>, ws_closing := Some (calls, held)\<rparr>) a' \<and>
    orderly (s\<lparr>ws_sys := (ws_sys s)\<lparr>sy_conn := cn, sy_serve := Closed\<rparr>, ws_closing := Some (calls, held)\<rparr>)"
    (is "\<exists>a'. _ \<and> ahead ?t a' \<and> orderly ?t")
proof -
  from assms(2,5) have q: "sy_queue (ws_sys s) = []" "ws_writing s = []" by (auto simp: orderly_def idle_def)
  have r: "Q (ws_sys s)" using ahead_idle [OF assms(1,2) _ q(2) assms(3,4)] assms(5) by auto
  note c = Close_calls [OF assms(6)]
  from c(1) obtain cn' e' where cn': "Close (sy_conn (ws_sys s)) = Ret (cn', e')" "cn_rw cn' = Writes calls (cn_rw cn)"
    "cn_client cn' = ctxCancel (Some (ErrFormat ''closing client'')) (cn_client cn)" using c(2,3) by auto
  from step_closedD(1) [OF assms(4) r sstep.close [OF assms(5) cn'(1)]]
  have "Q ((ws_sys s)\<lparr>sy_conn := close_conn cn', sy_serve := Closed\<rparr>)" .
  moreover have "ahead ?t ((ws_sys s)\<lparr>sy_conn := close_conn cn', sy_serve := Closed\<rparr>)"
    using q(2) cn'(2,3) by (simp add: ahead_def close_conn_def flush_def)
  moreover have "pool_ok (sy_conn (ws_sys s))" using assms(2) by (simp add: orderly_def)
  from Close_calls_pool [OF this assms(6)] have "orderly ?t" using q by (simp add: orderly_def idle_def)
  ultimately show ?thesis by blast
qed

lemma ahead_closing:
  assumes "ahead s a" and "orderly s" and "ws_closing s = Some (calls, held)"
  shows "Write c (cn_rw (sy_conn (ws_sys s))) = (w, n, err) \<Longrightarrow> calls = c # cs \<Longrightarrow>
      ahead (upd_sys (\<lambda>cn. cn\<lparr>cn_rw := w\<rparr>) (s\<lparr>ws_closing := Some (if err = None then cs else [], held)\<rparr>)) a \<and>
      orderly (upd_sys (\<lambda>cn. cn\<lparr>cn_rw := w\<rparr>) (s\<lparr>ws_closing := Some (if err = None then cs else [], held)\<rparr>))"
    and "calls = [] \<Longrightarrow>
      ahead (upd_sys (\<lambda>cn. close_conn (cn\<lparr>cn_pool := held @ cn_pool cn,
        cn_client := ctxCancel (Some (ErrFormat ''closing client'')) (cn_client cn)\<rparr>)) (s\<lparr>ws_closing := None\<rparr>)) a \<and>
      orderly (upd_sys (\<lambda>cn. close_conn (cn\<lparr>cn_pool := held @ cn_pool cn,
        cn_client := ctxCancel (Some (ErrFormat ''closing client'')) (cn_client cn)\<rparr>)) (s\<lparr>ws_closing := None\<rparr>))"
proof -
  from assms(2,3) have q: "sy_serve (ws_sys s) = Closed" by (auto simp: orderly_def)
  with assms(2) have i: "ws_writing s = []" "sy_queue (ws_sys s) = []" by (auto simp: orderly_def idle_def)
  {
    assume "Write c (cn_rw (sy_conn (ws_sys s))) = (w, n, err)" "calls = c # cs"
    with assms q i show "ahead (upd_sys (\<lambda>cn. cn\<lparr>cn_rw := w\<rparr>) (s\<lparr>ws_closing := Some (if err = None then cs else [], held)\<rparr>)) a \<and>
      orderly (upd_sys (\<lambda>cn. cn\<lparr>cn_rw := w\<rparr>) (s\<lparr>ws_closing := Some (if err = None then cs else [], held)\<rparr>))"
      by (auto simp: ahead_def flush_def orderly_def pool_ok_def idle_def)
  next
    assume "calls = []"
    with assms q i show "ahead (upd_sys (\<lambda>cn. close_conn (cn\<lparr>cn_pool := held @ cn_pool cn,
        cn_client := ctxCancel (Some (ErrFormat ''closing client'')) (cn_client cn)\<rparr>)) (s\<lparr>ws_closing := None\<rparr>)) a \<and>
      orderly (upd_sys (\<lambda>cn. close_conn (cn\<lparr>cn_pool := held @ cn_pool cn,
        cn_client := ctxCancel (Some (ErrFormat ''closing client'')) (cn_client cn)\<rparr>)) (s\<lparr>ws_closing := None\<rparr>))"
      by (auto simp: ahead_def flush_def orderly_def pool_ok_def idle_def close_conn_def)
  }
qed

text \<open>Every step without pipelining keeps some connection of \<open>SpopServe\<close> ahead.\<close>

lemma ahead_step:
  assumes "wstep False handler s s'" and "ahead s a" and "orderly s" and "Q a" and "handler_ok handler"
    and "step_closed handler Q"
  shows "\<exists>a'. Q a' \<and> ahead s' a' \<and> orderly s'"
  using assms(1)
proof (cases rule: wstep.cases)
  case serve
  then show ?thesis using ahead_serve [OF assms(2-6)] by simp
next
  case (handle fs f gs cn calls held)
  then show ?thesis using ahead_handle [OF assms(2-6)] by simp
next
  case (call xs c cs held ys w n err)
  then show ?thesis using ahead_call [OF assms(2,3)] assms(4) by blast
next
  case (finish xs held ys)
  then show ?thesis using ahead_finish [OF assms(2,3)] assms(4) by blast
next
  case (base_cancel cause)
  then show ?thesis using ahead_cancel [OF assms(2-4,6)] by simp
next
  case (pool pool)
  then show ?thesis using ahead_pool [OF assms(2,3)] assms(4) by blast
next
  case (close e cn calls held)
  then show ?thesis using ahead_close [OF assms(2-4,6)] by simp
next
  case (close_call c cs held w n err)
  then show ?thesis using ahead_closing(1) [OF assms(2,3)] assms(4) by blast
next
  case (hangup held)
  then show ?thesis using ahead_closing(2) [OF assms(2,3)] assms(4) by blast
qed

text \<open>The refinement: without pipelining the calls of \<open>Write\<close> are those of whole frames.\<close>

lemma wreachable_ahead:
  assumes "wreachable False handler s0 s" and "handler_ok handler" and "sys_start s0"
  shows "\<exists>a. reachable handler s0 a \<and> ahead s a \<and> orderly s"
  using assms(1)
proof (induction rule: wreachable.induct)
  case init
  with ahead_start [OF assms(3)] show ?case using reachable.init by blast
next
  case (step s s')
  then show ?case using ahead_step [OF step.hyps(2)] assms(2) step_closed_reachable [OF assms(2,3)] by blast
qed

lemma Writes_extends: "\<exists>more. sk_out (Writes calls w) = sk_out w @ more"
proof (induction calls arbitrary: w)
  case (Cons c cs)
  obtain w' n err where w: "Write c w = (w', n, err)" by (cases "Write c w")
  with Write_appends [OF w] Cons.IH [of w'] show ?case by auto
qed simp

lemma ahead_output:
  assumes "ahead s a" and "sys_inv h0 a"
  shows "let c = cn_client (sy_conn (ws_sys s)); n = c_maxFrameSize c in
    \<exists>frs. wire_log n (flush s) frs \<and>
      (sy_serve (ws_sys s) = Serving \<longrightarrow>
        (if c_gotHello c then size_ok n \<and> (\<exists>rest. frs = hello_frame n # rest) else sk_out (flush s) = []))"
proof -
  from assms(2) obtain frs where l:
    "wire_log (c_maxFrameSize (cn_client (sy_conn a))) (cn_rw (sy_conn a)) frs"
    "sy_serve a = Serving \<longrightarrow> c_gotHello (cn_client (sy_conn a)) \<longrightarrow>
      size_ok (c_maxFrameSize (cn_client (sy_conn a))) \<and>
      (\<exists>rest. frs = hello_frame (c_maxFrameSize (cn_client (sy_conn a))) # rest)"
    "sy_serve a = Serving \<longrightarrow> \<not> c_gotHello (cn_client (sy_conn a)) \<longrightarrow> sk_out (cn_rw (sy_conn a)) = []"
    unfolding sys_inv_def Let_def by blast
  have f: "sk_out (cn_rw (sy_conn a)) = sk_out (flush s)" "sk_room (cn_rw (sy_conn a)) = sk_room (flush s)"
    "sy_serve a = sy_serve (ws_sys s)"
    "c_maxFrameSize (cn_client (sy_conn a)) = c_maxFrameSize (cn_client (sy_conn (ws_sys s)))"
    "c_gotHello (cn_client (sy_conn a)) = c_gotHello (cn_client (sy_conn (ws_sys s)))"
    using assms(1) by (auto simp: ahead_def split: if_splits)
  with l show ?thesis unfolding Let_def by (intro exI [of _ frs]) (auto simp: wire_log_def)
qed

lemma flush_extends: "\<exists>more. sk_out (flush s) = sk_out (cn_rw (sy_conn (ws_sys s))) @ more"
  using Writes_extends unfolding flush_def by blast

lemma flush_idle: "idle s \<Longrightarrow> ws_closing s = None \<Longrightarrow> flush s = cn_rw (sy_conn (ws_sys s))"
  by (simp add: flush_def idle_def)


lemma demo_wreachable:
  "wreachable False demo_handler demo_sys (wstart (Serve_iter demo_handler demo_sys))"
proof -
  have "wstep False demo_handler (wstart demo_sys) ((wstart demo_sys)\<lparr>ws_sys := Serve_iter demo_handler (ws_sys (wstart demo_sys))\<rparr>)"
    by (rule wstep.serve) (simp_all add: wstart_def idle_def demo_sys_def)
  from wreachable.step [OF wreachable.init this] show ?thesis by (simp add: wstart_def)
qed


section \<open>Calls on a connection that does not fail\<close>

lemma Write_open_ended: "healthy w \<Longrightarrow> Write c w = (w\<lparr>sk_out := sk_out w @ c\<rparr>, length c, None)"
  by (simp add: Write_def healthy_def)

lemma Writes_room: "healthy w \<Longrightarrow> Writes calls w = w\<lparr>sk_out := sk_out w @ concat calls\<rparr>"
  by (induction calls arbitrary: w) (simp_all add: Write_open_ended)

text \<open>A worker makes its next call, or all the calls it has left.\<close>

lemma wreachable_call:
  assumes "wreachable pipelining handler s0 s" and "healthy (cn_rw (sy_conn (ws_sys s)))"
    and "ws_writing s = xs @ (c # cs, held) # ys"
  shows "wreachable pipelining handler s0 (upd_sys (\<lambda>cn. cn\<lparr>cn_rw := (cn_rw cn)\<lparr>sk_out := sk_out (cn_rw cn) @ c\<rparr>\<rparr>)
    (s\<lparr>ws_writing := xs @ (cs, held) # ys\<rparr>))"
  using wreachable.step [OF assms(1) wstep.call [OF assms(3) Write_open_ended [OF assms(2)]]] by simp

lemma wreachable_calls:
  assumes "wreachable pipelining handler s0 s" and "healthy (cn_rw (sy_conn (ws_sys s)))"
    and "ws_writing s = xs @ (cs, held) # ys"
  shows "wreachable pipelining handler s0 (upd_sys (\<lambda>cn. cn\<lparr>cn_rw := (cn_rw cn)\<lparr>sk_out := sk_out (cn_rw cn) @ concat cs\<rparr>\<rparr>)
    (s\<lparr>ws_writing := xs @ ([], held) # ys\<rparr>))"
  using assms
proof (induction cs arbitrary: s)
  case Nil
  then show ?case by (cases s) simp
next
  case (Cons c cs)
  from Cons.IH [OF wreachable_call [OF Cons.prems]] Cons.prems(2) show ?case by simp
qed

text \<open>Two workers that write: the first call of each, then the others of each.\<close>

lemma mixed_calls:
  assumes "wreachable pipelining handler s0 s" and "healthy (cn_rw (sy_conn (ws_sys s)))"
    and "sy_queue (ws_sys s) = []" and "ws_writing s = [(l1 # c1, h1), (l2 # c2, h2)]"
  shows "\<exists>t. wreachable pipelining handler s0 t \<and> idle t \<and>
    sk_out (cn_rw (sy_conn (ws_sys t))) = sk_out (cn_rw (sy_conn (ws_sys s))) @ l1 @ l2 @ concat c1 @ concat c2"
proof -
  let ?t = "\<lambda>s bs ws. upd_sys (\<lambda>cn. cn\<lparr>cn_rw := (cn_rw cn)\<lparr>sk_out := sk_out (cn_rw cn) @ bs\<rparr>\<rparr>) (s\<lparr>ws_writing := ws\<rparr>)"
  let ?p = "\<lambda>s held ws. upd_sys (\<lambda>cn. cn\<lparr>cn_pool := held @ cn_pool cn\<rparr>) (s\<lparr>ws_writing := ws\<rparr>)"
  define s1 where "s1 = ?t s l1 [(c1, h1), (l2 # c2, h2)]"
  define s2 where "s2 = ?t s1 l2 [(c1, h1), (c2, h2)]"
  define s3 where "s3 = ?t s2 (concat c1) [([], h1), (c2, h2)]"
  define s4 where "s4 = ?t s3 (concat c2) [([], h1), ([], h2)]"
  define s5 where "s5 = ?p s4 h1 [([], h2)]"
  define s6 where "s6 = ?p s5 h2 []"
  let ?ok = "\<lambda>t out. healthy (cn_rw (sy_conn (ws_sys t))) \<and> sk_out (cn_rw (sy_conn (ws_sys t))) = out \<and>
    sy_queue (ws_sys t) = []"
  let ?o = "sk_out (cn_rw (sy_conn (ws_sys s)))"
  have o0: "?ok s ?o" using assms(2,3) by simp
  then have o1: "?ok s1 (?o @ l1)" by (simp add: s1_def)
  then have o2: "?ok s2 (?o @ l1 @ l2)" by (simp add: s2_def)
  then have o3: "?ok s3 (?o @ l1 @ l2 @ concat c1)" by (simp add: s3_def)
  then have o4: "?ok s4 (?o @ l1 @ l2 @ concat c1 @ concat c2)" by (simp add: s4_def)
  then have "?ok s5 (?o @ l1 @ l2 @ concat c1 @ concat c2)" by (simp add: s5_def)
  then have o6: "idle s6 \<and> sk_out (cn_rw (sy_conn (ws_sys s6))) = ?o @ l1 @ l2 @ concat c1 @ concat c2"
    by (simp add: s6_def idle_def)
  have w: "ws_writing s = [] @ (l1 # c1, h1) # [(l2 # c2, h2)]" "ws_writing s1 = [(c1, h1)] @ (l2 # c2, h2) # []"
    "ws_writing s2 = [] @ (c1, h1) # [(c2, h2)]" "ws_writing s3 = [([], h1)] @ (c2, h2) # []"
    "ws_writing s4 = [] @ ([], h1) # [([], h2)]" "ws_writing s5 = [] @ ([], h2) # []"
    by (simp_all add: assms(4) s1_def s2_def s3_def s4_def s5_def)
  have "wreachable pipelining handler s0 s1"
    using wreachable_call [OF assms(1) conjunct1 [OF o0] w(1)] by (simp only: s1_def append_Nil)
  from wreachable_call [OF this conjunct1 [OF o1] w(2)] have "wreachable pipelining handler s0 s2"
    by (simp only: s2_def append_Nil append_Cons)
  from wreachable_calls [OF this conjunct1 [OF o2] w(3)] have "wreachable pipelining handler s0 s3"
    by (simp only: s3_def append_Nil)
  from wreachable_calls [OF this conjunct1 [OF o3] w(4)] have "wreachable pipelining handler s0 s4"
    by (simp only: s4_def append_Nil append_Cons)
  from wreachable.step [OF this wstep.finish [OF w(5)]] have "wreachable pipelining handler s0 s5"
    by (simp only: s5_def append_Nil)
  from wreachable.step [OF this wstep.finish [OF w(6)]] have "wreachable pipelining handler s0 s6"
    by (simp only: s6_def append_Nil)
  with o6 show ?thesis by blast
qed

end
