(* ===== verification/SpopSession.thy ===== *)
theory SpopSession
  imports SpopExample SpopWrites "HOL-Library.Multiset"
begin

text \<open>
  A whole session of an agent's connection: HAProxy sends its HELLO and then any number of NOTIFY
  frames. Whatever the order in which \<open>Serve\<close> reads and the workers handle the frames, each NOTIFY is
  answered at most once, by the ACK of its own message with its own identifiers, nothing else is
  sent after the AGENT-HELLO while the connection is open, and no frame is forgotten.
\<close>

section \<open>The conversation\<close>

type_synonym notify = "frameMetadata \<times> msg"

definition notify_wire :: "notify \<Rightarrow> byte list" where
  "notify_wire nf = wire_frame frameTypeIDNotify (fst nf) (msg_enc (snd nf))"

definition ack_wire :: "(msg \<Rightarrow> action list) \<Rightarrow> notify \<Rightarrow> byte list" where
  "ack_wire acts nf =
     wire_frame frameTypeIDAck (ack_meta (FrameID (fst nf)) (StreamID (fst nf)))
       (concat (map action_enc (acts (snd nf))))"

text \<open>A NOTIFY of one message that fits into a frame of the negotiated size, as does its answer.\<close>

definition notify_fits :: "(msg \<Rightarrow> action list) \<Rightarrow> u32 \<Rightarrow> notify \<Rightarrow> bool" where
  "notify_fits acts n nf \<longleftrightarrow> wf_msg (snd nf) \<and> 25 + length (msg_enc (snd nf)) \<le> unat n \<and>
     25 + length (concat (map action_enc (acts (snd nf)))) \<le> unat n"

text \<open>A queued frame that holds a NOTIFY.\<close>

definition holds :: "frame \<Rightarrow> notify \<Rightarrow> bool" where
  "holds f nf \<longleftrightarrow> frame_inv f \<and> f_frameType f = frameTypeIDNotify \<and> f_meta f = fst nf \<and>
     (\<exists>sp. ReadBytes (f_buf f) = Ret (Slice (msg_enc (snd nf)) sp))"

text \<open>
  An open connection in its session: \<open>acked\<close> are the answered frames in the order of their answers,
  \<open>qs\<close> the queued ones, \<open>later\<close> those still on the wire.
\<close>

definition session :: "(msg \<Rightarrow> action list) \<Rightarrow> u32 \<Rightarrow> byte list \<Rightarrow> notify list \<Rightarrow> 'h sys \<Rightarrow> bool" where
  "session acts n hello ns s \<longleftrightarrow>
     pool_ok (sy_conn s) \<and> healthy (cn_rw (sy_conn s)) \<and>
     (if c_gotHello (cn_client (sy_conn s)) then
        c_maxFrameSize (cn_client (sy_conn s)) = n \<and>
        (sy_serve s = Serving \<or> (\<exists>e. sy_serve s = Returned e)) \<and>
        (\<exists>acked qs later. list_all2 holds (sy_queue s) qs \<and>
           rd_data (sy_in s) = concat (map notify_wire later) \<and>
           mset ns = mset acked + mset qs + mset later \<and>
           sk_out (cn_rw (sy_conn s)) = wire_of (hello_frame n) @ concat (map (ack_wire acts) acked))
      else sys_start s \<and> rd_data (sy_in s) = hello @ concat (map notify_wire ns))"

text \<open>The HELLO of the session, and the size it settles.\<close>

definition hello_of :: "kv list \<Rightarrow> u32 \<Rightarrow> byte list \<Rightarrow> bool" where
  "hello_of kvs n hello \<longleftrightarrow>
     (\<exists>m. hello = wire_frame frameTypeIDHaproxyHello m (concat (map kv_enc kvs))) \<and>
     25 + length (concat (map kv_enc kvs)) \<le> maxFrameSize \<and> (\<forall>kv \<in> set kvs. wf_kv kv) \<and>
     sizes kvs \<noteq> [] \<and> list_all size_ok (sizes kvs) \<and> n = last (sizes kvs)"

lemma sstep_not_closed: "sstep handler s s' \<Longrightarrow> sy_serve s' \<noteq> Closed \<Longrightarrow> sy_serve s \<noteq> Closed"
  by (auto elim!: sstep.cases)

lemma notify_wire_nonempty [simp]: "notify_wire nf \<noteq> []"
  using wire_of_nonempty [of "(frameTypeIDNotify, fst nf, msg_enc (snd nf))"] by (simp add: notify_wire_def wire_of_def)

lemma session_output:
  assumes "session acts n hello ns s"
  shows "\<exists>acked. mset acked \<subseteq># mset ns \<and>
    sk_out (cn_rw (sy_conn s)) = (if c_gotHello (cn_client (sy_conn s))
      then wire_of (hello_frame n) @ concat (map (ack_wire acts) acked) else []) \<and>
    (c_gotHello (cn_client (sy_conn s)) \<and> rd_data (sy_in s) = [] \<and> sy_queue s = [] \<longrightarrow> mset acked = mset ns)"
proof (cases "c_gotHello (cn_client (sy_conn s))")
  case True
  with assms obtain acked qs later where q: "list_all2 holds (sy_queue s) qs"
    "rd_data (sy_in s) = concat (map notify_wire later)" "mset ns = mset acked + mset qs + mset later"
    "sk_out (cn_rw (sy_conn s)) = wire_of (hello_frame n) @ concat (map (ack_wire acts) acked)"
    unfolding session_def by auto
  have "later = []" if "rd_data (sy_in s) = []" using q(2) that by (cases later) auto
  moreover have "qs = []" if "sy_queue s = []" using q(1) that by simp
  ultimately show ?thesis using True q(3,4) by (intro exI [of _ acked]) simp
next
  case False
  with assms show ?thesis by (intro exI [of _ "[]"]) (simp add: session_def sys_start_def)
qed

section \<open>The end of the input\<close>

lemma Serve_iter_eof:
  assumes "pool_ok (sy_conn s)" and "rd_data (sy_in s) = []"
  obtains f pool r err where
    "Serve_iter handler s = s\<lparr>sy_conn := (sy_conn s)\<lparr>cn_pool := f # pool\<rparr>, sy_in := r,
       sy_serve := read_failed err (cn_client (sy_conn s))\<rparr>"
    "pool_frame f" "\<forall>f \<in> set pool. pool_frame f" "rd_data r = []"
proof -
  from assms(1) obtain pf pool where p: "acquireFrame (cn_pool (sy_conn s)) = Ret (pf, pool)" "pool_frame pf"
    "\<forall>f \<in> set pool. pool_frame f" by (auto simp: pool_ok_def elim: acquireFrame_ok)
  let ?lim = "serve_limit (cn_client (sy_conn s))"
  have "length (f_length pf) = 4" using p(2) by (simp add: pool_frame_def wire_defs)
  then obtain f r n err where r: "readFrom pf (sy_in s) ?lim = Ret (f, r, n, Some err)" "rd_data r = []"
    using assms(2) by (auto simp: readFrom_def ReadFull_def Let_def)
  then have "frame_inv f" using readFrom_inv pool_frame_inv p(2) by blast
  then show ?thesis
    using p(1,3) r by (intro that [where f = "releaseFrame f" and pool = pool and r = r and err = err])
      (simp_all add: Serve_iter_def Let_def pool_frame_release)
qed

text \<open>A round of \<open>Serve\<close> after the handshake with a NOTIFY on the wire.\<close>

lemma serve_notify:
  assumes "pool_ok (sy_conn s)" and "c_gotHello (cn_client (sy_conn s))"
    and "rd_data (sy_in s) = notify_wire nf @ rest" and "notify_fits acts (c_maxFrameSize (cn_client (sy_conn s))) nf"
  obtains f pool where "Serve_iter handler s = s\<lparr>sy_conn := (sy_conn s)\<lparr>cn_pool := pool\<rparr>,
      sy_in := (sy_in s)\<lparr>rd_data := rest\<rparr>, sy_queue := sy_queue s @ [f]\<rparr>"
    "holds f nf" "\<forall>f \<in> set pool. pool_frame f"
proof -
  from assms(2,4) have fits: "25 + length (msg_enc (snd nf)) \<le> unat (serve_limit (cn_client (sy_conn s)))"
    by (simp add: notify_fits_def serve_limit_def)
  obtain f pool sp where
    A: "do { (f, pool) \<leftarrow> acquireFrame (cn_pool (sy_conn s));
      (f, r, n, err) \<leftarrow> readFrom f (sy_in s) (serve_limit (cn_client (sy_conn s)));
      Ret (f, pool, r, err) } = Ret (f, pool, (sy_in s)\<lparr>rd_data := rest\<rparr>, None)"
    and f: "frame_inv f" "\<forall>f \<in> set pool. pool_frame f" "f_frameType f = frameTypeIDNotify" "f_meta f = fst nf"
      "ReadBytes (f_buf f) = Ret (Slice (msg_enc (snd nf)) sp)"
    by (rule Serve_iter_wire [OF assms(1) assms(3) [unfolded notify_wire_def] fits])
  have "Serve_iter handler s = s\<lparr>sy_conn := (sy_conn s)\<lparr>cn_pool := pool\<rparr>,
      sy_in := (sy_in s)\<lparr>rd_data := rest\<rparr>, sy_queue := sy_queue s @ [f]\<rparr>"
    using A assms(2) by (simp add: Serve_iter_def Let_def)
  with f that [of f pool] show ?thesis by (auto simp: holds_def)
qed

lemma read_failed_returns: "\<exists>e. read_failed err c = Returned e"
  by (simp add: read_failed_def split: option.split)

section \<open>Handlers that answer\<close>

text \<open>
  The contract: whatever its state, the handler answers a message with the actions \<open>acts\<close> of the
  message alone, and leaves the message's scanner at its end.
\<close>

locale notify_answerer =
  fixes handler :: "'h handler" and acts :: "msg \<Rightarrow> action list"
  assumes contract: "handler_ok handler"
    and acts_wf: "wf_msg m \<Longrightarrow> \<forall>a \<in> set (acts m). wf_action a"
    and answers: "wf_msg m \<Longrightarrow> 2 * length (concat (map action_enc (acts m))) \<le> max_alloc \<Longrightarrow>
      \<exists>h'. \<forall>aw. aw_ok aw \<longrightarrow> wb_off aw = 0 \<longrightarrow> (\<exists>aw' m' kv kv'.
        handler h ctx aw (delivered m (concat (map kv_enc (snd m))) sp) = (h', Ret (aw', m')) \<and>
        write_all action_write (acts m) aw = Ret (aw', None) \<and> m_KV m' = Some kv \<and> Discard kv = Ret (kv', None))"
begin

lemma handle_notify:
  assumes "pool_ok cn" and "healthy (cn_rw cn)" and "holds f nf"
    and "notify_fits acts (c_maxFrameSize (cn_client cn)) nf"
  obtains cn' where "wrapPanic (frameHandler handler f cn) = (cn', None)" "pool_ok cn'"
    "cn_client cn' = cn_client cn" "healthy (cn_rw cn')"
    "sk_out (cn_rw cn') = sk_out (cn_rw cn) @ ack_wire acts nf"
proof -
  let ?m = "snd nf" and ?a = "ack_meta (FrameID (f_meta f)) (StreamID (f_meta f))"
  let ?p = "concat (map action_enc (acts (snd nf)))"
  from assms(3) obtain sp where f: "frame_inv f" "f_frameType f = frameTypeIDNotify" "f_meta f = fst nf"
    "ReadBytes (f_buf f) = Ret (Slice (msg_enc ?m) sp)" by (auto simp: holds_def)
  from assms(4) have m: "wf_msg ?m" "25 + length ?p \<le> unat (c_maxFrameSize (cn_client cn))"
    by (simp_all add: notify_fits_def)
  with unat_u32_alloc [of "c_maxFrameSize (cn_client cn)"]
    unsigned_less [of "c_maxFrameSize (cn_client cn)", where ?'a = nat]
  have alloc: "2 * length ?p \<le> max_alloc" by (simp add: max_alloc_def)
  obtain h' where h: "\<forall>aw. aw_ok aw \<longrightarrow> wb_off aw = 0 \<longrightarrow> (\<exists>aw' m' kv kv'.
      handler (cn_h cn) (c_ctx (cn_client cn)) aw (delivered ?m (concat (map kv_enc (snd ?m))) sp) =
        (h', Ret (aw', m')) \<and>
      write_all action_write (acts ?m) aw = Ret (aw', None) \<and> m_KV m' = Some kv \<and> Discard kv = Ret (kv', None))"
    using answers [OF m(1) alloc] by blast
  have "length (pool_header frameTypeIDAck ?a) + length ?p \<le> unat (c_maxFrameSize (cn_client cn))"
    using m(2) length_pool_header [of frameTypeIDAck ?a] by simp
  with notify_answers [OF assms(1) contract m(1) f(4) h acts_wf [OF m(1)] alloc] obtain cn' err n where
    c: "onNotify handler f cn = (cn', Ret err)" "pool_ok cn'" "cn_client cn' = cn_client cn"
      "sent (cn_rw cn) (wire_frame frameTypeIDAck ?a ?p) (cn_rw cn') n err"
    by (auto simp: Let_def)
  with assms(2) have out: "err = None" "healthy (cn_rw cn')"
    "sk_out (cn_rw cn') = sk_out (cn_rw cn) @ ack_wire acts nf"
    by (auto simp: sent_def ack_wire_def f(3))
  have "frameTypeIDNotify \<noteq> frameTypeIDHaproxyHello" by (simp add: wire_defs)
  with c(1) f(2) out(1) have "wrapPanic (frameHandler handler f cn) =
      (cn'\<lparr>cn_pool := releaseFrame f # cn_pool cn'\<rparr>, None)"
    by (simp add: frameHandler_def wrapPanic_def)
  then show ?thesis
    using c(2,3) out(2,3) pool_frame_release [OF f(1)]
    by (intro that [of "cn'\<lparr>cn_pool := releaseFrame f # cn_pool cn'\<rparr>"]) (simp_all add: pool_ok_def)
qed

text \<open>The calls of \<open>Write\<close> with which a worker answers: the length first.\<close>

lemma handle_calls:
  assumes "pool_ok cn" and "healthy (cn_rw cn)" and "holds f nf"
    and "notify_fits acts (c_maxFrameSize (cn_client cn)) nf" and "c_gotHello (cn_client cn)"
  obtains cn' l calls held where "frame_calls handler f cn = (cn', l # calls, held)" "length l = 4"
    "l @ concat calls = ack_wire acts nf" "pool_ok cn'" "cn_client cn' = cn_client cn" "cn_rw cn' = cn_rw cn"
    "\<forall>f \<in> set held. pool_frame f"
proof -
  obtain cn' calls held where fc: "frame_calls handler f cn = (cn', calls, held)" by (cases "frame_calls handler f cn")
  have inv: "frame_inv f" using assms(3) by (simp add: holds_def)
  note c = frame_calls_handler [OF contract assms(1) inv assms(5) fc]
  from handle_notify [OF assms(1-4)] obtain cn'' where
    w: "wrapPanic (frameHandler handler f cn) = (cn'', None)" "cn_client cn'' = cn_client cn"
      "sk_out (cn_rw cn'') = sk_out (cn_rw cn) @ ack_wire acts nf" by metis
  then have cn'': "cn'' = fst (frameHandler handler f cn)"
    by (auto simp: wrapPanic_def split: prod.splits option.splits)
  with w c(5) Writes_room [OF assms(2)] have e: "concat calls = ack_wire acts nf" "cn_client cn' = cn_client cn"
    by simp_all
  have "ack_wire acts nf \<noteq> []" by (simp add: ack_wire_def wire_frame_def be32_def Let_def)
  with e(1) obtain l cs where "calls = l # cs" by (cases calls) auto
  with e fc c(1-4) that [of cn' l cs held] show ?thesis by (simp add: prefixed_def)
qed

lemma session_work:
  assumes "session acts n hello ns s" and "\<forall>nf \<in> set ns. notify_fits acts n nf"
    and "sy_queue s = fs @ f # gs" and "wrapPanic (frameHandler handler f (sy_conn s)) = (cn, err)"
  shows "session acts n hello ns (s\<lparr>sy_conn := cn, sy_queue := fs @ gs\<rparr>)"
proof -
  let ?c = "cn_client (sy_conn s)"
  have got: "c_gotHello ?c" using assms(1,3) by (auto simp: session_def sys_start_def split: if_splits)
  with assms(1) obtain acked qs later where q: "list_all2 holds (sy_queue s) qs"
    "rd_data (sy_in s) = concat (map notify_wire later)" "mset ns = mset acked + mset qs + mset later"
    "sk_out (cn_rw (sy_conn s)) = wire_of (hello_frame n) @ concat (map (ack_wire acts) acked)"
    unfolding session_def by auto
  from assms(1) got have st: "pool_ok (sy_conn s)" "healthy (cn_rw (sy_conn s))" "c_maxFrameSize ?c = n"
    "sy_serve s = Serving \<or> (\<exists>e. sy_serve s = Returned e)" by (simp_all add: session_def)
  from q(1) assms(3) obtain as nf bs where qs: "qs = as @ nf # bs" "list_all2 holds fs as" "holds f nf"
    "list_all2 holds gs bs" by (auto simp: list_all2_append1 list_all2_Cons1)
  have "nf \<in># mset ns" using q(3) qs(1) by simp
  with assms(2) st(3) have "notify_fits acts (c_maxFrameSize ?c) nf" by simp
  from handle_notify [OF st(1,2) qs(3) this] assms(4) have cn: "pool_ok cn" "cn_client cn = ?c"
    "healthy (cn_rw cn)" "sk_out (cn_rw cn) = sk_out (cn_rw (sy_conn s)) @ ack_wire acts nf" by auto
  have "list_all2 holds (fs @ gs) (as @ bs)" using qs(2,4) by (rule list_all2_appendI)
  moreover have "mset ns = mset (acked @ [nf]) + mset (as @ bs) + mset later" using q(3) qs(1) by simp
  moreover have "sk_out (cn_rw cn) = wire_of (hello_frame n) @ concat (map (ack_wire acts) (acked @ [nf]))"
    using cn(4) q(4) by simp
  ultimately have "\<exists>acked qs later. list_all2 holds (fs @ gs) qs \<and>
      rd_data (sy_in s) = concat (map notify_wire later) \<and> mset ns = mset acked + mset qs + mset later \<and>
      sk_out (cn_rw cn) = wire_of (hello_frame n) @ concat (map (ack_wire acts) acked)"
    using q(2) by blast
  with st(3,4) cn got show ?thesis by (simp add: session_def)
qed

lemma session_serve:
  assumes "session acts n hello ns s" and "\<forall>nf \<in> set ns. notify_fits acts n nf" and "sy_serve s = Serving"
    and "c_gotHello (cn_client (sy_conn s))"
  shows "session acts n hello ns (Serve_iter handler s)"
proof -
  let ?c = "cn_client (sy_conn s)"
  from assms(1,4) obtain acked qs later where q: "list_all2 holds (sy_queue s) qs"
    "rd_data (sy_in s) = concat (map notify_wire later)" "mset ns = mset acked + mset qs + mset later"
    "sk_out (cn_rw (sy_conn s)) = wire_of (hello_frame n) @ concat (map (ack_wire acts) acked)"
    unfolding session_def by auto
  from assms(1,4) have st: "pool_ok (sy_conn s)" "healthy (cn_rw (sy_conn s))" "c_maxFrameSize ?c = n"
    by (simp_all add: session_def)
  show ?thesis
  proof (cases later)
    case Nil
    with q(2) have eof: "rd_data (sy_in s) = []" by simp
    obtain f pool r err where e:
      "Serve_iter handler s = s\<lparr>sy_conn := (sy_conn s)\<lparr>cn_pool := f # pool\<rparr>, sy_in := r,
         sy_serve := read_failed err ?c\<rparr>"
      "pool_frame f" "\<forall>f \<in> set pool. pool_frame f" "rd_data r = []"
      by (rule Serve_iter_eof [OF st(1) eof])
    have "\<exists>acked qs later. list_all2 holds (sy_queue s) qs \<and> [] = concat (map notify_wire later) \<and>
        mset ns = mset acked + mset qs + mset later \<and>
        sk_out (cn_rw (sy_conn s)) = wire_of (hello_frame n) @ concat (map (ack_wire acts) acked)"
      using q Nil by (intro exI [of _ acked] exI [of _ qs] exI [of _ "[]"]) simp
    moreover obtain e' where "read_failed err ?c = Returned e'" using read_failed_returns by blast
    ultimately show ?thesis using st(2,3) e(2-4) assms(4) by (simp add: e(1) session_def pool_ok_def)
  next
    case (Cons nf more)
    then have "nf \<in># mset ns" using q(3) by simp
    with assms(2) st(3) have fits: "notify_fits acts (c_maxFrameSize ?c) nf" by simp
    from q(2) Cons have wire: "rd_data (sy_in s) = notify_wire nf @ concat (map notify_wire more)" by simp
    obtain f pool where it: "Serve_iter handler s = s\<lparr>sy_conn := (sy_conn s)\<lparr>cn_pool := pool\<rparr>,
        sy_in := (sy_in s)\<lparr>rd_data := concat (map notify_wire more)\<rparr>, sy_queue := sy_queue s @ [f]\<rparr>"
      and f: "holds f nf" "\<forall>f \<in> set pool. pool_frame f"
      by (rule serve_notify [OF st(1) assms(4) wire fits])
    from q(1) f(1) have "list_all2 holds (sy_queue s @ [f]) (qs @ [nf])" by (simp add: list_all2_appendI)
    moreover have "mset ns = mset acked + mset (qs @ [nf]) + mset more" using q(3) Cons by simp
    ultimately have "\<exists>acked' qs' later. list_all2 holds (sy_queue s @ [f]) qs' \<and>
        concat (map notify_wire more) = concat (map notify_wire later) \<and>
        mset ns = mset acked' + mset qs' + mset later \<and>
        sk_out (cn_rw (sy_conn s)) = wire_of (hello_frame n) @ concat (map (ack_wire acts) acked')"
      using q(4) by (intro exI [of _ acked] exI [of _ "qs @ [nf]"] exI [of _ more]) simp
    with st assms(3,4) f(2) show ?thesis by (simp add: session_def it pool_ok_def)
  qed
qed

lemma session_hello:
  assumes "hello_of kvs n hello" and "session acts n hello ns s" and "\<not> c_gotHello (cn_client (sy_conn s))"
  shows "session acts n hello ns (Serve_iter handler s)"
proof -
  from assms(2,3) have st: "healthy (cn_rw (sy_conn s))" "sys_start s"
    "rd_data (sy_in s) = hello @ concat (map notify_wire ns)" by (simp_all add: session_def)
  from assms(1) obtain m where h: "hello = wire_frame frameTypeIDHaproxyHello m (concat (map kv_enc kvs))"
    "25 + length (concat (map kv_enc kvs)) \<le> maxFrameSize" "\<forall>kv \<in> set kvs. wf_kv kv"
    "sizes kvs \<noteq> []" "list_all size_ok (sizes kvs)" "n = last (sizes kvs)" by (auto simp: hello_of_def)
  obtain cn where cn: "Serve_iter handler s = s\<lparr>sy_conn := cn, sy_in := (sy_in s)\<lparr>rd_data := concat (map notify_wire ns)\<rparr>,
      sy_serve := (case c_ctx (cn_client cn) of None \<Rightarrow> Serving | Some cause \<Rightarrow> Returned (Some cause))\<rparr>"
    "pool_ok cn" "healthy (cn_rw cn)" "sk_out (cn_rw cn) = wire_of (hello_frame (last (sizes kvs)))"
    "cn_client cn = (let c = negotiated kvs ((cn_client (sy_conn s))\<lparr>c_gotHello := True\<rparr>) in
       if healthcheck kvs then ctxCancel None c else c)"
    by (rule serve_hello_step [OF st(2,1) st(3) [unfolded h(1)] h(2-5)])
  have c: "c_gotHello (cn_client cn)" "c_maxFrameSize (cn_client cn) = n"
    using h(4,6) by (simp_all add: cn(5) Let_def negotiated_def)
  have "sy_queue s = []" using st(2) by (simp add: sys_start_def)
  then have "\<exists>acked qs later. list_all2 holds (sy_queue s) qs \<and>
      concat (map notify_wire ns) = concat (map notify_wire later) \<and> mset ns = mset acked + mset qs + mset later \<and>
      sk_out (cn_rw cn) = wire_of (hello_frame n) @ concat (map (ack_wire acts) acked)"
    using cn(4) h(6) by (intro exI [of _ "[]"] exI [of _ ns]) simp
  with cn(1-3) c show ?thesis by (simp add: session_def split: option.split)
qed

lemma session_cancel:
  assumes "session acts n hello ns s"
  shows "session acts n hello ns
    (s\<lparr>sy_conn := (sy_conn s)\<lparr>cn_client := ctxCancel cause (cn_client (sy_conn s))\<rparr>\<rparr>)"
proof -
  have "sys_start (s\<lparr>sy_conn := (sy_conn s)\<lparr>cn_client := ctxCancel cause (cn_client (sy_conn s))\<rparr>\<rparr>)" if "sys_start s"
    using that by (auto simp: sys_start_def newProtocolClient_def ctxCancel_def pool_ok_def split: option.split)
  with assms show ?thesis
    by (cases "c_gotHello (cn_client (sy_conn s))") (simp_all add: session_def pool_ok_def)
qed

lemma session_pool:
  assumes "session acts n hello ns s" and "\<forall>f \<in> set pool. pool_frame f"
  shows "session acts n hello ns (s\<lparr>sy_conn := (sy_conn s)\<lparr>cn_pool := pool\<rparr>\<rparr>)"
  using assms by (auto simp: session_def pool_ok_def sys_start_def)

lemma session_step:
  assumes "hello_of kvs n hello" and "\<forall>nf \<in> set ns. notify_fits acts n nf"
    and "session acts n hello ns s" and "sstep handler s s'" and "sy_serve s' \<noteq> Closed"
  shows "session acts n hello ns s'"
  using assms(4)
proof (cases rule: sstep.cases)
  case serve
  then show ?thesis using session_serve [OF assms(3,2)] session_hello [OF assms(1,3)] by blast
next
  case (work fs f gs cn err)
  then show ?thesis using session_work [OF assms(3,2)] by simp
next
  case (base_cancel cause)
  then show ?thesis using session_cancel [OF assms(3)] by simp
next
  case (pool pool)
  then show ?thesis using session_pool [OF assms(3)] by simp
next
  case (close err cn e)
  with assms(5) show ?thesis by simp
qed

lemma session_reachable:
  assumes "reachable handler s0 s" and "hello_of kvs n hello" and "\<forall>nf \<in> set ns. notify_fits acts n nf"
    and "session acts n hello ns s0"
  shows "sy_serve s \<noteq> Closed \<longrightarrow> session acts n hello ns s"
  using assms(1)
proof (induction rule: reachable.induct)
  case (step s s')
  then show ?case using session_step [OF assms(2,3)] sstep_not_closed by blast
qed (use assms(4) in simp)

text \<open>
  Two workers whose calls of \<open>Write\<close> fall between each other: both have handled their frame before
  either writes, then one writes its length, the other its length, then each the rest.
\<close>

lemma two_writers:
  assumes "wreachable pipelining handler s0 s" and "pool_ok (sy_conn (ws_sys s))"
    and "healthy (cn_rw (sy_conn (ws_sys s)))" and "c_gotHello (cn_client (sy_conn (ws_sys s)))"
    and "ws_writing s = []" and "sy_queue (ws_sys s) = [f, g]" and "holds f a" and "holds g b"
    and "notify_fits acts (c_maxFrameSize (cn_client (sy_conn (ws_sys s)))) a"
    and "notify_fits acts (c_maxFrameSize (cn_client (sy_conn (ws_sys s)))) b"
  shows "\<exists>t. wreachable pipelining handler s0 t \<and> idle t \<and> sk_out (cn_rw (sy_conn (ws_sys t))) =
    sk_out (cn_rw (sy_conn (ws_sys s))) @ take 4 (ack_wire acts a) @ take 4 (ack_wire acts b) @
    drop 4 (ack_wire acts a) @ drop 4 (ack_wire acts b)"
proof -
  let ?cn = "sy_conn (ws_sys s)"
  obtain cn1 l1 c1 h1 where 1: "frame_calls handler f ?cn = (cn1, l1 # c1, h1)" "length l1 = 4"
    "l1 @ concat c1 = ack_wire acts a" "pool_ok cn1" "cn_client cn1 = cn_client ?cn" "cn_rw cn1 = cn_rw ?cn"
    "\<forall>f \<in> set h1. pool_frame f" by (rule handle_calls [OF assms(2,3,7,9,4)])
  have "healthy (cn_rw cn1)" "notify_fits acts (c_maxFrameSize (cn_client cn1)) b" "c_gotHello (cn_client cn1)"
    using assms(3,4,10) 1(5,6) by simp_all
  then obtain cn2 l2 c2 h2 where
    2: "frame_calls handler g cn1 = (cn2, l2 # c2, h2)" "length l2 = 4"
      "l2 @ concat c2 = ack_wire acts b" "pool_ok cn2" "cn_client cn2 = cn_client cn1" "cn_rw cn2 = cn_rw cn1"
      "\<forall>f \<in> set h2. pool_frame f" by (rule handle_calls [OF 1(4) _ assms(8)])
  define s1 where "s1 = s\<lparr>ws_sys := (ws_sys s)\<lparr>sy_conn := cn1, sy_queue := [g]\<rparr>, ws_writing := [(l1 # c1, h1)]\<rparr>"
  define s2 where "s2 = s\<lparr>ws_sys := (ws_sys s)\<lparr>sy_conn := cn2, sy_queue := []\<rparr>,
      ws_writing := [(l1 # c1, h1), (l2 # c2, h2)]\<rparr>"
  have "sy_queue (ws_sys s) = [] @ f # [g]" using assms(6) by simp
  from wreachable.step [OF assms(1) wstep.handle [OF this 1(1)]] assms(5)
  have r1: "wreachable pipelining handler s0 s1" by (simp add: s1_def)
  have "sy_queue (ws_sys s1) = [] @ g # []" "sy_conn (ws_sys s1) = cn1" by (simp_all add: s1_def)
  from wreachable.step [OF r1 wstep.handle [OF this(1)]] this(2) 2(1)
  have r2: "wreachable pipelining handler s0 s2" by (simp add: s1_def s2_def)
  have "healthy (cn_rw (sy_conn (ws_sys s2)))" "sy_queue (ws_sys s2) = []"
    "ws_writing s2 = [(l1 # c1, h1), (l2 # c2, h2)]" "sk_out (cn_rw (sy_conn (ws_sys s2))) = sk_out (cn_rw ?cn)"
    using assms(3) 1(6) 2(6) by (simp_all add: s2_def)
  moreover have "take 4 (ack_wire acts a) = l1" "drop 4 (ack_wire acts a) = concat c1"
    "take 4 (ack_wire acts b) = l2" "drop 4 (ack_wire acts b) = concat c2"
    unfolding 1(3) [symmetric] 2(3) [symmetric] by (simp_all add: 1(2) 2(2))
  ultimately show ?thesis using mixed_calls [OF r2] by metis
qed

end

interpretation headers: notify_answerer HandleSPOE_headers "\<lambda>m. body_actions (snd m)"
proof unfold_locales
  fix m :: msg and ctx :: "gerr option" and sp :: "byte list" and h :: "gerr list"
  show "handler_ok HandleSPOE_headers" by (rule headers_handler_ok)
  assume m: "wf_msg m"
  then show "\<forall>a \<in> set (body_actions (snd m)). wf_action a" by (rule body_actions_wf)
  assume a: "2 * length (concat (map action_enc (body_actions (snd m)))) \<le> max_alloc"
  show "\<exists>h'. \<forall>aw. aw_ok aw \<longrightarrow> wb_off aw = 0 \<longrightarrow> (\<exists>aw' m' kv kv'.
      HandleSPOE_headers h ctx aw (delivered m (concat (map kv_enc (snd m))) sp) = (h', Ret (aw', m')) \<and>
      write_all action_write (body_actions (snd m)) aw = Ret (aw', None) \<and> m_KV m' = Some kv \<and>
      Discard kv = Ret (kv', None))"
    using headers_answers [OF m a] by blast
qed

text \<open>C4: the example agent over a whole session with a client that waits for the answers, on a
  connection that does not fail, where every NOTIFY has one message and fits the announced size, as
  does its ACK; in every interleaving of reading, workers, their calls of \<open>Write\<close> and cancellation:
  after the AGENT-HELLO for the announced size come the ACKs of different NOTIFY frames, each with its
  own identifiers and the actions of its own message, and nothing else, as long as the connection is
  not closed; between frames they are complete, and once everything is read and handled, every
  NOTIFY has been answered exactly once.\<close>

theorem notifies_answered_once:
  assumes "sys_start s0" and "healthy (cn_rw (sy_conn s0))" and "hello_of kvs n hello"
    and "rd_data (sy_in s0) = hello @ concat (map notify_wire ns)"
    and "\<forall>nf \<in> set ns. notify_fits (\<lambda>m. body_actions (snd m)) n nf"
    and "wreachable False HandleSPOE_headers s0 s" and "sy_serve (ws_sys s) \<noteq> Closed"
  shows "\<exists>acked more. mset acked \<subseteq># mset ns \<and>
    sk_out (cn_rw (sy_conn (ws_sys s))) @ more = (if c_gotHello (cn_client (sy_conn (ws_sys s)))
      then wire_of (hello_frame n) @ concat (map (ack_wire (\<lambda>m. body_actions (snd m))) acked) else []) \<and>
    (idle s \<longrightarrow> more = []) \<and>
    (idle s \<and> c_gotHello (cn_client (sy_conn (ws_sys s))) \<and> rd_data (sy_in (ws_sys s)) = [] \<longrightarrow> mset acked = mset ns)"
proof -
  from wreachable_ahead [OF assms(6) headers.contract assms(1)] obtain a where
    a: "reachable HandleSPOE_headers s0 a" "ahead s a" "orderly s" by blast
  from a(2) assms(7) obtain pool where e:
    "a = (ws_sys s)\<lparr>sy_conn := (sy_conn (ws_sys s))\<lparr>cn_rw := flush s, cn_pool := pool\<rparr>\<rparr>"
    by (auto simp: ahead_def)
  have "session (\<lambda>m. body_actions (snd m)) n hello ns s0"
    using assms(1,2,4) by (auto simp: session_def sys_start_def newProtocolClient_def)
  from headers.session_reachable [OF a(1) assms(3,5) this] assms(7) e
  have "session (\<lambda>m. body_actions (snd m)) n hello ns a" by simp
  from session_output [OF this] e obtain acked where acked: "mset acked \<subseteq># mset ns"
    "sk_out (flush s) = (if c_gotHello (cn_client (sy_conn (ws_sys s)))
      then wire_of (hello_frame n) @ concat (map (ack_wire (\<lambda>m. body_actions (snd m))) acked) else [])"
    "c_gotHello (cn_client (sy_conn (ws_sys s))) \<and> rd_data (sy_in (ws_sys s)) = [] \<and> sy_queue (ws_sys s) = [] \<longrightarrow>
      mset acked = mset ns" by auto
  obtain more where more: "sk_out (flush s) = sk_out (cn_rw (sy_conn (ws_sys s))) @ more"
    using Writes_extends unfolding flush_def by blast
  have "ws_closing s = None" using a(3) assms(7) by (cases "ws_closing s") (auto simp: orderly_def)
  with more have "more = []" if "idle s" using that by (simp add: flush_def idle_def)
  with acked more show ?thesis
    by (intro exI [of _ acked] exI [of _ more]) (auto simp: idle_def)
qed

text \<open>The session of one NOTIFY with one argument, after its handshake.\<close>

definition demo_notify :: notify where
  "demo_notify = (no_meta, ([109], [(str ''headers'', VString [72])]))"

definition demo_session :: "gerr list sys" where
  "demo_session =
     \<lparr>sy_conn = \<lparr>cn_client = newProtocolClient None, cn_rw = open_sink [], cn_pool = [], cn_h = []\<rparr>,
      sy_in = \<lparr>rd_data = wire_frame frameTypeIDHaproxyHello fin_meta (concat (map kv_enc demo_kvs)) @
                 concat (map notify_wire [demo_notify]), rd_err = ErrEOF\<rparr>,
      sy_queue = [], sy_serve = Serving\<rparr>"

lemma demo_notify_fits: "\<forall>nf \<in> set [demo_notify]. notify_fits (\<lambda>m. body_actions (snd m)) 1024 nf"
proof -
  have "msg_enc (snd demo_notify) = [1, 109, 1, 7, 104, 101, 97, 100, 101, 114, 115, 8, 1, 72]"
    "concat (map action_enc (body_actions (snd (snd demo_notify)))) = [1, 3, 2, 4, 98, 111, 100, 121, 8, 1, 72]"
    by code_simp+
  then show ?thesis
    by (simp add: notify_fits_def) (simp add: demo_notify_def wf_msg_def wf_kv_def len_ok_def str_def)
qed

lemma demo_session_hello:
  "sys_start demo_session" "healthy (cn_rw (sy_conn demo_session))" "c_ctx (cn_client (sy_conn demo_session)) = None"
  "rd_data (sy_in demo_session) = wire_frame frameTypeIDHaproxyHello fin_meta (concat (map kv_enc demo_kvs)) @
     concat (map notify_wire [demo_notify])"
  "hello_of demo_kvs 1024 (wire_frame frameTypeIDHaproxyHello fin_meta (concat (map kv_enc demo_kvs)))"
proof -
  have "sizes demo_kvs \<noteq> []" "list_all size_ok (sizes demo_kvs)"
    by (simp_all add: demo_ok size_ok_def wire_defs)
  then show "hello_of demo_kvs 1024 (wire_frame frameTypeIDHaproxyHello fin_meta (concat (map kv_enc demo_kvs)))"
    unfolding hello_of_def using demo_ok(3,5,6) by auto
qed (auto simp: demo_session_def sys_start_def pool_ok_def open_sink_def newProtocolClient_def)

lemma notifies_answered_once_witness:
  "\<exists>acked. mset acked \<subseteq># {#demo_notify#} \<and>
    sk_out (cn_rw (sy_conn (Serve_iter HandleSPOE_headers demo_session))) =
      wire_of (hello_frame 1024) @ concat (map (ack_wire (\<lambda>m. body_actions (snd m))) acked)"
proof -
  let ?s = "Serve_iter HandleSPOE_headers demo_session"
  note st = demo_session_hello
  have sz: "sizes demo_kvs \<noteq> []" "list_all size_ok (sizes demo_kvs)"
    by (simp_all add: demo_ok size_ok_def wire_defs)
  have got: "c_gotHello (cn_client (sy_conn ?s)) \<and> sy_serve ?s = Serving \<and> sy_queue ?s = []"
    using serve_hello_step [OF st(1,2,4) demo_ok(6,5) sz, where handler = HandleSPOE_headers] st(3) demo_ok(4)
    by (fastforce simp: negotiated_def Let_def demo_session_def)
  have "wstep False HandleSPOE_headers (wstart demo_session)
      ((wstart demo_session)\<lparr>ws_sys := Serve_iter HandleSPOE_headers (ws_sys (wstart demo_session))\<rparr>)"
    by (rule wstep.serve) (simp_all add: wstart_def idle_def demo_session_def)
  from wreachable.step [OF wreachable.init this]
  have "wreachable False HandleSPOE_headers demo_session (wstart ?s)" by (simp add: wstart_def)
  moreover have "idle (wstart ?s)" using got by (simp add: idle_def wstart_def)
  moreover have "ws_sys (wstart ?s) = ?s" by (simp add: wstart_def)
  ultimately show ?thesis
    using notifies_answered_once [OF st(1,2,5,4) demo_notify_fits, of "wstart ?s"] got by auto
qed

section \<open>A client that does not wait\<close>

lemma wreachable_serve:
  assumes "wreachable True handler s0 (wstart s)" and "sy_serve s = Serving"
  shows "wreachable True handler s0 (wstart (Serve_iter handler s))"
  using wreachable.step [OF assms(1) wstep.serve [where s = "wstart s"]] assms(2) by (simp add: wstart_def)

text \<open>After the handshake two NOTIFY frames on the wire are both queued before a worker takes one.\<close>

lemma two_queued:
  assumes "sys_start s0" and "healthy (cn_rw (sy_conn s0))" and "c_ctx (cn_client (sy_conn s0)) = None"
    and "hello_of kvs n hello" and "\<not> healthcheck kvs"
    and "rd_data (sy_in s0) = hello @ notify_wire a @ notify_wire b" and "notify_fits acts n a" and "notify_fits acts n b"
  shows "\<exists>s f g. wreachable True handler s0 (wstart s) \<and> pool_ok (sy_conn s) \<and> healthy (cn_rw (sy_conn s)) \<and>
    c_gotHello (cn_client (sy_conn s)) \<and> sy_queue s = [f, g] \<and> holds f a \<and> holds g b \<and>
    c_maxFrameSize (cn_client (sy_conn s)) = n \<and> sk_out (cn_rw (sy_conn s)) = wire_of (hello_frame n)"
proof -
  from assms(4) obtain m where h: "hello = wire_frame frameTypeIDHaproxyHello m (concat (map kv_enc kvs))"
    "25 + length (concat (map kv_enc kvs)) \<le> maxFrameSize" "\<forall>kv \<in> set kvs. wf_kv kv"
    "sizes kvs \<noteq> []" "list_all size_ok (sizes kvs)" "n = last (sizes kvs)" by (auto simp: hello_of_def)
  obtain cn where cn: "Serve_iter handler s0 = s0\<lparr>sy_conn := cn, sy_in := (sy_in s0)\<lparr>rd_data := notify_wire a @ notify_wire b\<rparr>,
      sy_serve := (case c_ctx (cn_client cn) of None \<Rightarrow> Serving | Some cause \<Rightarrow> Returned (Some cause))\<rparr>"
    "pool_ok cn" "healthy (cn_rw cn)" "sk_out (cn_rw cn) = wire_of (hello_frame (last (sizes kvs)))"
    "cn_client cn = (let c = negotiated kvs ((cn_client (sy_conn s0))\<lparr>c_gotHello := True\<rparr>) in
       if healthcheck kvs then ctxCancel None c else c)"
    by (rule serve_hello_step [OF assms(1,2) assms(6) [unfolded h(1)] h(2-5)])
  from cn(5) assms(3,5) h(4,6) have c: "c_gotHello (cn_client cn)" "c_maxFrameSize (cn_client cn) = n" "c_ctx (cn_client cn) = None"
    by (simp_all add: Let_def negotiated_def)
  define s1 where "s1 = Serve_iter handler s0"
  have st: "sy_serve s0 = Serving" "sy_queue s0 = []" using assms(1) by (simp_all add: sys_start_def)
  have s1: "sy_conn s1 = cn" "rd_data (sy_in s1) = notify_wire a @ notify_wire b" "sy_queue s1 = []" "sy_serve s1 = Serving"
    using cn(1) c(3) st(2) by (simp_all add: s1_def)
  have r1: "wreachable True handler s0 (wstart s1)" unfolding s1_def by (rule wreachable_serve [OF wreachable.init st(1)])
  obtain f pool1 where f: "Serve_iter handler s1 = s1\<lparr>sy_conn := (sy_conn s1)\<lparr>cn_pool := pool1\<rparr>,
      sy_in := (sy_in s1)\<lparr>rd_data := notify_wire b\<rparr>, sy_queue := sy_queue s1 @ [f]\<rparr>" "holds f a"
      "\<forall>f \<in> set pool1. pool_frame f"
    using serve_notify [of s1 a "notify_wire b" acts] s1(1,2) cn(2) c assms(7) by auto
  define s2 where "s2 = Serve_iter handler s1"
  have s2: "sy_conn s2 = cn\<lparr>cn_pool := pool1\<rparr>" "rd_data (sy_in s2) = notify_wire b @ []" "sy_queue s2 = [f]" "sy_serve s2 = Serving"
    using f(1) s1 by (simp_all add: s2_def)
  have r2: "wreachable True handler s0 (wstart s2)" unfolding s2_def by (rule wreachable_serve [OF r1 s1(4)])
  obtain g pool2 where g: "Serve_iter handler s2 = s2\<lparr>sy_conn := (sy_conn s2)\<lparr>cn_pool := pool2\<rparr>,
      sy_in := (sy_in s2)\<lparr>rd_data := []\<rparr>, sy_queue := sy_queue s2 @ [g]\<rparr>" "holds g b" "\<forall>f \<in> set pool2. pool_frame f"
    using serve_notify [of s2 b "[]" acts] s2(1,2) f(3) c assms(8) by (auto simp: pool_ok_def)
  have "wreachable True handler s0 (wstart (Serve_iter handler s2))" by (rule wreachable_serve [OF r2 s2(4)])
  with f(2) g s2(1,3) c cn(3,4) h(6) show ?thesis
    by (intro exI [of _ "Serve_iter handler s2"] exI [of _ f] exI [of _ g]) (simp add: pool_ok_def)
qed

text \<open>A frame never starts with the lengths of two: where the type of the first should be is a zero.\<close>

lemma mixed_not_frames:
  assumes "notify_fits acts n a" and "notify_fits acts n b" and "unat n < 2 ^ 24"
  shows "\<not> (\<exists>frs. (\<forall>fr \<in> set frs. agent_frame n fr) \<and>
    take 4 (ack_wire acts a) @ take 4 (ack_wire acts b) @ t = concat (map wire_of frs))"
proof
  let ?a = "ack_wire acts a" and ?b = "ack_wire acts b"
  assume "\<exists>frs. (\<forall>fr \<in> set frs. agent_frame n fr) \<and> take 4 ?a @ take 4 ?b @ t = concat (map wire_of frs)"
  then obtain frs where frs: "\<forall>fr \<in> set frs. agent_frame n fr" "take 4 ?a @ take 4 ?b @ t = concat (map wire_of frs)"
    by blast
  let ?l = "\<lambda>nf. length (pool_header frameTypeIDAck (ack_meta (FrameID (fst nf)) (StreamID (fst nf)))) +
      length (concat (map action_enc (acts (snd nf))))"
  have t4: "take 4 (ack_wire acts nf) = be32 (of_nat (?l nf))" for nf
    unfolding ack_wire_def wire_frame_pool_header by simp
  have "?l b < 2 ^ 24"
    using assms(2,3) length_pool_header [of frameTypeIDAck "ack_meta (FrameID (fst b)) (StreamID (fst b))"]
    by (simp add: notify_fits_def)
  then have "drop_bit 24 (of_nat (?l b) :: u32) = 0"
    by (simp only: word_unat_eq_iff unat_drop_bit_eq unat_of_nat) (simp add: drop_bit_eq_div take_bit_nat_eq_self)
  then have zero: "(take 4 ?a @ take 4 ?b @ t) ! 4 = 0"
    unfolding t4 by (simp add: be32_def nth_append)
  from frs(2) obtain fr rest where fr: "frs = fr # rest" unfolding t4 by (cases frs) (auto simp: be32_def)
  obtain ty m p where w: "fr = (ty, m, p)" by (cases fr)
  have "concat (map wire_of frs) ! 4 = ty"
    unfolding fr w by (simp add: wire_of_def wire_frame_def header_enc_def be32_def Let_def nth_append)
  with zero frs(2) have "ty = 0" by simp
  with frs(1) fr w show False
    by (auto simp: agent_frame_def hello_frame_def disconnect_frame_def ack_of_size_def wire_defs)
qed

text \<open>C6: a client that sends its next NOTIFY before it has the answer to the last one can get two
  answers mixed up: the workers share the connection without a lock, and an answer takes several
  calls of \<open>Write\<close>. For every two NOTIFY frames there is a run of the example agent in which the
  lengths of both ACKs are sent first and the rest of both after them, so that what follows the
  AGENT-HELLO is no sequence of frames of the agent.\<close>

theorem pipelined_acks_mixed:
  assumes "sys_start s0" and "healthy (cn_rw (sy_conn s0))" and "c_ctx (cn_client (sy_conn s0)) = None"
    and "hello_of kvs n hello" and "\<not> healthcheck kvs" and "unat n < 2 ^ 24"
    and "rd_data (sy_in s0) = hello @ notify_wire a @ notify_wire b"
    and "notify_fits (\<lambda>m. body_actions (snd m)) n a" and "notify_fits (\<lambda>m. body_actions (snd m)) n b"
  shows "\<exists>s out. wreachable True HandleSPOE_headers s0 s \<and> idle s \<and>
    sk_out (cn_rw (sy_conn (ws_sys s))) = wire_of (hello_frame n) @ out \<and>
    (let A = ack_wire (\<lambda>m. body_actions (snd m)) a; B = ack_wire (\<lambda>m. body_actions (snd m)) b
     in out = take 4 A @ take 4 B @ drop 4 A @ drop 4 B) \<and>
    \<not> (\<exists>frs. (\<forall>fr \<in> set frs. agent_frame n fr) \<and> out = concat (map wire_of frs))"
proof -
  let ?acts = "\<lambda>m. body_actions (snd m)"
  from two_queued [OF assms(1-5,7-9), of HandleSPOE_headers] obtain s f g where
    s: "wreachable True HandleSPOE_headers s0 (wstart s)" "pool_ok (sy_conn s)" "healthy (cn_rw (sy_conn s))"
      "c_gotHello (cn_client (sy_conn s))" "sy_queue s = [f, g]" "holds f a" "holds g b"
      "c_maxFrameSize (cn_client (sy_conn s)) = n" "sk_out (cn_rw (sy_conn s)) = wire_of (hello_frame n)" by blast
  have "ws_sys (wstart s) = s" "ws_writing (wstart s) = []" by (simp_all add: wstart_def)
  with headers.two_writers [OF s(1), of f g a b] s(2-9) assms(8,9) obtain t where
    "wreachable True HandleSPOE_headers s0 t" "idle t" "sk_out (cn_rw (sy_conn (ws_sys t))) =
      wire_of (hello_frame n) @ take 4 (ack_wire ?acts a) @ take 4 (ack_wire ?acts b) @
      drop 4 (ack_wire ?acts a) @ drop 4 (ack_wire ?acts b)" by auto
  with mixed_not_frames [OF assms(8,9,6)] show ?thesis unfolding Let_def by blast
qed

lemma pipelined_acks_mixed_witness:
  "\<exists>s0 s out. sys_start s0 \<and> wreachable True HandleSPOE_headers s0 s \<and> idle s \<and>
    sk_out (cn_rw (sy_conn (ws_sys s))) = wire_of (hello_frame 1024) @ out \<and>
    \<not> (\<exists>frs. (\<forall>fr \<in> set frs. agent_frame 1024 fr) \<and> out = concat (map wire_of frs))"
proof -
  let ?b = "(no_meta\<lparr>FrameID := 1\<rparr>, snd demo_notify)"
  let ?s = "demo_session\<lparr>sy_in := \<lparr>rd_data = wire_frame frameTypeIDHaproxyHello fin_meta (concat (map kv_enc demo_kvs)) @
    notify_wire demo_notify @ notify_wire ?b, rd_err = ErrEOF\<rparr>\<rparr>"
  note st = demo_session_hello
  have s: "sys_start ?s" "healthy (cn_rw (sy_conn ?s))" "c_ctx (cn_client (sy_conn ?s)) = None"
    "rd_data (sy_in ?s) = wire_frame frameTypeIDHaproxyHello fin_meta (concat (map kv_enc demo_kvs)) @
      notify_wire demo_notify @ notify_wire ?b"
    using st(1-3) by (simp_all add: sys_start_def)
  have fits: "notify_fits (\<lambda>m. body_actions (snd m)) 1024 demo_notify" "notify_fits (\<lambda>m. body_actions (snd m)) 1024 ?b"
    using demo_notify_fits by (simp_all add: notify_fits_def)
  have "unat (1024 :: u32) < 2 ^ 24" by simp
  from pipelined_acks_mixed [OF s(1-3) st(5) demo_ok(4) this s(4) fits] s(1) show ?thesis unfolding Let_def by blast
qed

end
