(* ===== verification/SpopAgentWrites.thy ===== *)
theory SpopAgentWrites
  imports SpopAgent SpopWrites
begin

text \<open>
  The whole agent with the single calls of \<open>Write\<close> as steps: the workers hold what they have still
  to write and the frames they will give back, a connection's goroutine likewise in \<open>Close\<close>. The
  clients wait for their answers (see \<open>SpopWrites\<close>).
\<close>

section \<open>The steps\<close>

record 'h wagent =
  wa_agent :: "'h agent"
  wa_writing :: "(nat \<times> byte list list \<times> frame list) list"
  wa_closing :: "nat \<Rightarrow> (byte list list \<times> frame list) option"

definition wa_init :: "nat \<times> frame \<Rightarrow> nat \<Rightarrow> 'h \<Rightarrow> 'h wagent" where
  "wa_init zero numCPU h = \<lparr>wa_agent = agent_init zero numCPU h, wa_writing = [], wa_closing = (\<lambda>_. None)\<rparr>"

text \<open>Connection \<open>i\<close> as if it were alone.\<close>

definition wview :: "nat \<Rightarrow> 'h wagent \<Rightarrow> 'h wsys" where
  "wview i W =
     \<lparr>ws_sys = view i (wa_agent W), ws_writing = map snd (filter (\<lambda>x. fst x = i) (wa_writing W)),
      ws_closing = wa_closing W i\<rparr>"

text \<open>A worker is busy with a frame until it has made its calls of \<open>Write\<close>.\<close>

inductive wa_step :: "nat \<Rightarrow> 'h handler \<Rightarrow> 'h wagent \<Rightarrow> 'h wagent \<Rightarrow> bool" for numCPU handler where
  accept: "ag_returned (wa_agent W) = None \<Longrightarrow>
    wa_step numCPU handler W (W\<lparr>wa_agent := agent_accept acc (wa_agent W)\<rparr>)"
| serve: "i < length (ag_conns (wa_agent W)) \<Longrightarrow> ac_serve (ag_conns (wa_agent W) ! i) = Serving \<Longrightarrow>
    idle (wview i W) \<Longrightarrow> wa_step numCPU handler W (W\<lparr>wa_agent := agent_serve handler i (wa_agent W)\<rparr>)"
| schedule: "i < length (ag_conns (wa_agent W)) \<Longrightarrow> ac_pending (ag_conns (wa_agent W) ! i) = Some f \<Longrightarrow>
    \<not> isFull (ag_queue (wa_agent W)) \<Longrightarrow> Put_elem (i, f) (ag_queue (wa_agent W)) = Ret q \<Longrightarrow>
    wa_step numCPU handler W
      (W\<lparr>wa_agent := upd_conn i (\<lambda>c. c\<lparr>ac_pending := None\<rparr>) ((wa_agent W)\<lparr>ag_queue := q\<rparr>)\<rparr>)"
| take: "length (ag_busy (wa_agent W)) + length (wa_writing W) < numCPU \<Longrightarrow> \<not> isEmpty (ag_queue (wa_agent W)) \<Longrightarrow>
    Get_elem (ag_queue (wa_agent W)) = Ret (x, q) \<Longrightarrow>
    wa_step numCPU handler W (W\<lparr>wa_agent := (wa_agent W)\<lparr>ag_queue := q, ag_busy := ag_busy (wa_agent W) @ [x]\<rparr>\<rparr>)"
| handle: "ag_busy (wa_agent W) = xs @ (i, f) # ys \<Longrightarrow>
    frame_calls handler f (agent_conn i (wa_agent W)) = (cn, calls, held) \<Longrightarrow>
    wa_step numCPU handler W (W\<lparr>wa_agent := put_conn i cn ((wa_agent W)\<lparr>ag_busy := xs @ ys\<rparr>),
      wa_writing := wa_writing W @ [(i, calls, held)]\<rparr>)"
| call: "wa_writing W = xs @ (i, c # cs, held) # ys \<Longrightarrow> Write c (ac_rw (ag_conns (wa_agent W) ! i)) = (w, n, err) \<Longrightarrow>
    wa_step numCPU handler W (W\<lparr>wa_agent := upd_conn i (\<lambda>c. c\<lparr>ac_rw := w\<rparr>) (wa_agent W),
      wa_writing := xs @ (i, if err = None then cs else [], held) # ys\<rparr>)"
| finish: "wa_writing W = xs @ (i, [], held) # ys \<Longrightarrow>
    wa_step numCPU handler W (W\<lparr>wa_agent := (wa_agent W)\<lparr>ag_pool := held @ ag_pool (wa_agent W)\<rparr>, wa_writing := xs @ ys\<rparr>)"
| close: "i < length (ag_conns (wa_agent W)) \<Longrightarrow>
    ac_serve (ag_conns (wa_agent W) ! i) = Returned e \<or> ac_serve (ag_conns (wa_agent W) ! i) = Crashed \<Longrightarrow>
    Close_calls (agent_conn i (wa_agent W)) = Ret (cn, calls, held) \<Longrightarrow>
    wa_step numCPU handler W (W\<lparr>wa_agent := upd_conn i (\<lambda>c. c\<lparr>ac_serve := Closed\<rparr>) (put_conn i cn (wa_agent W)),
      wa_closing := (wa_closing W)(i := Some (calls, held))\<rparr>)"
| close_call: "i < length (ag_conns (wa_agent W)) \<Longrightarrow> wa_closing W i = Some (c # cs, held) \<Longrightarrow>
    Write c (ac_rw (ag_conns (wa_agent W) ! i)) = (w, n, err) \<Longrightarrow>
    wa_step numCPU handler W (W\<lparr>wa_agent := upd_conn i (\<lambda>c. c\<lparr>ac_rw := w\<rparr>) (wa_agent W),
      wa_closing := (wa_closing W)(i := Some (if err = None then cs else [], held))\<rparr>)"
| hangup: "i < length (ag_conns (wa_agent W)) \<Longrightarrow> wa_closing W i = Some ([], held) \<Longrightarrow>
    wa_step numCPU handler W (W\<lparr>wa_agent := put_conn i (close_conn ((agent_conn i (wa_agent W))\<lparr>
        cn_pool := held @ ag_pool (wa_agent W),
        cn_client := ctxCancel (Some (ErrFormat ''closing client'')) (ac_client (ag_conns (wa_agent W) ! i))\<rparr>)) (wa_agent W),
      wa_closing := (wa_closing W)(i := None)\<rparr>)"
| base_cancel: "wa_step numCPU handler W (W\<lparr>wa_agent := (wa_agent W)\<lparr>ag_ctx := Some ErrCanceled,
       ag_conns := map (\<lambda>c. c\<lparr>ac_client := ctxCancel (Some ErrCanceled) (ac_client c)\<rparr>) (ag_conns (wa_agent W))\<rparr>\<rparr>)"
| pool: "\<forall>f \<in> set pool. pool_frame f \<Longrightarrow> wa_step numCPU handler W (W\<lparr>wa_agent := (wa_agent W)\<lparr>ag_pool := pool\<rparr>\<rparr>)"

definition wa_reachable :: "nat \<Rightarrow> 'h handler \<Rightarrow> 'h wagent \<Rightarrow> bool" where
  "wa_reachable numCPU handler W \<longleftrightarrow>
     (\<exists>zero h. rtranclp (wa_step numCPU handler) (wa_init zero numCPU h) W)"

section \<open>A connection that is followed\<close>

definition followed :: "'h wsys \<Rightarrow> bool" where
  "followed s \<longleftrightarrow> orderly s \<and> (\<exists>a h0. sys_inv h0 a \<and> ahead s a)"

lemma followed_step:
  assumes "wstep False handler s s'" and "followed s" and "handler_ok handler"
  shows "followed s'"
proof -
  from assms(2) obtain a h0 where "orderly s" "ahead s a" "sys_inv h0 a" by (auto simp: followed_def)
  then show ?thesis
    using ahead_step [OF assms(1), where a = a and Q = "\<lambda>a. \<exists>h0. sys_inv h0 a"] assms(3) step_closed_inv
    by (fastforce simp: followed_def)
qed

text \<open>The other connections may change the pool and the state of the handler.\<close>

lemma followed_env:
  assumes "followed s" and "\<forall>f \<in> set pool. pool_frame f"
  shows "followed (upd_sys (\<lambda>cn. cn\<lparr>cn_pool := pool, cn_h := h\<rparr>) s)"
proof -
  from assms(1) obtain a h0 where a: "orderly s" "ahead s a" "sys_inv h0 a" by (auto simp: followed_def)
  let ?a = "a\<lparr>sy_conn := (sy_conn a)\<lparr>cn_pool := pool, cn_h := h\<rparr>\<rparr>"
  have fl: "flush (upd_sys (\<lambda>cn. cn\<lparr>cn_pool := pool, cn_h := h\<rparr>) s) = flush s" by (simp add: flush_def)
  have "ahead (upd_sys (\<lambda>cn. cn\<lparr>cn_pool := pool, cn_h := h\<rparr>) s) ?a"
    using a(2) assms(2) fl by (auto simp: ahead_def intro!: exI [of _ pool])
  moreover have "orderly (upd_sys (\<lambda>cn. cn\<lparr>cn_pool := pool, cn_h := h\<rparr>) s)"
    using a(1) assms(2) by (simp add: orderly_def idle_def pool_ok_def)
  ultimately show ?thesis using sys_inv_env [OF a(3) assms(2)] unfolding followed_def by blast
qed

section \<open>The invariant of the agent\<close>

definition wa_inv :: "nat \<Rightarrow> 'h wagent \<Rightarrow> bool" where
  "wa_inv numCPU W \<longleftrightarrow>
     (let A = wa_agent W; n = length (ag_conns A) in
      q_inv (ag_queue A) \<and> length (q_elems (ag_queue A)) = numCPU * 2 \<and>
      length (ag_busy A) + length (wa_writing W) \<le> numCPU \<and> (\<forall>f \<in> set (ag_pool A). pool_frame f) \<and>
      (\<forall>x \<in> set (ag_busy A @ q_list (ag_queue A)). fst x < n) \<and> (\<forall>x \<in> set (wa_writing W). fst x < n) \<and>
      (\<forall>i. n \<le> i \<longrightarrow> wa_closing W i = None) \<and> (\<forall>i < n. followed (wview i W)))"

lemma wa_invD:
  assumes "wa_inv n W"
  shows "q_inv (ag_queue (wa_agent W))" "length (q_elems (ag_queue (wa_agent W))) = n * 2"
    and "length (ag_busy (wa_agent W)) + length (wa_writing W) \<le> n" "\<forall>f \<in> set (ag_pool (wa_agent W)). pool_frame f"
    and "\<forall>x \<in> set (ag_busy (wa_agent W) @ q_list (ag_queue (wa_agent W))). fst x < length (ag_conns (wa_agent W))"
    and "\<forall>x \<in> set (wa_writing W). fst x < length (ag_conns (wa_agent W))"
    and "length (ag_conns (wa_agent W)) \<le> i \<Longrightarrow> wa_closing W i = None"
    and "i < length (ag_conns (wa_agent W)) \<Longrightarrow> followed (wview i W)"
  using assms by (simp_all add: wa_inv_def Let_def)

lemma wa_invI:
  assumes "wa_inv n W" "length (ag_conns (wa_agent V)) = length (ag_conns (wa_agent W))"
    and "q_inv (ag_queue (wa_agent V))" "length (q_elems (ag_queue (wa_agent V))) = n * 2"
    and "length (ag_busy (wa_agent V)) + length (wa_writing V) \<le> n" "\<forall>f \<in> set (ag_pool (wa_agent V)). pool_frame f"
    and "\<forall>x \<in> set (ag_busy (wa_agent V) @ q_list (ag_queue (wa_agent V))). fst x < length (ag_conns (wa_agent W))"
    and "\<forall>x \<in> set (wa_writing V). fst x < length (ag_conns (wa_agent W))"
    and "\<And>j. j \<noteq> i \<Longrightarrow> wa_closing V j = wa_closing W j" and "i < length (ag_conns (wa_agent W))"
    and "\<And>j. j < length (ag_conns (wa_agent W)) \<Longrightarrow> j \<noteq> i \<Longrightarrow>
      wview j V = upd_sys (\<lambda>cn. cn\<lparr>cn_pool := ag_pool (wa_agent V), cn_h := ag_h (wa_agent V)\<rparr>) (wview j W)"
    and "followed (wview i V)"
  shows "wa_inv n V"
proof -
  have "followed (wview j V)" if j: "j < length (ag_conns (wa_agent W))" for j
  proof (cases "j = i")
    case False
    from followed_env [OF wa_invD(8) [OF assms(1) j] assms(6), of "ag_h (wa_agent V)"] assms(11) [OF j False]
    show ?thesis by simp
  qed (use assms(12) in simp)
  moreover have "wa_closing V j = None" if "length (ag_conns (wa_agent W)) \<le> j" for j
    using that assms(9) [of j] assms(10) wa_invD(7) [OF assms(1) that] by auto
  ultimately show ?thesis using assms(2-8) by (simp add: wa_inv_def Let_def)
qed

text \<open>Where no view changes.\<close>

lemma wa_inv_views:
  assumes "wa_inv n W" "length (ag_conns (wa_agent V)) = length (ag_conns (wa_agent W))"
    and "q_inv (ag_queue (wa_agent V))" "length (q_elems (ag_queue (wa_agent V))) = n * 2"
    and "length (ag_busy (wa_agent V)) + length (wa_writing V) \<le> n" "ag_pool (wa_agent V) = ag_pool (wa_agent W)"
    and "\<forall>x \<in> set (ag_busy (wa_agent V) @ q_list (ag_queue (wa_agent V))). fst x < length (ag_conns (wa_agent W))"
    and "wa_writing V = wa_writing W" "wa_closing V = wa_closing W" "\<And>j. view j (wa_agent V) = view j (wa_agent W)"
  shows "wa_inv n V"
  using assms unfolding wa_inv_def Let_def wview_def by simp

section \<open>Every step keeps the invariant\<close>

lemma wview_sel [simp]:
  "ws_sys (wview i W) = view i (wa_agent W)" "ws_writing (wview i W) = map snd (filter (\<lambda>x. fst x = i) (wa_writing W))"
  "ws_closing (wview i W) = wa_closing W i"
  by (simp_all add: wview_def)

lemma view_sel [simp]:
  "sy_conn (view i A) = agent_conn i A" "sy_serve (view i A) = ac_serve (ag_conns A ! i)" "sy_queue (view i A) = frames_of i A"
  "cn_rw (agent_conn i A) = ac_rw (ag_conns A ! i)" "cn_client (agent_conn i A) = ac_client (ag_conns A ! i)"
  "cn_pool (agent_conn i A) = ag_pool A" "cn_h (agent_conn i A) = ag_h A"
  by (simp_all add: view_def agent_conn_def)

lemma wa_inv_accept: "wa_inv n W \<Longrightarrow> wa_inv n (W\<lparr>wa_agent := agent_accept acc (wa_agent W)\<rparr>)"
proof -
  assume inv: "wa_inv n W"
  let ?A = "wa_agent W"
  have ret: "wa_inv n (W\<lparr>wa_agent := ?A\<lparr>ag_returned := e\<rparr>\<rparr>)" for e
    by (rule wa_inv_views [OF inv]) (use wa_invD [OF inv] in \<open>auto simp: view_def agent_conn_def frames_of_def\<close>)
  have new: "wa_inv n (W\<lparr>wa_agent := ?A\<lparr>ag_conns := ag_conns ?A @ [new_conn (ag_ctx ?A) input room]\<rparr>\<rparr>)" (is "wa_inv n ?V")
    for input room
  proof -
    let ?n = "length (ag_conns ?A)"
    have "followed (wview j ?V)" if "j < Suc ?n" for j
    proof (cases "j < ?n")
      case True
      then have "wview j ?V = wview j W" by (simp add: wview_def view_new_conn)
      with wa_invD(8) [OF inv True] show ?thesis by simp
    next
      case False
      with that have j: "j = ?n" by simp
      have "filter (\<lambda>x. fst x = ?n) (ag_busy ?A @ q_list (ag_queue ?A)) = []"
        "filter (\<lambda>x. fst x = ?n) (wa_writing W) = []"
        using wa_invD(5,6) [OF inv] unfolding filter_empty_conv by (metis less_irrefl)+
      then have "wview j ?V = wstart (view j (wa_agent ?V))" and f: "frames_of j (wa_agent ?V) = []"
        using wa_invD(7) [OF inv, of ?n] by (simp_all add: wview_def wstart_def j frames_of_def new_conn_def)
      moreover have "sys_start (view j (wa_agent ?V))"
        using f wa_invD(4) [OF inv] by (auto simp: sys_start_def j new_conn_def pool_ok_def)
      ultimately show ?thesis using ahead_start sys_inv_start unfolding followed_def by metis
    qed
    with wa_invD [OF inv] show ?thesis by (force simp: wa_inv_def Let_def less_Suc_eq)
  qed
  show ?thesis
    using inv ret new by (auto simp: agent_accept_def split: accepted.split option.split prod.split)
qed

lemma wa_inv_serve:
  assumes "wa_inv n W" "handler_ok handler" "i < length (ag_conns (wa_agent W))"
    and "ac_serve (ag_conns (wa_agent W) ! i) = Serving" "idle (wview i W)"
  shows "wa_inv n (W\<lparr>wa_agent := agent_serve handler i (wa_agent W)\<rparr>)" (is "wa_inv n ?V")
proof -
  let ?A = "wa_agent W"
  have p: "ac_pending (ag_conns ?A ! i) = None" using assms(5) by (auto simp: idle_def frames_of_def split: option.splits)
  note v = view_serve [OF assms(3) p, where handler = handler]
  have "wstep False handler (wview i W) ((wview i W)\<lparr>ws_sys := Serve_iter handler (ws_sys (wview i W))\<rparr>)"
    by (rule wstep.serve) (use assms(4,5) in simp_all)
  then have "wstep False handler (wview i W) (wview i ?V)" by (simp add: wview_def v(1))
  from followed_step [OF this wa_invD(8) [OF assms(1,3)] assms(2)] have f: "followed (wview i ?V)" .
  have "sy_conn (view i (wa_agent ?V)) = agent_conn i (wa_agent ?V)" by simp
  then have B: "ag_pool (wa_agent ?V) = cn_pool (sy_conn (view i (wa_agent ?V)))"
    "ag_h (wa_agent ?V) = cn_h (sy_conn (view i (wa_agent ?V)))" by simp_all
  from f have "\<forall>f \<in> set (ag_pool (wa_agent ?V)). pool_frame f" by (auto simp: followed_def orderly_def pool_ok_def)
  with wa_invD [OF assms(1)] f show ?thesis
    by (intro wa_invI [OF assms(1), where i = i]) (auto simp: assms(3) wview_def v(2) simp flip: v(1))
qed

lemma wa_inv_schedule:
  assumes "wa_inv n W" "i < length (ag_conns (wa_agent W))" "ac_pending (ag_conns (wa_agent W) ! i) = Some f"
    and "\<not> isFull (ag_queue (wa_agent W))" "Put_elem (i, f) (ag_queue (wa_agent W)) = Ret q"
  shows "wa_inv n (W\<lparr>wa_agent := upd_conn i (\<lambda>c. c\<lparr>ac_pending := None\<rparr>) ((wa_agent W)\<lparr>ag_queue := q\<rparr>)\<rparr>)"
  using ring.putD [OF wa_invD(1) [OF assms(1)] assms(4,5)] view_schedule [OF wa_invD(1) [OF assms(1)] assms(2-5)]
    wa_invD [OF assms(1)] assms(2)
  by (intro wa_inv_views [OF assms(1)]) auto

lemma wa_inv_take:
  assumes "wa_inv n W" "length (ag_busy (wa_agent W)) + length (wa_writing W) < n" "\<not> isEmpty (ag_queue (wa_agent W))"
    and "Get_elem (ag_queue (wa_agent W)) = Ret (x, q)"
  shows "wa_inv n (W\<lparr>wa_agent := (wa_agent W)\<lparr>ag_queue := q, ag_busy := ag_busy (wa_agent W) @ [x]\<rparr>\<rparr>)"
  using ring.getD [OF wa_invD(1) [OF assms(1)] assms(3,4)] view_take [OF wa_invD(1) [OF assms(1)] assms(3,4)]
    wa_invD [OF assms(1)] assms(2)
  by (intro wa_inv_views [OF assms(1)]) auto

lemma wa_inv_handle:
  assumes "wa_inv n W" "handler_ok handler" "ag_busy (wa_agent W) = xs @ (i, f) # ys"
    and "frame_calls handler f (agent_conn i (wa_agent W)) = (cn, calls, held)"
  shows "wa_inv n (W\<lparr>wa_agent := put_conn i cn ((wa_agent W)\<lparr>ag_busy := xs @ ys\<rparr>),
      wa_writing := wa_writing W @ [(i, calls, held)]\<rparr>)" (is "wa_inv n ?V")
proof -
  let ?A = "wa_agent W"
  have i: "i < length (ag_conns ?A)" using wa_invD(5) [OF assms(1)] assms(3) by auto
  obtain fs gs where q: "sy_queue (view i ?A) = fs @ f # gs"
    "view i (?A\<lparr>ag_busy := xs @ ys\<rparr>) = (view i ?A)\<lparr>sy_queue := fs @ gs\<rparr>" using view_busy(1) [OF assms(3)] by blast
  note put = view_put_conn [of i "?A\<lparr>ag_busy := xs @ ys\<rparr>", simplified, OF i]
  have "sy_queue (ws_sys (wview i W)) = fs @ f # gs" using q(1) by simp
  from wstep.handle [OF this, of handler cn calls held False] assms(4)
  have "wstep False handler (wview i W) ((wview i W)\<lparr>ws_sys := (ws_sys (wview i W))\<lparr>sy_conn := cn, sy_queue := fs @ gs\<rparr>,
      ws_writing := ws_writing (wview i W) @ [(calls, held)]\<rparr>)" by simp
  moreover have "view i (put_conn i cn (?A\<lparr>ag_busy := xs @ ys\<rparr>)) = (view i ?A)\<lparr>sy_conn := cn, sy_queue := fs @ gs\<rparr>"
    using put(1) q(2) by simp
  ultimately have "wstep False handler (wview i W) (wview i ?V)" by (simp add: wview_def)
  from followed_step [OF this wa_invD(8) [OF assms(1) i] assms(2)] have f: "followed (wview i ?V)" .
  then have "\<forall>f \<in> set (cn_pool cn). pool_frame f" by (auto simp: followed_def orderly_def pool_ok_def wview_def put(1))
  with wa_invD [OF assms(1)] assms(3) f show ?thesis
    by (intro wa_invI [OF assms(1), where i = i]) (auto simp: i wview_def put(2) view_busy(2) [OF assms(3)])
qed

lemma wa_inv_call:
  fixes W :: "'h wagent" and handler :: "'h handler"
  assumes "wa_inv n W" "handler_ok handler" "wa_writing W = xs @ (i, c # cs, held) # ys"
    and "Write c (ac_rw (ag_conns (wa_agent W) ! i)) = (w, m, err)"
  shows "wa_inv n (W\<lparr>wa_agent := upd_conn i (\<lambda>c. c\<lparr>ac_rw := w\<rparr>) (wa_agent W),
      wa_writing := xs @ (i, if err = None then cs else [], held) # ys\<rparr>)" (is "wa_inv n ?V")
proof -
  let ?A = "wa_agent W" and ?f = "\<lambda>zs. map snd (filter (\<lambda>x. fst x = i) zs)"
  have i: "i < length (ag_conns ?A)" using wa_invD(6) [OF assms(1)] assms(3) by auto
  have "ws_writing (wview i W) = ?f xs @ (c # cs, held) # ?f ys" using assms(3) by simp
  from wstep.call [OF this, where handler = handler and pipelining = False] assms(4)
  have "wstep False handler (wview i W) (upd_sys (\<lambda>cn. cn\<lparr>cn_rw := w\<rparr>)
      ((wview i W)\<lparr>ws_writing := ?f xs @ (if err = None then cs else [], held) # ?f ys\<rparr>))" by simp
  then have "wstep False handler (wview i W) (wview i ?V)" by (simp add: wview_def view_upd_conn(2) [OF i])
  from followed_step [OF this wa_invD(8) [OF assms(1) i] assms(2)] have "followed (wview i ?V)" .
  with wa_invD [OF assms(1)] assms(3) show ?thesis
    by (intro wa_invI [OF assms(1), where i = i]) (auto simp: i wview_def view_upd_conn(3) [OF i])
qed

lemma wa_inv_finish:
  fixes W :: "'h wagent" and handler :: "'h handler"
  assumes "wa_inv n W" "handler_ok handler" "wa_writing W = xs @ (i, [], held) # ys"
  shows "wa_inv n (W\<lparr>wa_agent := (wa_agent W)\<lparr>ag_pool := held @ ag_pool (wa_agent W)\<rparr>, wa_writing := xs @ ys\<rparr>)"
    (is "wa_inv n ?V")
proof -
  let ?A = "wa_agent W" and ?f = "\<lambda>zs. map snd (filter (\<lambda>x. fst x = i) zs)"
  have i: "i < length (ag_conns ?A)" using wa_invD(6) [OF assms(1)] assms(3) by auto
  have "ws_writing (wview i W) = ?f xs @ ([], held) # ?f ys" using assms(3) by simp
  from wstep.finish [OF this, where handler = handler and pipelining = False]
  have "wstep False handler (wview i W) (wview i ?V)" by (simp add: wview_def view_pool)
  from followed_step [OF this wa_invD(8) [OF assms(1) i] assms(2)] have f: "followed (wview i ?V)" .
  then have "\<forall>f \<in> set (held @ ag_pool ?A). pool_frame f" by (auto simp: followed_def orderly_def pool_ok_def)
  with wa_invD [OF assms(1)] assms(3) f show ?thesis
    by (intro wa_invI [OF assms(1), where i = i]) (auto simp: i wview_def view_pool)
qed

lemma wa_inv_close:
  fixes W :: "'h wagent" and handler :: "'h handler"
  assumes "wa_inv n W" "handler_ok handler" "i < length (ag_conns (wa_agent W))"
    and "ac_serve (ag_conns (wa_agent W) ! i) = Returned e \<or> ac_serve (ag_conns (wa_agent W) ! i) = Crashed"
    and "Close_calls (agent_conn i (wa_agent W)) = Ret (cn, calls, held)"
  shows "wa_inv n (W\<lparr>wa_agent := upd_conn i (\<lambda>c. c\<lparr>ac_serve := Closed\<rparr>) (put_conn i cn (wa_agent W)),
      wa_closing := (wa_closing W)(i := Some (calls, held))\<rparr>)" (is "wa_inv n ?V")
proof -
  let ?A = "wa_agent W"
  note put = view_put_conn [OF assms(3), where cn = cn]
  note upd = view_upd_conn [of i "put_conn i cn ?A", simplified, OF assms(3)]
  have v: "view i (upd_conn i (\<lambda>c. c\<lparr>ac_serve := Closed\<rparr>) (put_conn i cn ?A)) = (view i ?A)\<lparr>sy_conn := cn, sy_serve := Closed\<rparr>" using put(1) upd(1) by simp
  have "wstep False handler (wview i W) ((wview i W)\<lparr>ws_sys := (ws_sys (wview i W))\<lparr>sy_conn := cn, sy_serve := Closed\<rparr>,
      ws_closing := Some (calls, held)\<rparr>)" by (rule wstep.close) (use assms(4,5) in simp_all)
  moreover have "wview i ?V = (wview i W)\<lparr>ws_sys := (ws_sys (wview i W))\<lparr>sy_conn := cn, sy_serve := Closed\<rparr>,
      ws_closing := Some (calls, held)\<rparr>" using v by (simp add: wview_def)
  ultimately have "wstep False handler (wview i W) (wview i ?V)" by simp
  from followed_step [OF this wa_invD(8) [OF assms(1,3)] assms(2)] have f: "followed (wview i ?V)" .
  then have "\<forall>f \<in> set (cn_pool cn). pool_frame f"
    by (auto simp: followed_def orderly_def pool_ok_def v simp del: view_sel)
  with wa_invD [OF assms(1)] assms(3) f show ?thesis
    by (intro wa_invI [OF assms(1), where i = i]) (auto simp: wview_def put(2) upd(3))
qed

lemma wa_inv_close_call:
  fixes W :: "'h wagent" and handler :: "'h handler"
  assumes "wa_inv n W" "handler_ok handler" "i < length (ag_conns (wa_agent W))" "wa_closing W i = Some (c # cs, held)"
    and "Write c (ac_rw (ag_conns (wa_agent W) ! i)) = (w, m, err)"
  shows "wa_inv n (W\<lparr>wa_agent := upd_conn i (\<lambda>c. c\<lparr>ac_rw := w\<rparr>) (wa_agent W),
      wa_closing := (wa_closing W)(i := Some (if err = None then cs else [], held))\<rparr>)" (is "wa_inv n ?V")
proof -
  have "ws_closing (wview i W) = Some (c # cs, held)" using assms(4) by simp
  from wstep.close_call [OF this, where handler = handler and pipelining = False] assms(5)
  have "wstep False handler (wview i W) (wview i ?V)" by (simp add: wview_def view_upd_conn(2) [OF assms(3)])
  from followed_step [OF this wa_invD(8) [OF assms(1,3)] assms(2)] have "followed (wview i ?V)" .
  with wa_invD [OF assms(1)] assms(3) show ?thesis
    by (intro wa_invI [OF assms(1), where i = i]) (auto simp: wview_def view_upd_conn(3) [OF assms(3)])
qed

lemma wa_inv_hangup:
  fixes W :: "'h wagent" and handler :: "'h handler"
  assumes "wa_inv n W" "handler_ok handler" "i < length (ag_conns (wa_agent W))" "wa_closing W i = Some ([], held)"
  shows "wa_inv n (W\<lparr>wa_agent := put_conn i (close_conn ((agent_conn i (wa_agent W))\<lparr>
        cn_pool := held @ ag_pool (wa_agent W),
        cn_client := ctxCancel (Some (ErrFormat ''closing client'')) (ac_client (ag_conns (wa_agent W) ! i))\<rparr>)) (wa_agent W),
      wa_closing := (wa_closing W)(i := None)\<rparr>)" (is "wa_inv n ?V")
proof -
  note put = view_put_conn [OF assms(3)]
  have "ws_closing (wview i W) = Some ([], held)" using assms(4) by simp
  from wstep.hangup [OF this, where handler = handler and pipelining = False]
  have "wstep False handler (wview i W) (wview i ?V)" by (simp add: wview_def put(1))
  from followed_step [OF this wa_invD(8) [OF assms(1,3)] assms(2)] have f: "followed (wview i ?V)" .
  then have "\<forall>f \<in> set (held @ ag_pool (wa_agent W)). pool_frame f"
    by (auto simp: followed_def orderly_def pool_ok_def wview_def put(1) close_conn_def)
  with wa_invD [OF assms(1)] assms(3) f show ?thesis
    by (intro wa_invI [OF assms(1), where i = i]) (auto simp: wview_def put(2) close_conn_def)
qed

lemma wa_inv_cancel:
  fixes W :: "'h wagent" and handler :: "'h handler"
  assumes "wa_inv n W" "handler_ok handler"
  shows "wa_inv n (W\<lparr>wa_agent := (wa_agent W)\<lparr>ag_ctx := Some ErrCanceled,
       ag_conns := map (\<lambda>c. c\<lparr>ac_client := ctxCancel (Some ErrCanceled) (ac_client c)\<rparr>) (ag_conns (wa_agent W))\<rparr>\<rparr>)"
    (is "wa_inv n ?V")
proof -
  have "followed (wview j ?V)" if j: "j < length (ag_conns (wa_agent W))" for j
  proof -
    have "wview j ?V = upd_sys (\<lambda>cn. cn\<lparr>cn_client := ctxCancel (Some ErrCanceled) (cn_client cn)\<rparr>) (wview j W)"
      using view_cancel [OF j] by (simp add: wview_def)
    with followed_step [OF wstep.base_cancel wa_invD(8) [OF assms(1) j] assms(2)] show ?thesis by metis
  qed
  with wa_invD [OF assms(1)] show ?thesis by (simp add: wa_inv_def Let_def)
qed

lemma wa_inv_pool:
  assumes "wa_inv n W" "\<forall>f \<in> set pool. pool_frame f"
  shows "wa_inv n (W\<lparr>wa_agent := (wa_agent W)\<lparr>ag_pool := pool\<rparr>\<rparr>)" (is "wa_inv n ?V")
proof -
  have "followed (wview j ?V)" if j: "j < length (ag_conns (wa_agent W))" for j
  proof -
    have "wview j ?V = upd_sys (\<lambda>cn. cn\<lparr>cn_pool := pool, cn_h := ag_h (wa_agent W)\<rparr>) (wview j W)"
      by (simp add: wview_def view_def agent_conn_def frames_of_def)
    with followed_env [OF wa_invD(8) [OF assms(1) j] assms(2)] show ?thesis by metis
  qed
  with wa_invD [OF assms(1)] assms(2) show ?thesis by (simp add: wa_inv_def Let_def)
qed

lemma wa_step_inv:
  assumes "wa_step n handler W V" "handler_ok handler" "wa_inv n W"
  shows "wa_inv n V"
  using assms(1)
proof cases
  case accept
  then show ?thesis using wa_inv_accept [OF assms(3)] by simp
next
  case serve
  then show ?thesis using wa_inv_serve [OF assms(3,2)] by simp
next
  case schedule
  then show ?thesis using wa_inv_schedule [OF assms(3)] by simp
next
  case take
  then show ?thesis using wa_inv_take [OF assms(3)] by simp
next
  case handle
  then show ?thesis using wa_inv_handle [OF assms(3,2)] by simp
next
  case call
  then show ?thesis using wa_inv_call [OF assms(3,2)] by simp
next
  case finish
  then show ?thesis using wa_inv_finish [OF assms(3,2)] by simp
next
  case close
  then show ?thesis using wa_inv_close [OF assms(3,2)] by simp
next
  case close_call
  then show ?thesis using wa_inv_close_call [OF assms(3,2)] by simp
next
  case hangup
  then show ?thesis using wa_inv_hangup [OF assms(3,2)] by simp
next
  case base_cancel
  then show ?thesis using wa_inv_cancel [OF assms(3,2)] by simp
next
  case pool
  then show ?thesis using wa_inv_pool [OF assms(3)] by simp
qed

lemma wa_reachable_inv:
  assumes "wa_reachable n handler W" "handler_ok handler"
  shows "wa_inv n W"
proof -
  from assms(1) obtain zero h where "rtranclp (wa_step n handler) (wa_init zero n h) W"
    by (auto simp: wa_reachable_def)
  then show ?thesis
  proof (induction rule: rtranclp_induct)
    case base
    from agent_inv_init [of n zero h] show ?case
      by (simp add: agent_inv_def wa_inv_def wa_init_def Let_def) (simp add: agent_init_def)
  next
    case (step V V')
    then show ?case using wa_step_inv assms(2) by blast
  qed
qed

text \<open>C2: the whole agent call by call: in every reachable state with any number of connections, under
  every interleaving of accepting, the connections' \<open>Serve\<close>, the shared queue, the workers with their
  single calls of \<open>Write\<close>, cancellation and closing, where clients wait for their answers: with the
  calls still to come (\<open>flush\<close>) each connection has sent whole frames of its own, the first its
  AGENT-HELLO while it is served, no ACK above the frame size that it negotiated, and a part of a
  frame at the end only if this connection takes no more bytes; what it has sent is a beginning of
  that, and all of it when no frame of it is under way.\<close>

theorem agent_output_calls:
  assumes "handler_ok handler" and "wa_reachable numCPU handler W" and "i < length (ag_conns (wa_agent W))"
  shows "let conn = ag_conns (wa_agent W) ! i; n = c_maxFrameSize (ac_client conn); w = flush (wview i W) in
    (\<exists>frs. wire_log n w frs \<and>
      (ac_serve conn = Serving \<longrightarrow>
        (if c_gotHello (ac_client conn) then size_ok n \<and> (\<exists>rest. frs = hello_frame n # rest) else sk_out w = []))) \<and>
    (\<exists>more. sk_out w = sk_out (ac_rw conn) @ more) \<and>
    (idle (wview i W) \<and> wa_closing W i = None \<longrightarrow> w = ac_rw conn)"
proof -
  from wa_invD(8) [OF wa_reachable_inv [OF assms(2,1)] assms(3)] obtain a h0 where
    "ahead (wview i W) a" "sys_inv h0 a" by (auto simp: followed_def)
  from ahead_output [OF this] flush_extends [of "wview i W"] flush_idle [of "wview i W"]
  show ?thesis by (simp add: Let_def)
qed

text \<open>The agent with one connection, call by call.\<close>

lemma demo_wa_reachable:
  "wa_reachable 1 demo_handler \<lparr>wa_agent = demo_agent zero, wa_writing = [], wa_closing = (\<lambda>_. None)\<rparr>"
proof -
  let ?W = "wa_init zero 1 0 :: nat wagent"
  let ?acc = "Accepted (Some (None, None)) (sy_in demo_sys) None"
  let ?V = "?W\<lparr>wa_agent := agent_accept ?acc (wa_agent ?W)\<rparr>"
  have s1: "wa_step 1 demo_handler ?W ?V" by (rule wa_step.accept) (simp add: wa_init_def agent_init_def)
  have q: "q_list (mo_queue (newAsyncScheduler zero 1)) = []" using newAsyncScheduler_init [of zero 1] by simp
  have "wa_step 1 demo_handler ?V (?V\<lparr>wa_agent := agent_serve demo_handler 0 (wa_agent ?V)\<rparr>)"
    by (rule wa_step.serve)
      (simp_all add: wa_init_def agent_accept_def agent_init_def new_conn_def idle_def frames_of_def q [simplified])
  with s1 have "rtranclp (wa_step 1 demo_handler) ?W (?V\<lparr>wa_agent := agent_serve demo_handler 0 (wa_agent ?V)\<rparr>)"
    by (meson converse_rtranclp_into_rtranclp rtranclp.rtrancl_refl)
  moreover have "?V\<lparr>wa_agent := agent_serve demo_handler 0 (wa_agent ?V)\<rparr> =
      \<lparr>wa_agent = demo_agent zero, wa_writing = [], wa_closing = (\<lambda>_. None)\<rparr>"
    by (simp add: wa_init_def demo_agent_def)
  ultimately show ?thesis unfolding wa_reachable_def by metis
qed

lemma agent_output_calls_witness:
  "\<forall>zero. \<exists>frs. wire_log (c_maxFrameSize (ac_client (ag_conns (demo_agent zero) ! 0)))
     (ac_rw (ag_conns (demo_agent zero) ! 0)) frs"
proof
  fix zero
  let ?W = "\<lparr>wa_agent = demo_agent zero, wa_writing = [], wa_closing = (\<lambda>_. None)\<rparr>"
  have l: "0 < length (ag_conns (wa_agent ?W))" by (simp add: demo_agent_reachable(2))
  have f: "flush (wview 0 ?W) = ac_rw (ag_conns (demo_agent zero) ! 0)" by (simp add: flush_def)
  from agent_output_calls [OF demo_ok(2) demo_wa_reachable l] show "\<exists>frs. wire_log
      (c_maxFrameSize (ac_client (ag_conns (demo_agent zero) ! 0))) (ac_rw (ag_conns (demo_agent zero) ! 0)) frs"
    unfolding Let_def f by auto
qed

end
