(* ===== verification/StickTypes.thy ===== *)
theory StickTypes
  imports Encoding
begin

text \<open>
  The key and data types of stick tables (peers/sticktable/constants.go) and the Go types that
  hold keys and data values (peers/sticktable/values.go). A \<open>KeyType\<close> or \<open>DataType\<close> is a Go int,
  here its 64-bit pattern: \<open>KeyType(x)\<close> and \<open>uint64(t)\<close> of the code are the identity on it.
\<close>

named_theorems stick_defs \<open>constants of stick tables\<close>

type_synonym key_type = u64
type_synonym data_type = u64

section \<open>Key types\<close>

definition KeyTypeAny :: key_type where [stick_defs]: "KeyTypeAny = 0"
definition KeyTypeBoolean :: key_type where [stick_defs]: "KeyTypeBoolean = 1"
definition KeyTypeSignedInteger :: key_type where [stick_defs]: "KeyTypeSignedInteger = 2"
definition KeyTypeAddress :: key_type where [stick_defs]: "KeyTypeAddress = 3"
definition KeyTypeIPv4Address :: key_type where [stick_defs]: "KeyTypeIPv4Address = 4"
definition KeyTypeIPv6Address :: key_type where [stick_defs]: "KeyTypeIPv6Address = 5"
definition KeyTypeString :: key_type where [stick_defs]: "KeyTypeString = 6"
definition KeyTypeBinary :: key_type where [stick_defs]: "KeyTypeBinary = 7"
definition KeyTypeMethod :: key_type where [stick_defs]: "KeyTypeMethod = 8"

text \<open>The implementations of \<open>MapKey\<close>: the value a pointer of the interface points to.\<close>

datatype map_key =
    SignedIntegerKey u32
  | IPv4AddressKey addr
  | IPv6AddressKey addr
  | StringKey "byte list"
  | BinaryKey "byte list"

definition KeyType_New :: "key_type \<Rightarrow> map_key option" where
  "KeyType_New t =
     (if t = KeyTypeSignedInteger then Ret (SignedIntegerKey 0)
      else if t = KeyTypeIPv4Address then Ret (IPv4AddressKey NoAddr)
      else if t = KeyTypeIPv6Address then Ret (IPv6AddressKey NoAddr)
      else if t = KeyTypeString then Ret (StringKey [])
      else if t = KeyTypeBinary then Ret (BinaryKey [])
      else Panic)"

section \<open>Data types\<close>

definition DataTypeServerId :: data_type where [stick_defs]: "DataTypeServerId = 0"
definition DataTypeGPT0 :: data_type where [stick_defs]: "DataTypeGPT0 = 1"
definition DataTypeGPC0 :: data_type where [stick_defs]: "DataTypeGPC0 = 2"
definition DataTypeGPC0Rate :: data_type where [stick_defs]: "DataTypeGPC0Rate = 3"
definition DataTypeConnectionsCounter :: data_type where [stick_defs]: "DataTypeConnectionsCounter = 4"
definition DataTypeConnectionRate :: data_type where [stick_defs]: "DataTypeConnectionRate = 5"
definition DataTypeNumberOfCurrentConnections :: data_type where [stick_defs]: "DataTypeNumberOfCurrentConnections = 6"
definition DataTypeSessionsCounter :: data_type where [stick_defs]: "DataTypeSessionsCounter = 7"
definition DataTypeSessionRate :: data_type where [stick_defs]: "DataTypeSessionRate = 8"
definition DataTypeHttpRequestsCounter :: data_type where [stick_defs]: "DataTypeHttpRequestsCounter = 9"
definition DataTypeHttpRequestsRate :: data_type where [stick_defs]: "DataTypeHttpRequestsRate = 10"
definition DataTypeErrorsCounter :: data_type where [stick_defs]: "DataTypeErrorsCounter = 11"
definition DataTypeErrorsRate :: data_type where [stick_defs]: "DataTypeErrorsRate = 12"
definition DataTypeBytesInCounter :: data_type where [stick_defs]: "DataTypeBytesInCounter = 13"
definition DataTypeBytesInRate :: data_type where [stick_defs]: "DataTypeBytesInRate = 14"
definition DataTypeBytesOutCounter :: data_type where [stick_defs]: "DataTypeBytesOutCounter = 15"
definition DataTypeBytesOutRate :: data_type where [stick_defs]: "DataTypeBytesOutRate = 16"
definition DataTypeGPC1 :: data_type where [stick_defs]: "DataTypeGPC1 = 17"
definition DataTypeGPC1Rate :: data_type where [stick_defs]: "DataTypeGPC1Rate = 18"
definition DataTypeServerKey :: data_type where [stick_defs]: "DataTypeServerKey = 19"
definition DataTypeHttpFailCounter :: data_type where [stick_defs]: "DataTypeHttpFailCounter = 20"
definition DataTypeHttpFailRate :: data_type where [stick_defs]: "DataTypeHttpFailRate = 21"
definition DataTypeGPTArray :: data_type where [stick_defs]: "DataTypeGPTArray = 22"
definition DataTypeGPCArray :: data_type where [stick_defs]: "DataTypeGPCArray = 23"
definition DataTypeGPCRateArray :: data_type where [stick_defs]: "DataTypeGPCRateArray = 24"
definition DataTypeGlitchCounter :: data_type where [stick_defs]: "DataTypeGlitchCounter = 25"
definition DataTypeGlitchRate :: data_type where [stick_defs]: "DataTypeGlitchRate = 26"

definition DataType_String :: "data_type \<Rightarrow> string" where
  "DataType_String d =
     (if d = DataTypeServerId then ''server_id''
      else if d = DataTypeGPT0 then ''gpt0''
      else if d = DataTypeGPC0 then ''gpc0''
      else if d = DataTypeGPC0Rate then ''gpc0_rate''
      else if d = DataTypeConnectionsCounter then ''conn_cnt''
      else if d = DataTypeConnectionRate then ''conn_rate''
      else if d = DataTypeNumberOfCurrentConnections then ''conn_cur''
      else if d = DataTypeSessionsCounter then ''sess_cnt''
      else if d = DataTypeSessionRate then ''sess_rate''
      else if d = DataTypeHttpRequestsCounter then ''http_req_cnt''
      else if d = DataTypeHttpRequestsRate then ''http_req_rate''
      else if d = DataTypeErrorsCounter then ''http_err_cnt''
      else if d = DataTypeErrorsRate then ''http_err_rate''
      else if d = DataTypeBytesInCounter then ''bytes_in_cnt''
      else if d = DataTypeBytesInRate then ''bytes_in_rate''
      else if d = DataTypeBytesOutCounter then ''bytes_out_cnt''
      else if d = DataTypeBytesOutRate then ''bytes_out_rate''
      else if d = DataTypeGPC1 then ''gpc1''
      else if d = DataTypeGPC1Rate then ''gpc1_rate''
      else if d = DataTypeServerKey then ''server_key''
      else if d = DataTypeHttpFailCounter then ''http_fail_cnt''
      else if d = DataTypeHttpFailRate then ''http_fail_rate''
      else if d = DataTypeGPTArray then ''gpt''
      else if d = DataTypeGPCArray then ''gpc''
      else if d = DataTypeGPCRateArray then ''gpc_rate''
      else if d = DataTypeGlitchCounter then ''glitch_cnt''
      else if d = DataTypeGlitchRate then ''glitch_rate''
      else ''StickTableUpdateMessageType('' @ show_int (sint d) @ '')'')"

definition IsDelay :: "data_type \<Rightarrow> bool" where
  "IsDelay d \<longleftrightarrow>
     d = DataTypeGPC0Rate \<or>
     d = DataTypeConnectionRate \<or>
     d = DataTypeSessionRate \<or>
     d = DataTypeHttpRequestsRate \<or>
     d = DataTypeErrorsRate \<or>
     d = DataTypeBytesInRate \<or>
     d = DataTypeBytesOutRate \<or>
     d = DataTypeGPC1Rate \<or>
     d = DataTypeHttpFailRate"

text \<open>The implementations of \<open>MapData\<close>, and the zero values \<open>new\<close> returns.\<close>

record freq =
  CurrentTick :: u64
  CurrentPeriod :: u64
  LastPeriod :: u64

record dict =
  Value :: "byte list"
  ID :: u64

datatype map_data =
    FreqData freq
  | SignedIntegerData u32
  | UnsignedIntegerData u32
  | UnsignedLongLongData u64
  | DictData dict

abbreviation zero_freq :: freq where
  "zero_freq \<equiv> \<lparr>CurrentTick = 0, CurrentPeriod = 0, LastPeriod = 0\<rparr>"

abbreviation zero_dict :: dict where
  "zero_dict \<equiv> \<lparr>Value = [], ID = 0\<rparr>"

text \<open>\<open>New\<close> returns \<open>nil\<close>, here \<open>None\<close>, for a type it does not know.\<close>

definition DataType_New :: "data_type \<Rightarrow> map_data option" where
  "DataType_New d =
     (if d = DataTypeServerId then Some (SignedIntegerData 0)
      else if d = DataTypeGPT0 then Some (UnsignedIntegerData 0)
      else if d = DataTypeGPC0 then Some (UnsignedIntegerData 0)
      else if d = DataTypeGPC0Rate then Some (FreqData zero_freq)
      else if d = DataTypeConnectionsCounter then Some (UnsignedIntegerData 0)
      else if d = DataTypeConnectionRate then Some (FreqData zero_freq)
      else if d = DataTypeNumberOfCurrentConnections then Some (UnsignedIntegerData 0)
      else if d = DataTypeSessionsCounter then Some (UnsignedIntegerData 0)
      else if d = DataTypeSessionRate then Some (FreqData zero_freq)
      else if d = DataTypeHttpRequestsCounter then Some (UnsignedIntegerData 0)
      else if d = DataTypeHttpRequestsRate then Some (FreqData zero_freq)
      else if d = DataTypeErrorsCounter then Some (UnsignedIntegerData 0)
      else if d = DataTypeErrorsRate then Some (FreqData zero_freq)
      else if d = DataTypeBytesInCounter then Some (UnsignedLongLongData 0)
      else if d = DataTypeBytesInRate then Some (FreqData zero_freq)
      else if d = DataTypeBytesOutCounter then Some (UnsignedLongLongData 0)
      else if d = DataTypeBytesOutRate then Some (FreqData zero_freq)
      else if d = DataTypeGPC1 then Some (UnsignedIntegerData 0)
      else if d = DataTypeGPC1Rate then Some (FreqData zero_freq)
      else if d = DataTypeServerKey then Some (DictData zero_dict)
      else if d = DataTypeHttpFailCounter then Some (UnsignedIntegerData 0)
      else if d = DataTypeHttpFailRate then Some (FreqData zero_freq)
      else if d = DataTypeGPTArray then Some (DictData zero_dict)
      else if d = DataTypeGPCArray then Some (DictData zero_dict)
      else if d = DataTypeGPCRateArray then Some (DictData zero_dict)
      else if d = DataTypeGlitchCounter then Some (UnsignedIntegerData 0)
      else if d = DataTypeGlitchRate then Some (FreqData zero_freq)
      else None)"

section \<open>The known types\<close>

lemma small_word_cases:
  assumes "d < (27 :: u64)"
  shows "d \<in> set (map of_nat [0..<27])"
proof -
  have "d = of_nat (unat d)" by simp
  moreover have "unat d \<in> set [0..<27]" using assms by (simp add: word_less_nat_alt)
  ultimately show ?thesis by (metis image_eqI list.set_map)
qed

lemma DataType_New_known: "DataType_New d \<noteq> None \<longleftrightarrow> d < 27"
proof
  assume "DataType_New d \<noteq> None"
  then show "d < 27" by (auto simp: DataType_New_def stick_defs split: if_splits)
next
  assume "d < 27"
  then show "DataType_New d \<noteq> None"
    using small_word_cases [of d] by (auto simp: DataType_New_def stick_defs upt_rec)
qed

text \<open>Of the data types whose value is a rate, all but the rate of glitches are announced with a period.\<close>

lemma rates_with_period:
  "DataType_New d = Some (FreqData q) \<longleftrightarrow> q = zero_freq \<and> (IsDelay d \<or> d = DataTypeGlitchRate)"
  "\<not> IsDelay DataTypeGlitchRate"
  by (auto simp: IsDelay_def DataType_New_def stick_defs)

lemma IsDelay_known: "IsDelay d \<Longrightarrow> DataType_New d = Some (FreqData zero_freq)"
  by (auto simp: IsDelay_def DataType_New_def stick_defs)

end
