(* ===== verification/Cursor.thy ===== *)
theory Cursor
  imports Encoding
begin

text \<open>
  The shape all marshallers of the peers library share: an \<open>offset\<close> into the slice \<open>b\<close>, and
  calls \<open>x, n, err := Get(b[offset:])\<close> and \<open>n, err = Put(b[offset:], v)\<close> with an early return.
  \<open>get_then\<close> and \<open>put_then\<close> are these two steps with the rest of the function as an argument;
  the lemmas state them for slices of a known shape, once for every codec.
\<close>

named_theorems cursor \<open>steps of a decoder at a known rest\<close>

section \<open>Decoding at an offset\<close>

definition get_then ::
  "(slice \<Rightarrow> ('a \<times> nat \<times> gerr option) option) \<Rightarrow> slice \<Rightarrow> nat \<Rightarrow>
   ('a \<Rightarrow> nat \<Rightarrow> gerr \<Rightarrow> 'r option) \<Rightarrow> ('a \<Rightarrow> nat \<Rightarrow> 'r option) \<Rightarrow> 'r option" where
  "get_then get b off fail k =
     do {
       t \<leftarrow> sfrom b off;
       (x, n, err) \<leftarrow> get t;
       case err of Some e \<Rightarrow> fail x n e | None \<Rightarrow> k x n
     }"

text \<open>\<open>rest b off t\<close>: the bytes from the offset to the length of the slice are \<open>t\<close>.\<close>

definition rest :: "slice \<Rightarrow> nat \<Rightarrow> byte list \<Rightarrow> bool" where
  "rest b off t \<longleftrightarrow> off \<le> slen b \<and> drop off (vis b) = t"

lemma rest_0 [simp]: "rest (Slice x s) 0 x"
  by (simp add: rest_def)

lemma rest_append [cursor]: "rest b off (x @ t) \<Longrightarrow> rest b (off + length x) t"
  by (auto simp: rest_def drop_drop [symmetric] add.commute [of off])
    (metis append_eq_conv_conj length_append length_drop le_add1 le_add_diff_inverse2
      nat_add_left_cancel_le slen_vis add.commute)

lemma rest_sfrom: "rest b off t \<Longrightarrow> sfrom b off = Ret (Slice t (spare b))"
  by (simp add: rest_def sfrom_def)

lemma rest_length: "rest b off t \<Longrightarrow> slen b = off + length t"
  by (auto simp: rest_def)

lemma rest_end: "rest b off [] \<Longrightarrow> off = slen b"
  by (auto simp: rest_def)

context codec
begin

lemma get_then_enc [cursor]:
  "rest b off (enc x @ t) \<Longrightarrow> valid x \<Longrightarrow> get_then get b off fail k = k x (length (enc x))"
  by (simp add: get_then_def rest_sfrom get_enc)

end

text \<open>A step that succeeded, for a step whose failure is the failure of the function.\<close>

lemma get_then_ok:
  assumes "get_then get b off fail k = Ret r" and "\<And>x n e. fail x n e \<noteq> Ret r"
  obtains t x n where "sfrom b off = Ret t" "get t = Ret (x, n, None)" "k x n = Ret r" "off \<le> slen b"
  using assms by (auto simp: get_then_def bind_eq_Some_conv sfrom_def split: option.splits if_splits)

lemma get_varint_ok:
  assumes "get_then Varint b off (\<lambda>_ n e. Ret (s n, f n, Some e)) k = Ret (r, m, None)"
  obtains v n where "k v n = Ret (r, m, None)" "off + n \<le> slen b"
  using assms
  by (rule get_then_ok) (auto simp: sfrom_def split: if_splits dest!: Varint_consumes)

section \<open>Encoding at an offset\<close>

definition put_then ::
  "(slice \<Rightarrow> (slice \<times> nat \<times> gerr option) option) \<Rightarrow> slice \<Rightarrow> nat \<Rightarrow>
   (slice \<Rightarrow> nat \<Rightarrow> (slice \<times> nat \<times> gerr option) option) \<Rightarrow> (slice \<times> nat \<times> gerr option) option" where
  "put_then put b off k =
     do {
       (b, n, err) \<leftarrow> put_at b off put;
       let off = off + n;
       case err of Some e \<Rightarrow> Ret (b, off, Some e) | None \<Rightarrow> k b off
     }"

text \<open>\<open>for _, x := range xs\<close> around such a step.\<close>

fun put_all ::
  "('a \<Rightarrow> slice \<Rightarrow> (slice \<times> nat \<times> gerr option) option) \<Rightarrow> 'a list \<Rightarrow> slice \<Rightarrow> nat \<Rightarrow>
   (slice \<times> nat \<times> gerr option) option" where
  "put_all put [] b off = Ret (b, off, None)"
| "put_all put (x # xs) b off = put_then (put x) b off (put_all put xs)"

text \<open>
  What such a function promises: with \<open>out\<close> written and \<open>free\<close> left, it adds exactly \<open>e\<close> when
  there is room (\<open>adds\<close>), and reports the lack of it otherwise (\<open>adds_strictly\<close>).
\<close>

definition adds :: "(slice \<Rightarrow> nat \<Rightarrow> (slice \<times> nat \<times> gerr option) option) \<Rightarrow> byte list \<Rightarrow> bool" where
  "adds f e \<longleftrightarrow> (\<forall>out free s. length e \<le> length free \<longrightarrow>
     f (Slice (out @ free) s) (length out) =
       Ret (Slice (out @ e @ drop (length e) free) s, length (out @ e), None))"

definition adds_strictly :: "(slice \<Rightarrow> nat \<Rightarrow> (slice \<times> nat \<times> gerr option) option) \<Rightarrow> byte list \<Rightarrow> bool" where
  "adds_strictly f e \<longleftrightarrow> adds f e \<and> (\<forall>out free s. length free < length e \<longrightarrow>
     (\<exists>v n. length v = length out + length free \<and> n \<le> length v \<and>
        f (Slice (out @ free) s) (length out) = Ret (Slice v s, n, Some ErrInsufficientSpace)))"

lemma addsD:
  "adds f e \<Longrightarrow> length e \<le> length free \<Longrightarrow> f (Slice (out @ free) s) (length out) =
     Ret (Slice (out @ e @ drop (length e) free) s, length (out @ e), None)"
  unfolding adds_def by blast

lemma adds_0:
  "adds f e \<Longrightarrow> length e \<le> slen b \<Longrightarrow>
   f b 0 = Ret (Slice (e @ drop (length e) (vis b)) (spare b), length e, None)"
  using addsD [of f e "vis b" "[]" "spare b"] by (cases b) simp

lemma adds_done [simp]: "adds (\<lambda>b off. Ret (b, off, None)) []"
  by (simp add: adds_def)

lemma adds_strictly_done [simp]: "adds_strictly (\<lambda>b off. Ret (b, off, None)) []"
  by (simp add: adds_strictly_def)

lemma adds_strictlyD [dest]: "adds_strictly f e \<Longrightarrow> adds f e"
  by (simp add: adds_strictly_def)

context putter
begin

lemma adds_put:
  assumes "valid x" and "adds k e"
  shows "adds (\<lambda>b off. put_then (put x) b off k) (enc x @ e)"
  unfolding adds_def
proof (intro allI impI)
  fix out free s :: "byte list"
  assume le: "length (enc x @ e) \<le> length free"
  have "put_then (put x) (Slice (out @ free) s) (length out) k =
      k (Slice ((out @ enc x) @ drop (length (enc x)) free) s) (length (out @ enc x))"
    using le by (simp add: put_then_def put_at_fits assms(1) Let_def)
  also have "\<dots> = Ret (Slice ((out @ enc x) @ e @ drop (length e) (drop (length (enc x)) free)) s,
      length ((out @ enc x) @ e), None)"
    using le by (intro addsD [OF assms(2)]) simp
  finally show "put_then (put x) (Slice (out @ free) s) (length out) k =
      Ret (Slice (out @ (enc x @ e) @ drop (length (enc x @ e)) free) s, length (out @ enc x @ e), None)"
    by (simp add: add.commute)
qed

lemma adds_put_all: "\<forall>x \<in> set xs. valid x \<Longrightarrow> adds (put_all put xs) (concat (map enc xs))"
proof (induction xs)
  case (Cons x xs)
  then have "adds (\<lambda>b off. put_then (put x) b off (put_all put xs)) (enc x @ concat (map enc xs))"
    by (intro adds_put) simp_all
  then show ?case by (simp add: adds_def)
qed (simp add: adds_def)

end

context strict_putter
begin

lemma adds_strictly_put:
  assumes x: "valid x" and k: "adds_strictly k e"
  shows "adds_strictly (\<lambda>b off. put_then (put x) b off k) (enc x @ e)"
  unfolding adds_strictly_def
proof (intro conjI allI impI)
  show "adds (\<lambda>b off. put_then (put x) b off k) (enc x @ e)"
    using adds_put [OF x] k by blast
next
  fix out free s :: "byte list"
  assume lt: "length free < length (enc x @ e)"
  show "\<exists>v n. length v = length out + length free \<and> n \<le> length v \<and>
      put_then (put x) (Slice (out @ free) s) (length out) k = Ret (Slice v s, n, Some ErrInsufficientSpace)"
  proof (cases "length (enc x) \<le> length free")
    case True
    then have "put_then (put x) (Slice (out @ free) s) (length out) k =
        k (Slice ((out @ enc x) @ drop (length (enc x)) free) s) (length (out @ enc x))"
      by (simp add: put_then_def put_at_fits x Let_def)
    moreover have "length (drop (length (enc x)) free) < length e" using lt True by auto
    with k obtain v n where "length v = length (out @ enc x) + length (drop (length (enc x)) free)"
      "n \<le> length v" "k (Slice ((out @ enc x) @ drop (length (enc x)) free) s) (length (out @ enc x)) =
        Ret (Slice v s, n, Some ErrInsufficientSpace)"
      unfolding adds_strictly_def by blast
    ultimately show ?thesis using True by (intro exI [of _ v] exI [of _ n]) auto
  next
    case False
    then obtain zs n where "length zs = length free" "n \<le> length free"
      "put_at (Slice (out @ free) s) (length out) (put x) =
        Ret (Slice (out @ zs) s, n, Some ErrInsufficientSpace)"
      using put_at_short [OF x] by (metis not_le)
    then show ?thesis by (intro exI [of _ "out @ zs"] exI [of _ "length out + n"]) (simp add: put_then_def)
  qed
qed

lemma adds_strictly_put_all:
  "\<forall>x \<in> set xs. valid x \<Longrightarrow> adds_strictly (put_all put xs) (concat (map enc xs))"
proof (induction xs)
  case (Cons x xs)
  then have "adds_strictly (\<lambda>b off. put_then (put x) b off (put_all put xs)) (enc x @ concat (map enc xs))"
    by (intro adds_strictly_put) simp_all
  then show ?case by (simp add: adds_strictly_def adds_def)
qed (simp add: adds_strictly_def adds_def)

end

text \<open>Copying at an offset: \<open>offset += copy(b[offset:], v)\<close>, cut off at the end of the slice.\<close>

definition copy_at :: "slice \<Rightarrow> nat \<Rightarrow> byte list \<Rightarrow> (slice \<times> nat) option" where
  "copy_at b off v =
     do {
       t \<leftarrow> sfrom b off;
       let (t, n) = scopy t v;
       Ret (splice b off t, n)
     }"

lemma copy_at_fits:
  "length v \<le> length free \<Longrightarrow> copy_at (Slice (out @ free) s) (length out) v =
    Ret (Slice (out @ v @ drop (length v) free) s, length v)"
  by (simp add: copy_at_def scopy_def splice_tail min_def Let_def)

lemma copy_at_short:
  "length free \<le> length v \<Longrightarrow> copy_at (Slice (out @ free) s) (length out) v =
    Ret (Slice (out @ take (length free) v) s, length free)"
  by (simp add: copy_at_def scopy_def splice_tail min_def Let_def)

lemma adds_copy:
  assumes "adds k e"
  shows "adds (\<lambda>b off. do { (b, n) \<leftarrow> copy_at b off v; k b (off + n) }) (v @ e)"
  unfolding adds_def
proof (intro allI impI)
  fix out free s :: "byte list"
  assume le: "length (v @ e) \<le> length free"
  then have "k (Slice ((out @ v) @ drop (length v) free) s) (length (out @ v)) =
      Ret (Slice ((out @ v) @ e @ drop (length e) (drop (length v) free)) s, length ((out @ v) @ e), None)"
    by (intro addsD [OF assms]) simp
  with le show "(do { (b, n) \<leftarrow> copy_at (Slice (out @ free) s) (length out) v; k b (length out + n) }) =
      Ret (Slice (out @ (v @ e) @ drop (length (v @ e)) free) s, length (out @ v @ e), None)"
    by (simp add: copy_at_fits add.commute)
qed

text \<open>A copy that is cut off leaves no room for what follows.\<close>

lemma adds_strictly_copy:
  assumes k: "adds_strictly k e" and "e \<noteq> []"
  shows "adds_strictly (\<lambda>b off. do { (b, n) \<leftarrow> copy_at b off v; k b (off + n) }) (v @ e)"
  unfolding adds_strictly_def
proof (intro conjI allI impI)
  show "adds (\<lambda>b off. do { (b, n) \<leftarrow> copy_at b off v; k b (off + n) }) (v @ e)"
    using k by (intro adds_copy) blast
next
  fix out free s :: "byte list"
  assume lt: "length free < length (v @ e)"
  let ?w = "take (length free) v" and ?f = "drop (length v) free"
  have "copy_at (Slice (out @ free) s) (length out) v = Ret (Slice ((out @ ?w) @ ?f) s, length ?w)"
    by (cases "length v \<le> length free") (simp_all add: copy_at_fits copy_at_short)
  moreover have "length ?f < length e" using lt assms(2) by (cases "length v \<le> length free") auto
  with k obtain u n where "length u = length (out @ ?w) + length ?f" "n \<le> length u"
    "k (Slice ((out @ ?w) @ ?f) s) (length (out @ ?w)) = Ret (Slice u s, n, Some ErrInsufficientSpace)"
    unfolding adds_strictly_def by blast
  ultimately show "\<exists>u n. length u = length out + length free \<and> n \<le> length u \<and>
      (do { (b, n) \<leftarrow> copy_at (Slice (out @ free) s) (length out) v; k b (length out + n) }) =
        Ret (Slice u s, n, Some ErrInsufficientSpace)"
    by (intro exI [of _ u] exI [of _ n]) (auto simp: min_def)
qed

text \<open>A function that starts at offset 0 and adds an encoding is a putter of it.\<close>

lemma putterI:
  assumes "\<And>x. valid x \<Longrightarrow> adds (f x) (enc x)" and "\<And>x b. valid x \<Longrightarrow> put x b = f x b 0"
  shows "putter put enc valid"
proof
  fix x and ys s :: "byte list"
  assume "valid x" "length (enc x) \<le> length ys"
  then show "put x (Slice ys s) = Ret (Slice (enc x @ drop (length (enc x)) ys) s, length (enc x), None)"
    using adds_0 [OF assms(1), of x "Slice ys s"] assms(2) by simp
qed

lemma strict_putterI:
  assumes "\<And>x. valid x \<Longrightarrow> adds_strictly (f x) (enc x)" and "\<And>x b. valid x \<Longrightarrow> put x b = f x b 0"
  shows "strict_putter put enc valid"
proof (intro strict_putter.intro putterI strict_putter_axioms.intro)
  fix x and ys s :: "byte list"
  assume x: "valid x" "length ys < length (enc x)"
  with assms(1) have "\<exists>v n. length v = length ([] :: byte list) + length ys \<and> n \<le> length v \<and>
      f x (Slice ([] @ ys) s) (length ([] :: byte list)) = Ret (Slice v s, n, Some ErrInsufficientSpace)"
    unfolding adds_strictly_def by blast
  then show "\<exists>zs n. length zs = length ys \<and> n \<le> length ys \<and>
      put x (Slice ys s) = Ret (Slice zs s, n, Some ErrInsufficientSpace)"
    using assms(2) [OF x(1)] by force
qed (use assms in auto)

end
