(* ===== verification/StickValues.thy ===== *)
theory StickValues
  imports StickTypes Cursor
begin

text \<open>
  Marshalling of the keys and the data values of stick tables (peers/sticktable/values.go).
  A method on a pointer \<open>v\<close> takes the value \<open>v\<close> points to and, where it assigns to it,
  returns the new one. \<open>int(n)\<close> of a 64-bit value is its signed reading.
\<close>

section \<open>Keys\<close>

text \<open>\<open>[4]byte(b)\<close>: the first bytes of a slice as an array, a panic if it is shorter.\<close>

definition as_array :: "nat \<Rightarrow> slice \<Rightarrow> byte list option" where
  [slice_ops]: "as_array n b = (if n \<le> slen b then Ret (take n (vis b)) else Panic)"

text \<open>\<open>netip.Addr.As4\<close>, which takes an IPv4-mapped IPv6 address too, and \<open>As16\<close>.\<close>

definition mapped_prefix :: "byte list" where
  "mapped_prefix = replicate 10 0 @ [0xFF, 0xFF]"

fun As4 :: "addr \<Rightarrow> byte list option" where
  "As4 (Addr4 x) = Ret x"
| "As4 (Addr6 x z) = (if take 12 x = mapped_prefix then Ret (drop 12 x) else Panic)"
| "As4 NoAddr = Panic"

fun As16 :: "addr \<Rightarrow> byte list" where
  "As16 (Addr4 x) = mapped_prefix @ x"
| "As16 (Addr6 x z) = x"
| "As16 NoAddr = replicate 16 0"

definition StringKey_Unmarshal :: "byte list \<Rightarrow> slice \<Rightarrow> u64 \<Rightarrow> (byte list \<times> nat \<times> gerr option) option" where
  "StringKey_Unmarshal v b keySize =
     do {
       (valueLength, n, err) \<leftarrow> Varint b;
       if err \<noteq> None then Ret (v, n, err)
       else if valueLength = 0 then Ret (v, n, None)
       else if sint valueLength < 0 \<or> 2 ^ 63 \<le> int n + sint valueLength then Panic
       else do {
         t \<leftarrow> sbetween b n (n + nat (sint valueLength));
         Ret (vis t, n + nat (sint valueLength), None)
       }
     }"

definition SignedIntegerKey_Unmarshal :: "slice \<Rightarrow> u64 \<Rightarrow> (u32 \<times> nat \<times> gerr option) option" where
  "SignedIntegerKey_Unmarshal b keySize =
     do {
       v \<leftarrow> Uint32 b;
       Ret (v, 4, None)
     }"

definition IPv4AddressKey_Unmarshal :: "addr \<Rightarrow> slice \<Rightarrow> u64 \<Rightarrow> (addr \<times> nat \<times> gerr option) option" where
  "IPv4AddressKey_Unmarshal v b keySize =
     (if keySize \<noteq> 4 then Ret (v, 0, Some (ErrFormatNat ''invalid ipv4 key size'' (unat keySize)))
      else do {
        a \<leftarrow> as_array 4 b;
        Ret (Addr4 a, 4, None)
      })"

definition IPv6AddressKey_Unmarshal :: "addr \<Rightarrow> slice \<Rightarrow> u64 \<Rightarrow> (addr \<times> nat \<times> gerr option) option" where
  "IPv6AddressKey_Unmarshal v b keySize =
     (if keySize \<noteq> 16 then Ret (v, 0, Some (ErrFormatNat ''invalid ipv6 key size'' (unat keySize)))
      else do {
        a \<leftarrow> as_array 16 b;
        Ret (Addr6 a [], 16, None)
      })"

definition BinaryKey_Unmarshal :: "slice \<Rightarrow> u64 \<Rightarrow> (byte list \<times> nat \<times> gerr option) option" where
  "BinaryKey_Unmarshal b keySize =
     do {
       t \<leftarrow> supto b (unat keySize);
       Ret (vis t, unat keySize, None)
     }"

fun MapKey_Unmarshal :: "map_key \<Rightarrow> slice \<Rightarrow> u64 \<Rightarrow> (map_key \<times> nat \<times> gerr option) option" where
  "MapKey_Unmarshal (SignedIntegerKey v) b keySize =
     do { (v, n, err) \<leftarrow> SignedIntegerKey_Unmarshal b keySize; Ret (SignedIntegerKey v, n, err) }"
| "MapKey_Unmarshal (IPv4AddressKey v) b keySize =
     do { (v, n, err) \<leftarrow> IPv4AddressKey_Unmarshal v b keySize; Ret (IPv4AddressKey v, n, err) }"
| "MapKey_Unmarshal (IPv6AddressKey v) b keySize =
     do { (v, n, err) \<leftarrow> IPv6AddressKey_Unmarshal v b keySize; Ret (IPv6AddressKey v, n, err) }"
| "MapKey_Unmarshal (StringKey v) b keySize =
     do { (v, n, err) \<leftarrow> StringKey_Unmarshal v b keySize; Ret (StringKey v, n, err) }"
| "MapKey_Unmarshal (BinaryKey v) b keySize =
     do { (v, n, err) \<leftarrow> BinaryKey_Unmarshal b keySize; Ret (BinaryKey v, n, err) }"

definition SignedIntegerKey_Marshal :: "u32 \<Rightarrow> slice \<Rightarrow> u64 \<Rightarrow> (slice \<times> nat \<times> gerr option) option" where
  "SignedIntegerKey_Marshal v b keySize =
     do {
       b \<leftarrow> PutUint32 b v;
       Ret (b, 4, None)
     }"

definition IPv4AddressKey_Marshal :: "addr \<Rightarrow> slice \<Rightarrow> u64 \<Rightarrow> (slice \<times> nat \<times> gerr option) option" where
  "IPv4AddressKey_Marshal v b keySize =
     (if keySize \<noteq> 4 then Ret (b, 0, Some (ErrFormatNat ''invalid ipv4 key size'' (unat keySize)))
      else do {
        a \<leftarrow> As4 v;
        Ret (fst (scopy b a), 4, None)
      })"

definition IPv6AddressKey_Marshal :: "addr \<Rightarrow> slice \<Rightarrow> u64 \<Rightarrow> (slice \<times> nat \<times> gerr option) option" where
  "IPv6AddressKey_Marshal v b keySize =
     (if keySize \<noteq> 16 then Ret (b, 0, Some (ErrFormatNat ''invalid ipv6 key size'' (unat keySize)))
      else Ret (fst (scopy b (As16 v)), 16, None))"

definition StringKey_Marshal :: "byte list \<Rightarrow> slice \<Rightarrow> u64 \<Rightarrow> (slice \<times> nat \<times> gerr option) option" where
  "StringKey_Marshal v b keySize =
     do {
       (b, n, err) \<leftarrow> PutVarint b (of_nat (length v));
       if err \<noteq> None then Ret (b, n, err)
       else do {
         (b, m) \<leftarrow> copy_at b n v;
         Ret (b, n + m, None)
       }
     }"

definition BinaryKey_Marshal :: "byte list \<Rightarrow> slice \<Rightarrow> u64 \<Rightarrow> (slice \<times> nat \<times> gerr option) option" where
  "BinaryKey_Marshal v b keySize =
     do {
       t \<leftarrow> supto b (unat keySize);
       let (t, n) = scopy t v;
       Ret (splice b 0 t, n, None)
     }"

fun MapKey_Marshal :: "u64 \<Rightarrow> map_key \<Rightarrow> slice \<Rightarrow> (slice \<times> nat \<times> gerr option) option" where
  "MapKey_Marshal keySize (SignedIntegerKey v) b = SignedIntegerKey_Marshal v b keySize"
| "MapKey_Marshal keySize (IPv4AddressKey v) b = IPv4AddressKey_Marshal v b keySize"
| "MapKey_Marshal keySize (IPv6AddressKey v) b = IPv6AddressKey_Marshal v b keySize"
| "MapKey_Marshal keySize (StringKey v) b = StringKey_Marshal v b keySize"
| "MapKey_Marshal keySize (BinaryKey v) b = BinaryKey_Marshal v b keySize"

section \<open>Data values\<close>

definition FreqData_Unmarshal :: "freq \<Rightarrow> slice \<Rightarrow> (freq \<times> nat \<times> gerr option) option" where
  "FreqData_Unmarshal f b =
     (let offset = 0 in
      get_then Varint b offset (\<lambda>_ n e. Ret (f, n, Some e)) (\<lambda>currentTick n.
      let f = f\<lparr>CurrentTick := currentTick\<rparr>; offset = offset + n in
      get_then Varint b offset (\<lambda>_ n e. Ret (f, n, Some e)) (\<lambda>currentPeriod n.
      let f = f\<lparr>CurrentPeriod := currentPeriod\<rparr>; offset = offset + n in
      get_then Varint b offset (\<lambda>_ n e. Ret (f, n, Some e)) (\<lambda>lastPeriod n.
      let f = f\<lparr>LastPeriod := lastPeriod\<rparr>; offset = offset + n in
      Ret (f, offset, None)))))"

definition SignedIntegerData_Unmarshal :: "u32 \<Rightarrow> slice \<Rightarrow> (u32 \<times> nat \<times> gerr option) option" where
  "SignedIntegerData_Unmarshal v b =
     do {
       (value, n, err) \<leftarrow> Varint b;
       if err \<noteq> None then Ret (v, n, err) else Ret (ucast value, n, None)
     }"

definition UnsignedIntegerData_Unmarshal :: "u32 \<Rightarrow> slice \<Rightarrow> (u32 \<times> nat \<times> gerr option) option" where
  "UnsignedIntegerData_Unmarshal v b =
     do {
       (value, n, err) \<leftarrow> Varint b;
       if err \<noteq> None then Ret (v, n, err) else Ret (ucast value, n, None)
     }"

definition UnsignedLongLongData_Unmarshal :: "u64 \<Rightarrow> slice \<Rightarrow> (u64 \<times> nat \<times> gerr option) option" where
  "UnsignedLongLongData_Unmarshal v b =
     do {
       (value, n, err) \<leftarrow> Varint b;
       if err \<noteq> None then Ret (v, n, err) else Ret (value, n, None)
     }"

definition DictData_Unmarshal :: "dict \<Rightarrow> slice \<Rightarrow> (dict \<times> nat \<times> gerr option) option" where
  "DictData_Unmarshal f b =
     (let offset = 0 in
      get_then Varint b offset (\<lambda>_ n e. Ret (f, offset + n, Some e)) (\<lambda>len n.
      let offset = offset + n in
      if len = 0 then Ret (f, offset, None)
      else
      get_then Varint b offset (\<lambda>_ n e. Ret (f, offset + n, Some e)) (\<lambda>i n.
      let offset = offset + n; f = f\<lparr>ID := i\<rparr> in
      if len = 1 then Ret (f, offset, None)
      else
      get_then Varint b offset (\<lambda>_ n e. Ret (f, offset + n, Some e)) (\<lambda>valueLength n.
      let offset = offset + n in
      if valueLength = 0 then Ret (f, offset, None)
      else do {
        v \<leftarrow> smake (unat valueLength);
        t \<leftarrow> sfrom b offset;
        let (v, m) = scopy v (vis t);
        Ret (f\<lparr>Value := vis v\<rparr>, offset + m, None)
      }))))"

fun MapData_Unmarshal :: "map_data \<Rightarrow> slice \<Rightarrow> (map_data \<times> nat \<times> gerr option) option" where
  "MapData_Unmarshal (FreqData f) b =
     do { (f, n, err) \<leftarrow> FreqData_Unmarshal f b; Ret (FreqData f, n, err) }"
| "MapData_Unmarshal (SignedIntegerData v) b =
     do { (v, n, err) \<leftarrow> SignedIntegerData_Unmarshal v b; Ret (SignedIntegerData v, n, err) }"
| "MapData_Unmarshal (UnsignedIntegerData v) b =
     do { (v, n, err) \<leftarrow> UnsignedIntegerData_Unmarshal v b; Ret (UnsignedIntegerData v, n, err) }"
| "MapData_Unmarshal (UnsignedLongLongData v) b =
     do { (v, n, err) \<leftarrow> UnsignedLongLongData_Unmarshal v b; Ret (UnsignedLongLongData v, n, err) }"
| "MapData_Unmarshal (DictData f) b =
     do { (f, n, err) \<leftarrow> DictData_Unmarshal f b; Ret (DictData f, n, err) }"

definition FreqData_Marshal :: "freq \<Rightarrow> slice \<Rightarrow> (slice \<times> nat \<times> gerr option) option" where
  "FreqData_Marshal f b =
     (let offset = 0 in
      put_then (\<lambda>b. PutVarint b (CurrentTick f)) b offset (\<lambda>b offset.
      put_then (\<lambda>b. PutVarint b (CurrentPeriod f)) b offset (\<lambda>b offset.
      put_then (\<lambda>b. PutVarint b (LastPeriod f)) b offset (\<lambda>b offset.
      Ret (b, offset, None)))))"

definition SignedIntegerData_Marshal :: "u32 \<Rightarrow> slice \<Rightarrow> (slice \<times> nat \<times> gerr option) option" where
  "SignedIntegerData_Marshal v b = PutVarint b (scast v)"

definition UnsignedIntegerData_Marshal :: "u32 \<Rightarrow> slice \<Rightarrow> (slice \<times> nat \<times> gerr option) option" where
  "UnsignedIntegerData_Marshal v b = PutVarint b (ucast v)"

definition UnsignedLongLongData_Marshal :: "u64 \<Rightarrow> slice \<Rightarrow> (slice \<times> nat \<times> gerr option) option" where
  "UnsignedLongLongData_Marshal v b = PutVarint b v"

definition DictData_Marshal :: "dict \<Rightarrow> slice \<Rightarrow> (slice \<times> nat \<times> gerr option) option" where
  "DictData_Marshal f b =
     (let offset = 0 in
      put_then (\<lambda>b. PutVarint b (of_nat (length (Value f)))) b offset (\<lambda>b offset.
      put_then (\<lambda>b. PutVarint b (ID f)) b offset (\<lambda>b offset.
      if length (Value f) > 0 then
        put_then (\<lambda>b. PutVarint b (of_nat (length (Value f)))) b offset (\<lambda>b offset. do {
          (b, _) \<leftarrow> copy_at b offset (Value f);
          Ret (b, offset + length (Value f), None)
        })
      else Ret (b, offset, None))))"

fun MapData_Marshal :: "map_data \<Rightarrow> slice \<Rightarrow> (slice \<times> nat \<times> gerr option) option" where
  "MapData_Marshal (FreqData f) b = FreqData_Marshal f b"
| "MapData_Marshal (SignedIntegerData v) b = SignedIntegerData_Marshal v b"
| "MapData_Marshal (UnsignedIntegerData v) b = UnsignedIntegerData_Marshal v b"
| "MapData_Marshal (UnsignedLongLongData v) b = UnsignedLongLongData_Marshal v b"
| "MapData_Marshal (DictData f) b = DictData_Marshal f b"

section \<open>Encodings and round trips\<close>

definition freq_enc :: "freq \<Rightarrow> byte list" where
  "freq_enc f = varint_enc (CurrentTick f) @ varint_enc (CurrentPeriod f) @ varint_enc (LastPeriod f)"

lemma freq_putter: "strict_putter FreqData_Marshal freq_enc (\<lambda>_. True)"
proof (rule strict_putterI)
  fix f
  have "adds_strictly (\<lambda>b off. put_then (\<lambda>b. PutVarint b (CurrentTick f)) b off (\<lambda>b off.
      put_then (\<lambda>b. PutVarint b (CurrentPeriod f)) b off (\<lambda>b off.
      put_then (\<lambda>b. PutVarint b (LastPeriod f)) b off (\<lambda>b off. Ret (b, off, None))))) (freq_enc f @ [])"
    unfolding freq_enc_def append_assoc by (intro varint.adds_strictly_put TrueI adds_strictly_done)
  then show "adds_strictly (\<lambda>b off. put_then (\<lambda>b. PutVarint b (CurrentTick f)) b off (\<lambda>b off.
      put_then (\<lambda>b. PutVarint b (CurrentPeriod f)) b off (\<lambda>b off.
      put_then (\<lambda>b. PutVarint b (LastPeriod f)) b off (\<lambda>b off. Ret (b, off, None))))) (freq_enc f)" by simp
qed (simp add: FreqData_Marshal_def)

lemma FreqData_Unmarshal_rest:
  assumes r: "rest b 0 (freq_enc f @ t)"
  shows "FreqData_Unmarshal f0 b = Ret (f, length (freq_enc f), None)"
proof -
  from r have r: "rest b 0 (varint_enc (CurrentTick f) @ varint_enc (CurrentPeriod f) @ varint_enc (LastPeriod f) @ t)"
    by (simp add: freq_enc_def)
  note r1 = rest_append [OF r] and r2 = rest_append [OF rest_append [OF r]]
  show ?thesis unfolding FreqData_Unmarshal_def Let_def
    by (simp add: varint.get_then_enc [OF r] varint.get_then_enc [OF r1 [simplified]]
        varint.get_then_enc [OF r2 [simplified]] freq_enc_def)
qed

interpretation freq: strict_codec FreqData_Marshal "FreqData_Unmarshal f0" freq_enc "\<lambda>_. True" for f0
  by (intro strict_codec.intro codec.intro codec_axioms.intro freq_putter
      freq_putter [unfolded strict_putter_def, THEN conjunct1] FreqData_Unmarshal_rest [OF rest_0])

text \<open>A dictionary entry; what \<open>Marshal\<close> writes, and what \<open>Unmarshal\<close> can read back of it.\<close>

definition dict_enc :: "dict \<Rightarrow> byte list" where
  "dict_enc f = varint_enc (of_nat (length (Value f))) @ varint_enc (ID f) @
     (if Value f = [] then [] else varint_enc (of_nat (length (Value f))) @ Value f)"

definition dict_ok :: "dict \<Rightarrow> bool" where
  "dict_ok f \<longleftrightarrow> 2 \<le> length (Value f) \<and> length (Value f) \<le> max_alloc"

lemma dict_putter: "putter DictData_Marshal dict_enc (\<lambda>_. True)"
proof (rule putterI)
  fix f :: dict
  let ?len = "\<lambda>b. PutVarint b (of_nat (length (Value f)))"
  let ?tail = "\<lambda>b off. do { (b, _) \<leftarrow> copy_at b off (Value f); Ret (b, off + length (Value f), None :: gerr option) }"
  let ?opt = "\<lambda>b off. if length (Value f) > 0 then put_then ?len b off ?tail else Ret (b, off, None)"
  have "adds ?tail (Value f)" by (simp add: adds_def copy_at_fits)
  then have "adds (\<lambda>b off. put_then ?len b off ?tail) (varint_enc (of_nat (length (Value f))) @ Value f)"
    by (intro varint.adds_put TrueI)
  then have "adds ?opt (if Value f = [] then [] else varint_enc (of_nat (length (Value f))) @ Value f)"
    by (cases "Value f = []") simp_all
  then show "adds (\<lambda>b off. put_then ?len b off (\<lambda>b off. put_then (\<lambda>b. PutVarint b (ID f)) b off ?opt)) (dict_enc f)"
    unfolding dict_enc_def by (intro varint.adds_put TrueI)
qed (simp add: DictData_Marshal_def)

lemma DictData_Unmarshal_rest:
  assumes r: "rest b 0 (dict_enc f @ t)" and f: "dict_ok f"
  shows "DictData_Unmarshal f0 b = Ret (f, length (dict_enc f), None)"
proof -
  let ?l = "of_nat (length (Value f)) :: u64"
  from f have ne: "Value f \<noteq> []" by (auto simp: dict_ok_def)
  from f have l: "unat ?l = length (Value f)" "length (Value f) \<le> max_alloc"
    by (auto simp: dict_ok_def unat_len len_ok_def max_alloc_def)
  with f have nz: "?l \<noteq> 0" "?l \<noteq> 1" by (auto simp: dict_ok_def)
  from r ne have r: "rest b 0 (varint_enc ?l @ varint_enc (ID f) @ varint_enc ?l @ Value f @ t)"
    by (simp add: dict_enc_def)
  note r1 = rest_append [OF r] and r2 = rest_append [OF rest_append [OF r]]
    and r3 = rest_append [OF rest_append [OF rest_append [OF r]]]
  have copy: "scopy (Slice (replicate (length (Value f)) 0) []) (Value f @ t) = (Slice (Value f) [], length (Value f))"
    by (simp add: scopy_def)
  show ?thesis unfolding DictData_Unmarshal_def Let_def
    by (simp add: varint.get_then_enc [OF r] varint.get_then_enc [OF r1 [simplified]] nz l smake_def copy
        varint.get_then_enc [OF r2 [simplified]] rest_sfrom [OF r3 [simplified]] dict_enc_def ne)
qed

interpretation dict: codec DictData_Marshal "DictData_Unmarshal f0" dict_enc dict_ok for f0
proof (intro codec.intro codec_axioms.intro)
  show "putter DictData_Marshal dict_enc dict_ok"
    using dict_putter by (simp add: putter_def)
qed (rule DictData_Unmarshal_rest [OF rest_0])

text \<open>Every data value.\<close>

fun data_enc :: "map_data \<Rightarrow> byte list" where
  "data_enc (FreqData f) = freq_enc f"
| "data_enc (SignedIntegerData v) = varint_enc (scast v)"
| "data_enc (UnsignedIntegerData v) = varint_enc (ucast v)"
| "data_enc (UnsignedLongLongData v) = varint_enc v"
| "data_enc (DictData f) = dict_enc f"

fun data_ok :: "map_data \<Rightarrow> bool" where
  "data_ok (DictData f) = dict_ok f"
| "data_ok _ = True"

text \<open>\<open>zero_data x\<close>: the fresh value into which a value like \<open>x\<close> is decoded.\<close>

fun zero_data :: "map_data \<Rightarrow> map_data" where
  "zero_data (FreqData f) = FreqData zero_freq"
| "zero_data (SignedIntegerData v) = SignedIntegerData 0"
| "zero_data (UnsignedIntegerData v) = UnsignedIntegerData 0"
| "zero_data (UnsignedLongLongData v) = UnsignedLongLongData 0"
| "zero_data (DictData f) = DictData zero_dict"

lemma ucast_scast_32 [simp]: "ucast (scast (v :: u32) :: u64) = v"
  by (rule bit_word_eqI) (simp add: bit_ucast_iff bit_signed_iff)

lemma ucast_ucast_32 [simp]: "ucast (ucast (v :: u32) :: u64) = v"
  by (rule bit_word_eqI) (simp add: bit_ucast_iff)

interpretation mapdata: putter MapData_Marshal data_enc "\<lambda>_. True"
proof
  fix x and ys s :: "byte list"
  assume le: "length (data_enc x) \<le> length ys"
  show "MapData_Marshal x (Slice ys s) =
      Ret (Slice (data_enc x @ drop (length (data_enc x)) ys) s, length (data_enc x), None)"
    using le freq.put_fits putter.put_fits [OF dict_putter] PutVarint_fits
    by (cases x) (auto simp: SignedIntegerData_Marshal_def UnsignedIntegerData_Marshal_def
        UnsignedLongLongData_Marshal_def)
qed

interpretation data: codec MapData_Marshal "MapData_Unmarshal z" data_enc "\<lambda>x. data_ok x \<and> z = zero_data x" for z
proof
  fix x and ys s t :: "byte list"
  assume x: "data_ok x \<and> z = zero_data x"
  then show "length (data_enc x) \<le> length ys \<Longrightarrow> MapData_Marshal x (Slice ys s) =
      Ret (Slice (data_enc x @ drop (length (data_enc x)) ys) s, length (data_enc x), None)"
    by (simp add: mapdata.put_fits)
  from x show "MapData_Unmarshal z (Slice (data_enc x @ t) s) = Ret (x, length (data_enc x), None)"
    by (cases x) (simp_all add: freq.get_enc dict.get_enc Varint_enc SignedIntegerData_Unmarshal_def
        UnsignedIntegerData_Unmarshal_def UnsignedLongLongData_Unmarshal_def)
qed

text \<open>Every key; \<open>ks\<close> is the key length of the table.\<close>

fun key_enc :: "map_key \<Rightarrow> byte list" where
  "key_enc (SignedIntegerKey v) = be32 v"
| "key_enc (IPv4AddressKey a) = AsSlice a"
| "key_enc (IPv6AddressKey a) = AsSlice a"
| "key_enc (StringKey v) = bytes_enc v"
| "key_enc (BinaryKey v) = v"

fun key_ok :: "u64 \<Rightarrow> map_key \<Rightarrow> bool" where
  "key_ok ks (SignedIntegerKey v) = True"
| "key_ok ks (IPv4AddressKey a) = (ks = 4 \<and> wf_addr a \<and> Is4 a)"
| "key_ok ks (IPv6AddressKey a) = (ks = 16 \<and> wf_addr a \<and> Is6 a \<and> drop_zone a = a)"
| "key_ok ks (StringKey v) = (length v < 2 ^ 62)"
| "key_ok ks (BinaryKey v) = (length v = unat ks)"

fun zero_key :: "map_key \<Rightarrow> map_key" where
  "zero_key (SignedIntegerKey v) = SignedIntegerKey 0"
| "zero_key (IPv4AddressKey a) = IPv4AddressKey NoAddr"
| "zero_key (IPv6AddressKey a) = IPv6AddressKey NoAddr"
| "zero_key (StringKey v) = StringKey []"
| "zero_key (BinaryKey v) = BinaryKey []"

lemma StringKey_Marshal_fits:
  assumes "length (bytes_enc v) \<le> length ys"
  shows "StringKey_Marshal v (Slice ys s) ks =
    Ret (Slice (bytes_enc v @ drop (length (bytes_enc v)) ys) s, length (bytes_enc v), None)"
proof -
  let ?e = "varint_enc (of_nat (length v))"
  from assms have le: "length ?e \<le> length ys" "length v \<le> length (drop (length ?e) ys)"
    by (simp_all add: bytes_enc_def)
  have "copy_at (Slice (?e @ drop (length ?e) ys) s) (length ?e) v =
      Ret (Slice (?e @ v @ drop (length ?e + length v) ys) s, length v)"
    by (subst copy_at_fits [OF le(2)]) (simp add: add.commute)
  then show ?thesis by (simp add: StringKey_Marshal_def bytes_enc_def PutVarint_fits [OF le(1)])
qed

text \<open>Keys that do not fit, or are shorter than the table's key size, are cut without an error.\<close>

lemma string_key_cut:
  assumes "length (varint_enc (of_nat (length v))) \<le> length ys" and "length ys \<le> length (bytes_enc v)"
  shows "StringKey_Marshal v (Slice ys s) ks = Ret (Slice (take (length ys) (bytes_enc v)) s, length ys, None)"
proof -
  let ?e = "varint_enc (of_nat (length v))"
  have "copy_at (Slice (?e @ drop (length ?e) ys) s) (length ?e) v =
      Ret (Slice (?e @ take (length ys - length ?e) v) s, length ys - length ?e)"
    using assms by (simp add: copy_at_def sfrom_def sbetween_def scap_def scopy_def splice_def bytes_enc_def Let_def)
  then show ?thesis
    using assms by (simp add: StringKey_Marshal_def bytes_enc_def PutVarint_fits [OF assms(1)])
qed

lemma binary_key_short:
  assumes "length v < unat ks" and "unat ks \<le> length ys"
  shows "BinaryKey_Marshal v (Slice ys s) ks = Ret (Slice (v @ drop (length v) ys) s, length v, None)"
proof -
  let ?k = "unat ks"
  have "drop (length v) (take ?k ys) @ drop ?k ys = drop (length v) (take ?k ys @ drop ?k ys)"
    using assms by (simp only: drop_append length_take) simp
  then have "drop (length v) (take ?k ys) @ drop ?k ys = drop (length v) ys" by simp
  with assms show ?thesis
    by (simp add: BinaryKey_Marshal_def supto_def sbetween_def scap_def scopy_def splice_def Let_def)
qed

lemma StringKey_Unmarshal_enc:
  assumes "length v < 2 ^ 62"
  shows "StringKey_Unmarshal [] (Slice (bytes_enc v @ t) s) ks = Ret (v, length (bytes_enc v), None)"
proof -
  let ?l = "of_nat (length v) :: u64" and ?e = "varint_enc (of_nat (length v))"
  have "signed_take_bit 63 (int (length v)) = int (length v)"
    using assms by (intro signed_take_bit_int_eq_self) simp_all
  then have l: "sint ?l = int (length v)" by (simp add: signed_of_nat)
  have "length ?e \<le> 10" by (rule length_varint_enc_le)
  with assms have small: "int (length ?e) + int (length v) < 2 ^ 63" by simp
  have z: "v \<noteq> [] \<Longrightarrow> ?l \<noteq> 0" using l by force
  show ?thesis
  proof (cases "v = []")
    case False
    with small z show ?thesis
      by (simp add: StringKey_Unmarshal_def bytes_enc_def Varint_enc l sbetween_def scap_def not_le)
  qed (simp add: StringKey_Unmarshal_def bytes_enc_def Varint_enc)
qed

lemma MapKey_Marshal_fits:
  assumes "key_ok ks x" and "length (key_enc x) \<le> length ys"
  shows "MapKey_Marshal ks x (Slice ys s) =
    Ret (Slice (key_enc x @ drop (length (key_enc x)) ys) s, length (key_enc x), None)"
proof (cases x)
  case (SignedIntegerKey v)
  with assms show ?thesis by (simp add: SignedIntegerKey_Marshal_def PutUint32_def)
next
  case (IPv4AddressKey a)
  with assms show ?thesis by (cases a) (simp_all add: IPv4AddressKey_Marshal_def scopy_def Let_def min_def)
next
  case (IPv6AddressKey a)
  with assms show ?thesis by (cases a) (simp_all add: IPv6AddressKey_Marshal_def scopy_def Let_def min_def)
next
  case (StringKey v)
  with assms show ?thesis by (simp add: StringKey_Marshal_fits)
next
  case (BinaryKey v)
  with assms show ?thesis
    by (simp add: BinaryKey_Marshal_def supto_def sbetween_def scap_def scopy_def splice_def Let_def)
qed

interpretation key: codec "MapKey_Marshal ks" "\<lambda>b. MapKey_Unmarshal z b ks" key_enc
  "\<lambda>x. key_ok ks x \<and> z = zero_key x" for z ks
proof
  fix x and ys s t :: "byte list"
  assume x: "key_ok ks x \<and> z = zero_key x"
  then show "length (key_enc x) \<le> length ys \<Longrightarrow> MapKey_Marshal ks x (Slice ys s) =
      Ret (Slice (key_enc x @ drop (length (key_enc x)) ys) s, length (key_enc x), None)"
    by (simp add: MapKey_Marshal_fits)
  show "MapKey_Unmarshal z (Slice (key_enc x @ t) s) ks = Ret (x, length (key_enc x), None)"
  proof (cases x)
    case (SignedIntegerKey v)
    with x show ?thesis by (simp add: SignedIntegerKey_Unmarshal_def)
  next
    case (IPv4AddressKey a)
    with x show ?thesis by (cases a) (simp_all add: IPv4AddressKey_Unmarshal_def as_array_def)
  next
    case (IPv6AddressKey a)
    with x show ?thesis by (cases a) (simp_all add: IPv6AddressKey_Unmarshal_def as_array_def)
  next
    case (StringKey v)
    with x show ?thesis by (simp add: StringKey_Unmarshal_enc)
  next
    case (BinaryKey v)
    with x supto_append [of v t s] show ?thesis by (simp add: BinaryKey_Unmarshal_def)
  qed
qed

interpretation mapkey: putter "MapKey_Marshal ks" key_enc "key_ok ks" for ks
  by unfold_locales (rule MapKey_Marshal_fits)

section \<open>Dictionary entries that are lost\<close>

text \<open>A dictionary entry with a value of fewer than two bytes does not survive: \<open>Marshal\<close>
  writes the length of the value first, which \<open>Unmarshal\<close> takes for the number of elements of
  the entry. The value is lost, an empty one with its id, and the bytes left over are read as the
  next data value.\<close>

lemma short_dict_lost:
  assumes "length (Value f) < 2"
  shows "\<exists>f' n. DictData_Unmarshal zero_dict (Slice (dict_enc f @ t) s) = Ret (f', n, None) \<and>
    Value f' = [] \<and> (Value f = [] \<longrightarrow> ID f' = 0) \<and> n < length (dict_enc f)"
proof (cases "Value f")
  case Nil
  then show ?thesis
    by (simp add: DictData_Unmarshal_def Let_def dict_enc_def get_then_def varint.get_enc)
next
  case (Cons x xs)
  with assms have v: "Value f = [x]" by simp
  let ?b = "Slice (dict_enc f @ t) s"
  have r: "rest ?b 0 (varint_enc 1 @ varint_enc (ID f) @ varint_enc 1 @ [x] @ t)"
    by (simp add: dict_enc_def v rest_def)
  note r1 = rest_append [OF r]
  show ?thesis unfolding DictData_Unmarshal_def Let_def
    by (simp add: varint.get_then_enc [OF r] varint.get_then_enc [OF r1 [simplified]])
      (simp add: dict_enc_def v)
qed

lemma short_dict_lost_witness:
  "\<exists>f' n. DictData_Unmarshal zero_dict
     (Slice (dict_enc \<lparr>Value = [65], ID = 7\<rparr> @ [1, 2]) []) = Ret (f', n, None) \<and> Value f' = [] \<and>
    n < length (dict_enc \<lparr>Value = [65], ID = 7\<rparr>)"
  using short_dict_lost [of "\<lparr>Value = [65], ID = 7\<rparr>" "[1, 2]" "[]"] by auto

end
