(* ===== verification/StickTables.thy ===== *)
theory StickTables
  imports StickValues
begin

text \<open>
  Stick-table definitions and entry updates (peers/sticktable/sticktables.go), their
  marshalling and unmarshalling, round trips and what a decoded message always satisfies.
\<close>

section \<open>Definitions\<close>

record data_def =
  dd_DataType :: data_type
  dd_Counter :: u64
  dd_Period :: u64

record table_def =
  td_Name :: "byte list"
  td_DataTypes :: "data_def list"
  td_KeyType :: key_type
  td_StickTableID :: u64
  td_KeyLength :: u64
  td_Expiry :: u64

definition zero_def :: table_def where
  "zero_def = \<lparr>td_Name = [], td_DataTypes = [], td_KeyType = 0, td_StickTableID = 0, td_KeyLength = 0,
     td_Expiry = 0\<rparr>"

text \<open>The loop over the bits of the mask of data types, for the indices in \<open>is\<close>.\<close>

fun data_types_loop ::
  "slice \<Rightarrow> u64 \<Rightarrow> nat list \<Rightarrow> table_def \<Rightarrow> nat \<Rightarrow> (table_def \<times> nat \<times> gerr option) option" where
  "data_types_loop b dataTypes [] s offset = Ret (s, offset, None)"
| "data_types_loop b dataTypes (i # is) s offset =
     (if drop_bit i dataTypes AND 1 = 1 then
        let d = \<lparr>dd_DataType = of_nat i, dd_Counter = 0, dd_Period = 0\<rparr> in
        (case DataType_New (dd_DataType d) of
           None \<Rightarrow> Ret (s, offset, Some (ErrFormat (''unknown data type: '' @ DataType_String (dd_DataType d))))
         | Some _ \<Rightarrow>
             if IsDelay (dd_DataType d) then
               get_then Varint b offset (\<lambda>_ n e. Ret (s, offset + n, Some e)) (\<lambda>counter n.
               let offset = offset + n; d = d\<lparr>dd_Counter := counter\<rparr> in
               get_then Varint b offset (\<lambda>_ n e. Ret (s, offset + n, Some e)) (\<lambda>period n.
               let offset = offset + n; d = d\<lparr>dd_Period := period\<rparr> in
               data_types_loop b dataTypes is (s\<lparr>td_DataTypes := td_DataTypes s @ [d]\<rparr>) offset))
             else data_types_loop b dataTypes is (s\<lparr>td_DataTypes := td_DataTypes s @ [d]\<rparr>) offset)
      else data_types_loop b dataTypes is s offset)"

definition Definition_Unmarshal :: "table_def \<Rightarrow> slice \<Rightarrow> (table_def \<times> nat \<times> gerr option) option" where
  "Definition_Unmarshal s b =
     (let offset = 0 in
      get_then Varint b offset (\<lambda>_ n e. Ret (s, offset + n, Some e)) (\<lambda>stickTableID n.
      let offset = offset + n; s = s\<lparr>td_StickTableID := stickTableID\<rparr> in
      get_then Varint b offset (\<lambda>_ n e. Ret (s, offset + n, Some e)) (\<lambda>nameLength n.
      let offset = offset + n in
      do {
        name \<leftarrow> smake (unat nameLength);
        t \<leftarrow> sfrom b offset;
        let (name, n) = scopy name (vis t);
        let offset = offset + n;
        let s = s\<lparr>td_Name := vis name\<rparr>;
        get_then Varint b offset (\<lambda>_ n e. Ret (s, offset + n, Some e)) (\<lambda>keyType n.
        let offset = offset + n; s = s\<lparr>td_KeyType := keyType\<rparr> in
        get_then Varint b offset (\<lambda>_ n e. Ret (s, offset + n, Some e)) (\<lambda>keyLength n.
        let offset = offset + n; s = s\<lparr>td_KeyLength := keyLength\<rparr> in
        get_then Varint b offset (\<lambda>_ n e. Ret (s, offset + n, Some e)) (\<lambda>dataTypes n.
        let offset = offset + n in
        get_then Varint b offset (\<lambda>_ n e. Ret (s, offset + n, Some e)) (\<lambda>expiry n.
        let offset = offset + n; s = s\<lparr>td_Expiry := expiry\<rparr> in
        data_types_loop b dataTypes [0..<64] s offset))))
      })))"

text \<open>\<open>1 << d\<close> panics for a negative \<open>d\<close>.\<close>

fun mask_loop :: "data_def list \<Rightarrow> u64 \<Rightarrow> u64 option" where
  "mask_loop [] dataTypes = Ret dataTypes"
| "mask_loop (d # ds) dataTypes =
     (if sint (dd_DataType d) < 0 then Panic
      else mask_loop ds (dataTypes OR push_bit (unat (dd_DataType d)) 1))"

fun counters_loop :: "data_def list \<Rightarrow> slice \<Rightarrow> nat \<Rightarrow> (slice \<times> nat \<times> gerr option) option" where
  "counters_loop [] b offset = Ret (b, offset, None)"
| "counters_loop (d # ds) b offset =
     (if IsDelay (dd_DataType d) then
        put_then (\<lambda>b. PutVarint b (dd_Counter d)) b offset (\<lambda>b offset.
        put_then (\<lambda>b. PutVarint b (dd_Period d)) b offset (counters_loop ds))
      else counters_loop ds b offset)"

definition Definition_Marshal :: "table_def \<Rightarrow> slice \<Rightarrow> (slice \<times> nat \<times> gerr option) option" where
  "Definition_Marshal s b =
     (let offset = 0 in
      put_then (\<lambda>b. PutVarint b (td_StickTableID s)) b offset (\<lambda>b offset.
      put_then (\<lambda>b. PutVarint b (of_nat (length (td_Name s)))) b offset (\<lambda>b offset. do {
        (b, n) \<leftarrow> copy_at b offset (td_Name s);
        let offset = offset + n;
        put_then (\<lambda>b. PutVarint b (td_KeyType s)) b offset (\<lambda>b offset.
        put_then (\<lambda>b. PutVarint b (td_KeyLength s)) b offset (\<lambda>b offset. do {
          dataTypes \<leftarrow> mask_loop (td_DataTypes s) 0;
          put_then (\<lambda>b. PutVarint b dataTypes) b offset (\<lambda>b offset.
          put_then (\<lambda>b. PutVarint b (td_Expiry s)) b offset
            (counters_loop (td_DataTypes s)))
        }))
      })))"

section \<open>Entry updates\<close>

record entry_update =
  eu_StickTable :: table_def
  eu_Key :: "map_key option"
  eu_Data :: "map_data list"
  eu_WithLocalUpdateID :: bool
  eu_LocalUpdateID :: u32
  eu_WithExpiry :: bool
  eu_Expiry :: u32

text \<open>\<open>binary.BigEndian.PutUint32(b[offset:], v); offset += 4\<close> and its counterpart.\<close>

definition put32_then ::
  "u32 \<Rightarrow> slice \<Rightarrow> nat \<Rightarrow> (slice \<Rightarrow> nat \<Rightarrow> (slice \<times> nat \<times> gerr option) option) \<Rightarrow>
   (slice \<times> nat \<times> gerr option) option" where
  "put32_then v b off k =
     do {
       t \<leftarrow> sfrom b off;
       t \<leftarrow> PutUint32 t v;
       k (splice b off t) (off + 4)
     }"

definition put32_if ::
  "bool \<Rightarrow> u32 \<Rightarrow> slice \<Rightarrow> nat \<Rightarrow> (slice \<Rightarrow> nat \<Rightarrow> (slice \<times> nat \<times> gerr option) option) \<Rightarrow>
   (slice \<times> nat \<times> gerr option) option" where
  "put32_if c v b off k = (if c then put32_then v b off k else k b off)"

definition EntryUpdate_Marshal :: "entry_update \<Rightarrow> slice \<Rightarrow> (slice \<times> nat \<times> gerr option) option" where
  "EntryUpdate_Marshal e b =
     (let offset = 0 in
      put32_if (eu_WithLocalUpdateID e) (eu_LocalUpdateID e) b offset (\<lambda>b offset.
      put32_if (eu_WithExpiry e) (eu_Expiry e) b offset (\<lambda>b offset.
      case eu_Key e of
        None \<Rightarrow> Panic
      | Some key \<Rightarrow>
          put_then (MapKey_Marshal (td_KeyLength (eu_StickTable e)) key) b offset (\<lambda>b offset.
          put_all MapData_Marshal (eu_Data e) b offset))))"

definition get32_if :: "bool \<Rightarrow> slice \<Rightarrow> nat \<Rightarrow> u32 \<Rightarrow> (u32 \<times> nat) option" where
  "get32_if c b offset old =
     (if c then do {
        t \<leftarrow> sfrom b offset;
        v \<leftarrow> Uint32 t;
        Ret (v, offset + 4)
      } else Ret (old, offset))"

fun entry_data_loop ::
  "data_def list \<Rightarrow> slice \<Rightarrow> entry_update \<Rightarrow> nat \<Rightarrow> (entry_update \<times> nat \<times> gerr option) option" where
  "entry_data_loop [] b e offset = Ret (e, offset, None)"
| "entry_data_loop (dataType # ds) b e offset =
     (case DataType_New (dd_DataType dataType) of
        None \<Rightarrow> Ret (e, offset, Some (ErrFormat ''unknown data type''))
      | Some data \<Rightarrow>
          get_then (MapData_Unmarshal data) b offset (\<lambda>_ n err. Ret (e, offset, Some err)) (\<lambda>data n.
          entry_data_loop ds b (e\<lparr>eu_Data := eu_Data e @ [data]\<rparr>) (offset + n)))"

text \<open>\<open>KeyType.New\<close> never returns \<open>nil\<close>, so the check of its result has no branch here.\<close>

definition EntryUpdate_Unmarshal :: "entry_update \<Rightarrow> slice \<Rightarrow> (entry_update \<times> nat \<times> gerr option) option" where
  "EntryUpdate_Unmarshal e b =
     (let offset = 0 in
      do {
        (v, offset) \<leftarrow> get32_if (eu_WithLocalUpdateID e) b offset (eu_LocalUpdateID e);
        let e = e\<lparr>eu_LocalUpdateID := v\<rparr>;
        (v, offset) \<leftarrow> get32_if (eu_WithExpiry e) b offset (eu_Expiry e);
        let e = e\<lparr>eu_Expiry := v\<rparr>;
        key \<leftarrow> KeyType_New (td_KeyType (eu_StickTable e));
        get_then (\<lambda>t. MapKey_Unmarshal key t (td_KeyLength (eu_StickTable e))) b offset
          (\<lambda>key n err. Ret (e\<lparr>eu_Key := Some key\<rparr>, offset, Some err))
          (\<lambda>key n. entry_data_loop (td_DataTypes (eu_StickTable e)) b (e\<lparr>eu_Key := Some key\<rparr>) (offset + n))
      })"

section \<open>Well-formed definitions and their encoding\<close>

text \<open>
  The data types are known ones in ascending order, without duplicates; only the rates carry a
  counter and a period. These are the definitions the wire format can express.
\<close>

definition data_def_ok :: "data_def \<Rightarrow> bool" where
  "data_def_ok d \<longleftrightarrow> dd_DataType d < 27 \<and> (IsDelay (dd_DataType d) \<or> dd_Counter d = 0 \<and> dd_Period d = 0)"

definition data_defs_ok :: "data_def list \<Rightarrow> bool" where
  "data_defs_ok ds \<longleftrightarrow> sorted_wrt (<) (map dd_DataType ds) \<and> (\<forall>d \<in> set ds. data_def_ok d)"

definition def_ok :: "table_def \<Rightarrow> bool" where
  "def_ok s \<longleftrightarrow> data_defs_ok (td_DataTypes s) \<and> length (td_Name s) \<le> max_alloc"

definition data_mask :: "data_def list \<Rightarrow> u64" where
  "data_mask ds = the (mask_loop ds 0)"

definition counters_enc :: "data_def list \<Rightarrow> byte list" where
  "counters_enc ds = concat (map (\<lambda>d. if IsDelay (dd_DataType d)
     then varint_enc (dd_Counter d) @ varint_enc (dd_Period d) else []) ds)"

definition def_enc :: "table_def \<Rightarrow> byte list" where
  "def_enc s = varint_enc (td_StickTableID s) @ varint_enc (of_nat (length (td_Name s))) @ td_Name s @
     varint_enc (td_KeyType s) @ varint_enc (td_KeyLength s) @ varint_enc (data_mask (td_DataTypes s)) @
     varint_enc (td_Expiry s) @ counters_enc (td_DataTypes s)"

lemma counters_enc_simps [simp]:
  "counters_enc [] = []"
  "counters_enc (d # ds) = (if IsDelay (dd_DataType d)
     then varint_enc (dd_Counter d) @ varint_enc (dd_Period d) else []) @ counters_enc ds"
  by (simp_all add: counters_enc_def)

lemma counters_loop_adds: "adds_strictly (counters_loop ds) (counters_enc ds)"
proof (induction ds)
  case (Cons d ds)
  have eq: "counters_loop (d # ds) = (\<lambda>b offset. if IsDelay (dd_DataType d) then
      put_then (\<lambda>b. PutVarint b (dd_Counter d)) b offset (\<lambda>b offset.
      put_then (\<lambda>b. PutVarint b (dd_Period d)) b offset (counters_loop ds))
      else counters_loop ds b offset)" by (intro ext) simp
  show ?case
  proof (cases "IsDelay (dd_DataType d)")
    case True
    have "adds_strictly (\<lambda>b offset. put_then (\<lambda>b. PutVarint b (dd_Counter d)) b offset (\<lambda>b offset.
        put_then (\<lambda>b. PutVarint b (dd_Period d)) b offset (counters_loop ds)))
        (varint_enc (dd_Counter d) @ varint_enc (dd_Period d) @ counters_enc ds)"
      by (intro varint.adds_strictly_put TrueI Cons)
    with True show ?thesis by (simp add: eq)
  next
    case False
    with Cons show ?thesis by (simp add: eq)
  qed
next
  case Nil
  have "counters_loop [] = (\<lambda>b offset. Ret (b, offset, None))" by (intro ext) simp
  then show ?case by simp
qed

text \<open>The mask has exactly the bits of the data types.\<close>

lemma mask_loop_bits:
  assumes "\<forall>d \<in> set ds. dd_DataType d < 27"
  shows "\<exists>m'. mask_loop ds m = Ret m' \<and>
    (\<forall>i < 64. bit m' i \<longleftrightarrow> bit m i \<or> of_nat i \<in> dd_DataType ` set ds)"
  using assms
proof (induction ds arbitrary: m)
  case (Cons d ds)
  let ?d = "dd_DataType d"
  from Cons.prems have d: "?d < 27" by simp
  then have n: "unat ?d < 27" by (simp add: word_less_nat_alt)
  have "0 \<le> sint ?d"
  proof -
    have "?d \<in> set (map of_nat [0..<27])" by (rule small_word_cases [OF d])
    then show ?thesis by (auto simp: upt_rec)
  qed
  moreover from Cons.IH Cons.prems obtain m' where "mask_loop ds (m OR push_bit (unat ?d) 1) = Ret m'"
    "\<forall>i < 64. bit m' i \<longleftrightarrow> bit (m OR push_bit (unat ?d) 1) i \<or> of_nat i \<in> dd_DataType ` set ds"
    by (metis list.set_intros(2))
  moreover have "bit (push_bit (unat ?d) 1 :: u64) i \<longleftrightarrow> of_nat i = ?d" if "i < 64" for i
  proof -
    have "bit (push_bit (unat ?d) 1 :: u64) i \<longleftrightarrow> i = unat ?d"
      using that n by (simp add: push_bit_eq_mult bit_exp_iff)
    also have "\<dots> \<longleftrightarrow> of_nat i = ?d"
    proof -
      have "unat (of_nat i :: u64) = i" using that by (simp add: unat_of_nat take_bit_nat_eq_self)
      then show ?thesis by (metis word_unat_eq_iff)
    qed
    finally show ?thesis .
  qed
  ultimately show ?case by (auto simp: bit_or_iff)
qed simp

lemma data_mask:
  assumes "\<forall>d \<in> set ds. dd_DataType d < 27"
  shows "mask_loop ds 0 = Ret (data_mask ds)"
    and "i < 64 \<Longrightarrow> bit (data_mask ds) i \<longleftrightarrow> of_nat i \<in> dd_DataType ` set ds"
  using mask_loop_bits [OF assms, of 0] by (auto simp: data_mask_def)

lemma unat_of_nat_64: "i < 64 \<Longrightarrow> unat (of_nat i :: u64) = i"
  by (simp add: unat_of_nat take_bit_nat_eq_self)

text \<open>So the loop over its bits meets them in their order.\<close>

lemma data_mask_types:
  assumes "data_defs_ok ds"
  shows "map dd_DataType ds = map of_nat (filter (bit (data_mask ds)) [0..<64])"
proof -
  have known: "\<forall>d \<in> set ds. dd_DataType d < 27" using assms by (simp add: data_defs_ok_def data_def_ok_def)
  let ?xs = "map (unat \<circ> dd_DataType) ds" and ?ys = "filter (bit (data_mask ds)) [0..<64]"
  have "i \<in> set ?xs \<longleftrightarrow> i < 64 \<and> bit (data_mask ds) i" for i
  proof
    assume "i \<in> set ?xs"
    then obtain d where d: "d \<in> set ds" "i = unat (dd_DataType d)" by auto
    with known have "i < 27" by (auto simp: word_less_nat_alt)
    with d show "i < 64 \<and> bit (data_mask ds) i" by (simp add: data_mask(2) [OF known])
  next
    assume "i < 64 \<and> bit (data_mask ds) i"
    then show "i \<in> set ?xs" by (force simp: data_mask(2) [OF known] dest: unat_of_nat_64)
  qed
  then have "set ?xs = set ?ys" by auto
  moreover have "sorted_wrt (<) ?xs"
    using assms by (auto simp: data_defs_ok_def sorted_wrt_map word_less_nat_alt)
  moreover have "sorted_wrt (<) ?ys" by (intro sorted_wrt_filter) simp
  ultimately have "?xs = ?ys" by (metis strict_sorted_equal)
  then have "map of_nat ?xs = map (of_nat :: nat \<Rightarrow> u64) ?ys" by simp
  then show ?thesis by (simp add: comp_def)
qed

lemma drop_bit_odd: "drop_bit i (m :: u64) AND 1 = 1 \<longleftrightarrow> bit m i"
  by (simp add: and_one_eq bit_iff_odd_drop_bit odd_iff_mod_2_eq_one)

text \<open>Decoding the data types of a well-formed definition, and what a decoded list satisfies.\<close>

lemma data_types_loop_enc:
  assumes "map dd_DataType ds = map of_nat (filter (bit m) is)" and "\<forall>d \<in> set ds. data_def_ok d"
    and "rest b off (counters_enc ds @ t)"
  shows "data_types_loop b m is s off =
    Ret (s\<lparr>td_DataTypes := td_DataTypes s @ ds\<rparr>, off + length (counters_enc ds), None)"
  using assms
proof (induction "is" arbitrary: ds s off)
  case (Cons i "is")
  show ?case
  proof (cases "bit m i")
    case True
    with Cons.prems(1) obtain d ds' where ds: "ds = d # ds'" and d: "dd_DataType d = of_nat i"
      and ds': "map dd_DataType ds' = map of_nat (filter (bit m) is)" by auto
    from Cons.prems(2) ds have ok: "data_def_ok d" and ok': "\<forall>d \<in> set ds'. data_def_ok d" by auto
    from ok d obtain x where new: "DataType_New (of_nat i) = Some x"
      using DataType_New_known [of "of_nat i"] by (auto simp: data_def_ok_def)
    show ?thesis
    proof (cases "IsDelay (of_nat i)")
      case delay: True
      let ?c = "varint_enc (dd_Counter d)" and ?p = "varint_enc (dd_Period d)"
      from Cons.prems(3) delay d have r: "rest b off (?c @ ?p @ counters_enc ds' @ t)"
        by (simp add: ds)
      note r1 = rest_append [OF r]
      note r2 = rest_append [OF r1]
      have deq: "\<lparr>dd_DataType = of_nat i, dd_Counter = dd_Counter d, dd_Period = dd_Period d\<rparr> = d"
        using d by simp
      from Cons.IH [OF ds' ok' r2, of "s\<lparr>td_DataTypes := td_DataTypes s @ [d]\<rparr>"]
      show ?thesis using True new delay d
        by (simp add: drop_bit_odd varint.get_then_enc [OF r] varint.get_then_enc [OF r1] ds deq add.assoc)
    next
      case False
      with ok d have deq: "\<lparr>dd_DataType = of_nat i, dd_Counter = 0, dd_Period = 0\<rparr> = d"
        by (simp add: data_def_ok_def)
      from False d Cons.prems(3) have "rest b off (counters_enc ds' @ t)" by (simp add: ds)
      from Cons.IH [OF ds' ok' this, of "s\<lparr>td_DataTypes := td_DataTypes s @ [d]\<rparr>"]
      show ?thesis using True new False d by (simp add: drop_bit_odd ds deq)
    qed
  next
    case False
    with Cons.prems have "map dd_DataType ds = map of_nat (filter (bit m) is)" by simp
    from Cons.IH [OF this Cons.prems(2,3)] False show ?thesis by (simp add: drop_bit_odd)
  qed
qed simp

lemma def_putter: "strict_putter Definition_Marshal def_enc def_ok"
proof -
  let ?k = "\<lambda>s b off. put_then (\<lambda>b. PutVarint b (td_KeyType s)) b off (\<lambda>b off.
     put_then (\<lambda>b. PutVarint b (td_KeyLength s)) b off (\<lambda>b off.
     put_then (\<lambda>b. PutVarint b (data_mask (td_DataTypes s))) b off (\<lambda>b off.
     put_then (\<lambda>b. PutVarint b (td_Expiry s)) b off (counters_loop (td_DataTypes s)))))"
  let ?f = "\<lambda>s b off. put_then (\<lambda>b. PutVarint b (td_StickTableID s)) b off (\<lambda>b off.
     put_then (\<lambda>b. PutVarint b (of_nat (length (td_Name s)))) b off (\<lambda>b off. do {
       (b, n) \<leftarrow> copy_at b off (td_Name s); ?k s b (off + n) }))"
  have "adds_strictly (?f s) (def_enc s)" for s
    unfolding def_enc_def
    by (intro varint.adds_strictly_put TrueI adds_strictly_copy counters_loop_adds) simp
  moreover have "Definition_Marshal s b = ?f s b 0" if "def_ok s" for s b
  proof -
    from that have "\<forall>d \<in> set (td_DataTypes s). dd_DataType d < 27"
      by (auto simp: def_ok_def data_defs_ok_def data_def_ok_def)
    then show ?thesis by (simp add: Definition_Marshal_def data_mask(1) Let_def)
  qed
  ultimately show ?thesis by (intro strict_putterI [where f = ?f]) simp_all
qed

text \<open>\<open>make\<close> and \<open>copy\<close> for a name that is there.\<close>

lemma scopy_name: "scopy (Slice (replicate (length v) 0) []) (v @ t) = (Slice v [], length v)"
  by (simp add: scopy_def)

lemma Definition_Unmarshal_rest:
  assumes r: "rest b 0 (def_enc s @ t)" and ok: "def_ok s" and s0: "td_DataTypes s0 = []"
  shows "Definition_Unmarshal s0 b = Ret (s, length (def_enc s), None)"
proof -
  let ?l = "of_nat (length (td_Name s)) :: u64" and ?m = "data_mask (td_DataTypes s)"
  let ?e1 = "varint_enc (td_StickTableID s)" and ?e2 = "varint_enc ?l" and ?e3 = "varint_enc (td_KeyType s)"
  let ?e4 = "varint_enc (td_KeyLength s)" and ?e5 = "varint_enc ?m" and ?e6 = "varint_enc (td_Expiry s)"
  let ?c = "counters_enc (td_DataTypes s)"
  from ok have l: "unat ?l = length (td_Name s)" "length (td_Name s) \<le> max_alloc"
    by (auto simp: def_ok_def unat_len len_ok_def max_alloc_def)
  from ok have ds: "data_defs_ok (td_DataTypes s)" "\<forall>d \<in> set (td_DataTypes s). data_def_ok d"
    by (auto simp: def_ok_def data_defs_ok_def)
  from r have r: "rest b 0 (?e1 @ ?e2 @ td_Name s @ ?e3 @ ?e4 @ ?e5 @ ?e6 @ ?c @ t)"
    by (simp add: def_enc_def)
  note r1 = rest_append [OF r]
  note r2 = rest_append [OF r1]
  note r3 = rest_append [OF r2]
  note r4 = rest_append [OF r3]
  note r5 = rest_append [OF r4]
  note r6 = rest_append [OF r5]
  note r7 = rest_append [OF r6]
  note loop = data_types_loop_enc [OF data_mask_types [OF ds(1)] ds(2) r7 [simplified]]
  show ?thesis unfolding Definition_Unmarshal_def Let_def
    by (simp add: varint.get_then_enc [OF r] varint.get_then_enc [OF r1 [simplified]] l smake_def
        rest_sfrom [OF r2 [simplified]] scopy_name varint.get_then_enc [OF r3 [simplified]]
        varint.get_then_enc [OF r4 [simplified]] varint.get_then_enc [OF r5 [simplified]]
        varint.get_then_enc [OF r6 [simplified]] loop s0 def_enc_def)
qed

interpretation def: strict_codec Definition_Marshal "Definition_Unmarshal zero_def" def_enc def_ok
proof (intro strict_codec.intro codec.intro codec_axioms.intro)
  show "strict_putter Definition_Marshal def_enc def_ok" by (rule def_putter)
  then show "putter Definition_Marshal def_enc def_ok" by (simp add: strict_putter_def)
qed (auto intro!: Definition_Unmarshal_rest [OF rest_0] simp: zero_def_def)

text \<open>Whatever bytes are decoded without an error, the result is well-formed.\<close>

lemma data_types_loop_ok:
  assumes "data_types_loop b m is s off = Ret (s', off', None)" and "off \<le> slen b"
  shows "off' \<le> slen b \<and> (\<exists>ds. s' = s\<lparr>td_DataTypes := td_DataTypes s @ ds\<rparr> \<and>
    map dd_DataType ds = map of_nat (filter (bit m) is) \<and> (\<forall>d \<in> set ds. data_def_ok d))"
  using assms
proof (induction "is" arbitrary: s off)
  case (Cons i "is")
  show ?case
  proof (cases "bit m i")
    case True
    with Cons.prems(1) obtain x where new: "DataType_New (of_nat i) = Some x"
      by (auto simp: drop_bit_odd Let_def split: option.splits)
    then have small: "(of_nat i :: u64) < 27" using DataType_New_known by blast
    obtain d off1 where d: "dd_DataType d = of_nat i" "data_def_ok d" and off1: "off1 \<le> slen b"
      and rec: "data_types_loop b m is (s\<lparr>td_DataTypes := td_DataTypes s @ [d]\<rparr>) off1 = Ret (s', off', None)"
    proof (cases "IsDelay (of_nat i)")
      case True
      with \<open>bit m i\<close> Cons.prems(1) new obtain c k p l where
        "data_types_loop b m is (s\<lparr>td_DataTypes := td_DataTypes s @
          [\<lparr>dd_DataType = of_nat i, dd_Counter = c, dd_Period = p\<rparr>]\<rparr>) (off + k + l) = Ret (s', off', None)"
        "off + k + l \<le> slen b" by (auto simp: drop_bit_odd Let_def elim!: get_varint_ok)
      with True small show ?thesis by (intro that) (auto simp: data_def_ok_def)
    next
      case False
      with \<open>bit m i\<close> Cons.prems new small show ?thesis
        by (auto simp: drop_bit_odd data_def_ok_def Let_def intro!: that)
    qed
    from Cons.IH [OF rec off1] obtain ds where "off' \<le> slen b"
      "s' = s\<lparr>td_DataTypes := td_DataTypes s @ d # ds\<rparr>"
      "map dd_DataType ds = map of_nat (filter (bit m) is)" "\<forall>d \<in> set ds. data_def_ok d" by auto
    with d True show ?thesis by (intro conjI exI [of _ "d # ds"]) auto
  next
    case False
    with Cons show ?thesis by (simp add: drop_bit_odd)
  qed
qed simp

lemma sorted_of_nat_bits: "sorted_wrt (<) (map (of_nat :: nat \<Rightarrow> u64) (filter P [0..<64]))"
proof -
  have "sorted_wrt (<) (filter P [0..<64])" by (intro sorted_wrt_filter) simp
  then have "sorted_wrt (\<lambda>i j. (of_nat i :: u64) < of_nat j) (filter P [0..<64])"
    by (rule sorted_wrt_mono_rel [rotated]) (auto simp: word_less_nat_alt unat_of_nat_64)
  then show ?thesis by (simp add: sorted_wrt_map)
qed

lemma data_types_loop_def_ok:
  assumes "data_types_loop b m [0..<64] s0 off = Ret (s, n, None)" and "off \<le> slen b"
    and "td_DataTypes s0 = []" and "length (td_Name s0) \<le> max_alloc"
  shows "def_ok s \<and> n \<le> slen b"
  using data_types_loop_ok [OF assms(1,2)] assms(3,4) sorted_of_nat_bits [of "bit m"]
  by (auto simp: def_ok_def data_defs_ok_def)

lemma scopy_smake: "smake n = Ret d \<Longrightarrow> slen (fst (scopy d x)) \<le> max_alloc"
  by (auto simp: smake_def scopy_def Let_def split: if_splits)

lemma Definition_Unmarshal_ok:
  assumes "Definition_Unmarshal s0 b = Ret (s, n, None)" and "td_DataTypes s0 = []"
  shows "def_ok s \<and> n \<le> slen b"
  using assms unfolding Definition_Unmarshal_def Let_def
  by (elim get_varint_ok)
    (auto simp: bind_eq_Some_conv case_prod_unfold scopy_smake elim!: get_varint_ok
      dest!: data_types_loop_def_ok)

section \<open>Well-formed entry updates and their encoding\<close>

text \<open>The key and the data values have the types the table announces.\<close>

definition key_typed :: "table_def \<Rightarrow> map_key option \<Rightarrow> bool" where
  "key_typed T k \<longleftrightarrow> (\<exists>x. k = Some x \<and> KeyType_New (td_KeyType T) = Ret (zero_key x))"

definition data_typed :: "data_def list \<Rightarrow> map_data list \<Rightarrow> bool" where
  "data_typed ds xs \<longleftrightarrow> list_all2 (\<lambda>d x. DataType_New (dd_DataType d) = Some (zero_data x)) ds xs"

definition entry_typed :: "entry_update \<Rightarrow> bool" where
  "entry_typed e \<longleftrightarrow> key_typed (eu_StickTable e) (eu_Key e) \<and>
     data_typed (td_DataTypes (eu_StickTable e)) (eu_Data e)"

definition entry_key_ok :: "entry_update \<Rightarrow> bool" where
  "entry_key_ok e \<longleftrightarrow> (\<exists>k. eu_Key e = Some k \<and> key_ok (td_KeyLength (eu_StickTable e)) k)"

definition entry_ok :: "entry_update \<Rightarrow> bool" where
  "entry_ok e \<longleftrightarrow> entry_typed e \<and> entry_key_ok e \<and> (\<forall>x \<in> set (eu_Data e). data_ok x)"

definition be32_if :: "bool \<Rightarrow> u32 \<Rightarrow> byte list" where
  "be32_if c v = (if c then be32 v else [])"

definition body_enc :: "entry_update \<Rightarrow> byte list" where
  "body_enc e = key_enc (the (eu_Key e)) @ concat (map data_enc (eu_Data e))"

definition entry_enc :: "entry_update \<Rightarrow> byte list" where
  "entry_enc e = be32_if (eu_WithLocalUpdateID e) (eu_LocalUpdateID e) @
     be32_if (eu_WithExpiry e) (eu_Expiry e) @ body_enc e"

lemma put32_adds:
  assumes "adds k e"
  shows "adds (\<lambda>b off. put32_if c v b off k) (be32_if c v @ e)"
proof (cases c)
  case True
  have "put32_then v (Slice (out @ free) s) (length out) k =
      Ret (Slice (out @ (be32 v @ e) @ drop (length (be32 v @ e)) free) s, length (out @ be32 v @ e), None)"
    if le: "length (be32 v @ e) \<le> length free" for out free s
  proof -
    from le have "k (Slice ((out @ be32 v) @ drop 4 free) s) (length (out @ be32 v)) =
        Ret (Slice ((out @ be32 v) @ e @ drop (length e) (drop 4 free)) s, length ((out @ be32 v) @ e), None)"
      by (intro addsD [OF assms]) simp
    with le show ?thesis by (simp add: put32_then_def PutUint32_def splice_tail add.commute)
  qed
  with True show ?thesis unfolding adds_def put32_if_def be32_if_def if_P [OF True] by blast
next
  case False
  with assms show ?thesis by (simp add: put32_if_def be32_if_def)
qed

lemma entry_body_adds:
  assumes "key_ok ks k"
  shows "adds (\<lambda>b off. put_then (MapKey_Marshal ks k) b off (put_all MapData_Marshal xs))
    (key_enc k @ concat (map data_enc xs))"
  using assms by (intro mapkey.adds_put mapdata.adds_put_all) simp_all

interpretation entry: putter EntryUpdate_Marshal entry_enc entry_key_ok
proof (rule putterI)
  fix e
  assume "entry_key_ok e"
  then obtain k where k: "eu_Key e = Some k" "key_ok (td_KeyLength (eu_StickTable e)) k"
    by (auto simp: entry_key_ok_def)
  let ?f = "\<lambda>b off. put32_if (eu_WithLocalUpdateID e) (eu_LocalUpdateID e) b off (\<lambda>b off.
    put32_if (eu_WithExpiry e) (eu_Expiry e) b off (\<lambda>b off.
    put_then (MapKey_Marshal (td_KeyLength (eu_StickTable e)) (the (eu_Key e))) b off
      (put_all MapData_Marshal (eu_Data e))))"
  show "adds ?f (entry_enc e)"
    unfolding entry_enc_def body_enc_def using k(2) by (intro put32_adds entry_body_adds) (simp add: k(1))
qed (auto simp: EntryUpdate_Marshal_def entry_key_ok_def)

text \<open>Reading an entry back.\<close>

lemma get32_if_rest:
  assumes "rest b off (be32_if c v @ t)"
  shows "get32_if c b off old = Ret (if c then v else old, off + length (be32_if c v))"
  using assms by (simp add: get32_if_def be32_if_def rest_sfrom)

lemma entry_data_loop_enc:
  assumes "data_typed ds xs" and "\<forall>x \<in> set xs. data_ok x" and "rest b off (concat (map data_enc xs) @ t)"
  shows "entry_data_loop ds b e off =
    Ret (e\<lparr>eu_Data := eu_Data e @ xs\<rparr>, off + length (concat (map data_enc xs)), None)"
  using assms
proof (induction ds arbitrary: xs e off)
  case (Cons d ds)
  then obtain x xs' where xs: "xs = x # xs'" "DataType_New (dd_DataType d) = Some (zero_data x)"
    "data_typed ds xs'" by (auto simp: data_typed_def list_all2_Cons1)
  with Cons.prems have r: "rest b off (data_enc x @ concat (map data_enc xs') @ t)" by simp
  from Cons.IH [OF xs(3) _ rest_append [OF r], of "e\<lparr>eu_Data := eu_Data e @ [x]\<rparr>"] Cons.prems(2)
  show ?case by (simp add: xs data.get_then_enc [OF r] add.assoc)
qed (simp add: data_typed_def)

definition entry_header :: "entry_update \<Rightarrow> u32 \<Rightarrow> u32 \<Rightarrow> entry_update" where
  "entry_header e i x = e\<lparr>eu_Key := None, eu_Data := [], eu_LocalUpdateID := i, eu_Expiry := x\<rparr>"

lemma EntryUpdate_Unmarshal_rest:
  assumes r: "rest b 0 (entry_enc e @ t)" and ok: "entry_ok e"
  shows "EntryUpdate_Unmarshal (entry_header e i x) b = Ret
    (e\<lparr>eu_LocalUpdateID := if eu_WithLocalUpdateID e then eu_LocalUpdateID e else i,
       eu_Expiry := if eu_WithExpiry e then eu_Expiry e else x\<rparr>, length (entry_enc e), None)"
proof -
  let ?T = "eu_StickTable e"
  let ?i = "be32_if (eu_WithLocalUpdateID e) (eu_LocalUpdateID e)" and ?x = "be32_if (eu_WithExpiry e) (eu_Expiry e)"
  from ok obtain k where k: "eu_Key e = Some k" "key_ok (td_KeyLength ?T) k \<and> zero_key k = zero_key k"
    and new: "KeyType_New (td_KeyType ?T) = Ret (zero_key k)"
    by (auto simp: entry_ok_def entry_key_ok_def entry_typed_def key_typed_def)
  from ok have ds: "data_typed (td_DataTypes ?T) (eu_Data e)" "\<forall>x \<in> set (eu_Data e). data_ok x"
    by (auto simp: entry_ok_def entry_typed_def)
  from r have r: "rest b 0 (?i @ ?x @ key_enc k @ concat (map data_enc (eu_Data e)) @ t)"
    by (simp add: entry_enc_def body_enc_def k(1))
  note r1 = rest_append [OF r]
  note r2 = rest_append [OF r1]
  note r3 = rest_append [OF r2]
  show ?thesis
    unfolding EntryUpdate_Unmarshal_def Let_def
    by (simp add: entry_header_def get32_if_rest [OF r] get32_if_rest [OF r1 [simplified]] new
        key.get_then_enc [OF r2 [simplified] k(2)] entry_data_loop_enc [OF ds r3 [simplified]] k(1)
        entry_enc_def body_enc_def)
qed

text \<open>Whatever is decoded has the types of its table.\<close>

lemma MapKey_Unmarshal_kind: "MapKey_Unmarshal z b ks = Ret (k, n, err) \<Longrightarrow> zero_key k = zero_key z"
  by (cases z) (auto simp: bind_eq_Some_conv)

lemma MapData_Unmarshal_kind: "MapData_Unmarshal z b = Ret (x, n, err) \<Longrightarrow> zero_data x = zero_data z"
  by (cases z) (auto simp: bind_eq_Some_conv)

lemma KeyType_New_zero: "KeyType_New t = Ret z \<Longrightarrow> zero_key z = z"
  by (auto simp: KeyType_New_def split: if_splits)

lemma DataType_New_zero: "DataType_New d = Some z \<Longrightarrow> zero_data z = z"
  by (auto simp: DataType_New_def split: if_splits)

lemma entry_data_loop_typed:
  assumes "entry_data_loop ds b e off = Ret (e', n, None)"
  shows "\<exists>xs. e' = e\<lparr>eu_Data := eu_Data e @ xs\<rparr> \<and> data_typed ds xs"
  using assms
proof (induction ds arbitrary: e off)
  case (Cons d ds)
  then obtain z where z: "DataType_New (dd_DataType d) = Some z" by (auto split: option.splits)
  with Cons.prems obtain x m t where "MapData_Unmarshal z t = Ret (x, m, None)"
    and rec: "entry_data_loop ds b (e\<lparr>eu_Data := eu_Data e @ [x]\<rparr>) (off + m) = Ret (e', n, None)"
    by (auto elim!: get_then_ok)
  then have "zero_data x = z" using MapData_Unmarshal_kind DataType_New_zero z by fastforce
  moreover from Cons.IH [OF rec] obtain xs where
    "e' = e\<lparr>eu_Data := eu_Data e @ x # xs\<rparr>" "data_typed ds xs" by auto
  ultimately show ?case using z by (intro exI [of _ "x # xs"]) (simp add: data_typed_def)
qed (auto simp: data_typed_def)

lemma EntryUpdate_Unmarshal_typed:
  assumes "EntryUpdate_Unmarshal e b = Ret (e', n, None)" and "eu_Data e = []"
  shows "entry_typed e' \<and> eu_StickTable e' = eu_StickTable e \<and>
    eu_WithLocalUpdateID e' = eu_WithLocalUpdateID e \<and> eu_WithExpiry e' = eu_WithExpiry e"
proof -
  from assms(1) obtain v x off z t k m where
    z: "KeyType_New (td_KeyType (eu_StickTable e)) = Ret z" and k: "MapKey_Unmarshal z t (td_KeyLength (eu_StickTable e)) = Ret (k, m, None)"
    and loop: "entry_data_loop (td_DataTypes (eu_StickTable e)) b
      (e\<lparr>eu_LocalUpdateID := v, eu_Expiry := x, eu_Key := Some k\<rparr>) (off + m) = Ret (e', n, None)"
    unfolding EntryUpdate_Unmarshal_def Let_def
    by (auto simp: bind_eq_Some_conv elim!: get_then_ok)
  from z k have "zero_key k = z" using MapKey_Unmarshal_kind KeyType_New_zero by fastforce
  with z entry_data_loop_typed [OF loop] assms(2) show ?thesis
    by (auto simp: entry_typed_def key_typed_def)
qed

section \<open>Properties\<close>

definition demo_table :: table_def where
  "demo_table = \<lparr>td_Name = [116, 49],
     td_DataTypes = [\<lparr>dd_DataType = 2, dd_Counter = 0, dd_Period = 0\<rparr>, \<lparr>dd_DataType = 3, dd_Counter = 9, dd_Period = 1000\<rparr>],
     td_KeyType = 6, td_StickTableID = 1, td_KeyLength = 32, td_Expiry = 300\<rparr>"

definition demo_entry :: entry_update where
  "demo_entry = \<lparr>eu_StickTable = demo_table, eu_Key = Some (StringKey [97, 98]),
     eu_Data = [UnsignedIntegerData 5, FreqData \<lparr>CurrentTick = 1, CurrentPeriod = 2, LastPeriod = 300\<rparr>],
     eu_WithLocalUpdateID = True, eu_LocalUpdateID = 77, eu_WithExpiry = True, eu_Expiry = 1000\<rparr>"

lemma demo_table_ok: "def_ok demo_table"
  by (simp add: def_ok_def demo_table_def data_defs_ok_def data_def_ok_def IsDelay_def stick_defs max_alloc_def)

lemma demo_entry_ok: "entry_ok demo_entry"
  by (simp add: entry_ok_def demo_entry_def demo_table_def entry_typed_def key_typed_def data_typed_def
      entry_key_ok_def KeyType_New_def DataType_New_def stick_defs)

lemma demo_table_length: "length (def_enc demo_table) \<le> 40"
proof -
  have "length (varint_enc (data_mask (td_DataTypes demo_table))) \<le> 10" by (rule length_varint_enc_le)
  then show ?thesis
    by (simp add: def_enc_def) (simp add: demo_table_def varint_enc_def varint_rest.simps drop_bit_eq_div
        word_le_nat_alt IsDelay_def stick_defs)
qed

lemma demo_entry_length: "length (entry_enc demo_entry) \<le> 100"
  by (simp add: demo_entry_def entry_enc_def be32_if_def body_enc_def bytes_enc_def varint_enc_def
      freq_enc_def varint_rest.simps drop_bit_eq_div word_le_nat_alt)

text \<open>C13: a well-formed definition is written exactly when it fits into the slice, and then
  read back as it was, together with the number of bytes; otherwise the writer says so.\<close>

theorem definition_roundtrip:
  assumes "def_ok s"
  shows "\<exists>b' n err. Definition_Marshal s b = Ret (b', n, err) \<and>
    (if length (def_enc s) \<le> slen b
     then err = None \<and> n = length (def_enc s) \<and> Definition_Unmarshal zero_def b' = Ret (s, n, None)
     else err = Some ErrInsufficientSpace)"
proof (cases "length (def_enc s) \<le> slen b")
  case True
  then have w: "Definition_Marshal s b = Ret
      (Slice (def_enc s @ drop (length (def_enc s)) (vis b)) (spare b), length (def_enc s), None)"
    using def.put_fits [OF assms, of "vis b" "spare b"] by simp
  with def.get_enc [OF assms] True show ?thesis by simp
next
  case False
  then show ?thesis using def.put_short [OF assms, of "vis b" "spare b"] by auto
qed

lemma definition_roundtrip_witness:
  "\<exists>b' n err. Definition_Marshal demo_table (Slice (replicate 40 0) []) = Ret (b', n, err) \<and>
     err = None \<and> Definition_Unmarshal zero_def b' = Ret (demo_table, n, None)"
proof -
  have "length (def_enc demo_table) \<le> slen (Slice (replicate 40 0) [])" using demo_table_length by simp
  with definition_roundtrip [OF demo_table_ok, of "Slice (replicate 40 0) []"] show ?thesis by auto
qed

text \<open>C22: whatever a peer sends, a definition that is decoded without an error is well-formed: its
  data types are known, ascending and without duplicates, and only the rates carry a counter and a
  period; no byte beyond the message is used. It could be sent on unchanged.\<close>

theorem definition_canonical:
  assumes "Definition_Unmarshal zero_def b = Ret (s, n, None)"
  shows "def_ok s \<and> n \<le> slen b \<and>
    Definition_Unmarshal zero_def (Slice (def_enc s) []) = Ret (s, length (def_enc s), None)"
  using Definition_Unmarshal_ok [OF assms] def.get_enc [of s "[]" "[]"] by (simp add: zero_def_def)

lemma definition_canonical_witness:
  "def_ok demo_table \<and> length (def_enc demo_table) \<le> slen (Slice (def_enc demo_table @ [1, 2]) [])"
  using definition_canonical [of "Slice (def_enc demo_table @ [1, 2]) []" demo_table "length (def_enc demo_table)"]
    def.get_enc [OF demo_table_ok, of "[1, 2]" "[]"] by simp

text \<open>C16: an entry update is read back from what was written, if it has the types of its table and its
  values are well-formed (\<open>entry_ok\<close>: dictionary values of two bytes or more, binary keys of exactly
  the key length, IPv4 and IPv6 keys of their kind with the key length 4 or 16 and no zone): the key,
  every data value, and the update id and the expiry where they are sent; where they are not, those
  of the receiver stay.\<close>

theorem entry_roundtrip:
  assumes "entry_ok e" and "length (entry_enc e) \<le> slen b"
  shows "\<exists>b'. EntryUpdate_Marshal e b = Ret (b', length (entry_enc e), None) \<and>
    EntryUpdate_Unmarshal (entry_header e i x) b' = Ret
      (e\<lparr>eu_LocalUpdateID := if eu_WithLocalUpdateID e then eu_LocalUpdateID e else i,
         eu_Expiry := if eu_WithExpiry e then eu_Expiry e else x\<rparr>, length (entry_enc e), None)"
proof -
  from assms(1) have "entry_key_ok e" by (simp add: entry_ok_def)
  from entry.put_fits [OF this, of "vis b" "spare b"] assms(2) show ?thesis
    by (intro exI conjI, simp) (rule EntryUpdate_Unmarshal_rest [OF rest_0 assms(1)])
qed

lemma entry_roundtrip_witness:
  "\<exists>b' n. EntryUpdate_Marshal demo_entry (Slice (replicate 100 0) []) = Ret (b', n, None) \<and>
     EntryUpdate_Unmarshal (entry_header demo_entry 3 4) b' = Ret (demo_entry, n, None)"
proof -
  have "length (entry_enc demo_entry) \<le> slen (Slice (replicate 100 0) [])" using demo_entry_length by simp
  moreover have "eu_WithLocalUpdateID demo_entry" "eu_WithExpiry demo_entry" by (simp_all add: demo_entry_def)
  ultimately show ?thesis using entry_roundtrip [OF demo_entry_ok, of "Slice (replicate 100 0) []" 3 4] by auto
qed

text \<open>A definition that announces a name beyond what \<open>make\<close> can allocate crashes the
  receiver: the length is not compared with the bytes that are there.\<close>

theorem definition_huge_name_panics:
  assumes "max_alloc < unat nameLength"
  shows "Definition_Unmarshal s (Slice (varint_enc i @ varint_enc nameLength @ t) sp) = Panic"
proof -
  let ?b = "Slice (varint_enc i @ varint_enc nameLength @ t) sp"
  have r: "rest ?b 0 (varint_enc i @ varint_enc nameLength @ t)" by simp
  from assms show ?thesis unfolding Definition_Unmarshal_def Let_def
    by (simp add: varint.get_then_enc [OF r] varint.get_then_enc [OF rest_append [OF r, simplified]] smake_def)
qed

lemma definition_huge_name_panics_witness:
  "Definition_Unmarshal zero_def (Slice (varint_enc 1 @ varint_enc (2 ^ 60) @ []) []) = Panic"
  by (rule definition_huge_name_panics) (simp add: max_alloc_def)

end
