(* ===== verification/BufIO.thy ===== *)
theory BufIO
  imports NetIO
begin

text \<open>
  \<open>bufio.Writer\<close>, through which the peers library writes: a buffer of fixed size in front of
  a connection, with an error that sticks. \<open>bw_stream\<close> is everything accepted so far, whether
  it has left the buffer or not; \<open>wrote\<close> says how an operation extends it.
\<close>

record bufw =
  bw_buf :: "byte list"
  bw_err :: "gerr option"
  bw_size :: nat
  bw_wr :: sink

definition NewWriterSize :: "sink \<Rightarrow> nat \<Rightarrow> bufw" where
  "NewWriterSize w n = \<lparr>bw_buf = [], bw_err = None, bw_size = n, bw_wr = w\<rparr>"

definition Available :: "bufw \<Rightarrow> nat" where
  "Available w = bw_size w - length (bw_buf w)"

definition bw_Flush :: "bufw \<Rightarrow> bufw \<times> gerr option" where
  "bw_Flush w =
     (if bw_err w \<noteq> None then (w, bw_err w)
      else if bw_buf w = [] then (w, None)
      else
        (case Write (bw_buf w) (bw_wr w) of
           (s, n, None) \<Rightarrow> (w\<lparr>bw_buf := [], bw_wr := s\<rparr>, None)
         | (s, n, Some e) \<Rightarrow> (w\<lparr>bw_buf := drop n (bw_buf w), bw_err := Some e, bw_wr := s\<rparr>, Some e)))"

lemma bw_Flush_size [simp]: "bw_size (fst (bw_Flush w)) = bw_size w"
  by (auto simp: bw_Flush_def split: prod.splits option.splits)

lemma bw_Flush_empties: "bw_err (fst (bw_Flush w)) = None \<Longrightarrow> bw_buf (fst (bw_Flush w)) = []"
  by (cases "bw_err w = None"; cases "bw_buf w = []")
    (auto simp: bw_Flush_def split: prod.splits option.splits)

text \<open>The loop of \<open>Write\<close>: what of \<open>p\<close> is left for the buffer, and the count.\<close>

function bw_Write_loop :: "byte list \<Rightarrow> nat \<Rightarrow> bufw \<Rightarrow> byte list \<times> nat \<times> bufw" where
  "bw_Write_loop p nn w =
     (if length p \<le> Available w \<or> bw_err w \<noteq> None then (p, nn, w)
      else if bw_buf w = [] then
        (case Write p (bw_wr w) of
           (s, n, err) \<Rightarrow> bw_Write_loop (drop n p) (nn + n) (w\<lparr>bw_wr := s, bw_err := err\<rparr>))
      else
        let n = min (Available w) (length p);
            w = fst (bw_Flush (w\<lparr>bw_buf := bw_buf w @ take n p\<rparr>)) in
        bw_Write_loop (drop n p) (nn + n) w)"
  by pat_completeness auto
termination
proof (relation "measures [\<lambda>(p, nn, w). if bw_err w = None then 1 else 0, \<lambda>(p, nn, w). length p,
    \<lambda>(p, nn, w). length (bw_buf w)]", goal_cases)
  case (2 p nn w s y n err)
  then have "bw_err w = None" "p \<noteq> []" by auto
  moreover have "err = None \<longrightarrow> n = length p" using 2 Write_appends [of p "bw_wr w" s n err] by auto
  ultimately show ?case by (cases err) auto
next
  case (3 p nn w n w')
  then show ?case
    using bw_Flush_empties [of "w\<lparr>bw_buf := bw_buf w @ take n p\<rparr>"]
    by (cases "bw_err w'"; cases "n = 0") auto
qed simp

declare bw_Write_loop.simps [simp del]

definition bw_Write :: "byte list \<Rightarrow> bufw \<Rightarrow> bufw \<times> nat \<times> gerr option" where
  "bw_Write p w =
     (case bw_Write_loop p 0 w of
        (p, nn, w) \<Rightarrow>
          if bw_err w \<noteq> None then (w, nn, bw_err w)
          else (w\<lparr>bw_buf := bw_buf w @ p\<rparr>, nn + length p, None))"

section \<open>What is written\<close>

definition bw_stream :: "bufw \<Rightarrow> byte list" where
  "bw_stream w = sk_out (bw_wr w) @ bw_buf w"

definition wrote :: "bufw \<Rightarrow> byte list \<Rightarrow> bufw \<Rightarrow> bool" where
  "wrote w p w' \<longleftrightarrow> bw_size w' = bw_size w \<and>
     (\<exists>k. k \<le> length p \<and> bw_stream w' = bw_stream w @ take k p \<and> (bw_err w' = None \<longrightarrow> k = length p)) \<and>
     (bw_err w \<noteq> None \<longrightarrow> w' = w) \<and>
     (healthy (bw_wr w) \<longrightarrow> healthy (bw_wr w') \<and> bw_err w' = bw_err w) \<and>
     (\<exists>more. sk_out (bw_wr w') = sk_out (bw_wr w) @ more) \<and> (sk_closed (bw_wr w') \<longleftrightarrow> sk_closed (bw_wr w)) \<and>
     (bw_err w' \<noteq> None \<longrightarrow> bw_err w \<noteq> None \<or> sink_failed (bw_wr w'))"

lemma wrote_ok: "wrote w p w' \<Longrightarrow> bw_err w' = None \<Longrightarrow> bw_err w = None \<and> bw_stream w' = bw_stream w @ p"
  by (auto simp: wrote_def)

lemma wrote_refl: "wrote w [] w"
  by (simp add: wrote_def)

lemma wrote_failed: "bw_err w \<noteq> None \<Longrightarrow> wrote w p w"
  by (auto simp: wrote_def intro!: exI [of _ 0])

lemma wrote_trans:
  assumes "wrote w p w'" and "wrote w' q w''"
  shows "wrote w (p @ q) w''"
proof (cases "bw_err w' = None")
  case True
  with assms(1) have w: "bw_err w = None" "bw_stream w' = bw_stream w @ p" by (auto dest: wrote_ok)
  from assms(2) obtain k where k: "k \<le> length q" "bw_stream w'' = bw_stream w' @ take k q"
    "bw_err w'' = None \<longrightarrow> k = length q" by (auto simp: wrote_def)
  have "\<exists>k. k \<le> length (p @ q) \<and> bw_stream w'' = bw_stream w @ take k (p @ q) \<and> (bw_err w'' = None \<longrightarrow> k = length (p @ q))"
    using k w by (intro exI [of _ "length p + k"]) simp
  moreover obtain m1 where m1: "sk_out (bw_wr w') = sk_out (bw_wr w) @ m1" using assms(1) unfolding wrote_def by blast
  moreover obtain m2 where m2: "sk_out (bw_wr w'') = sk_out (bw_wr w') @ m2" using assms(2) unfolding wrote_def by blast
  ultimately show ?thesis using assms True w(1) unfolding wrote_def by simp
next
  case False
  with assms have w: "w'' = w'" unfolding wrote_def by blast
  from assms(1) obtain k where "k \<le> length p" "bw_stream w' = bw_stream w @ take k p" unfolding wrote_def by blast
  then have "\<exists>k. k \<le> length (p @ q) \<and> bw_stream w' = bw_stream w @ take k (p @ q) \<and> (bw_err w' = None \<longrightarrow> k = length (p @ q))"
    using False by (intro exI [of _ k]) auto
  with w assms(1) show ?thesis unfolding wrote_def by blast
qed

text \<open>An operation that stops after a failed write.\<close>

lemma wrote_stop: "wrote w p w' \<Longrightarrow> bw_err w' \<noteq> None \<Longrightarrow> wrote w (p @ q) w'"
  using wrote_trans wrote_failed by blast

lemma Write_room: "Write p s = (s', n, err) \<Longrightarrow> healthy s \<Longrightarrow> healthy s' \<and> err = None"
  by (auto simp: Write_def healthy_def)

lemma bw_Flush_wrote:
  assumes "bw_Flush w = (w', err)"
  shows "wrote w [] w' \<and> err = bw_err w' \<and> (err = None \<longrightarrow> bw_buf w' = [])"
proof (cases "bw_err w \<noteq> None \<or> bw_buf w = []")
  case True
  with assms have "w' = w" "err = bw_err w" by (auto simp: bw_Flush_def split: if_splits)
  with True show ?thesis by (auto simp: wrote_def)
next
  case False
  obtain s n e where w: "Write (bw_buf w) (bw_wr w) = (s, n, e)" by (metis prod_cases3)
  from False assms w have "w' = w\<lparr>bw_buf := drop n (bw_buf w), bw_err := e, bw_wr := s\<rparr>" "err = e"
    using Write_appends [OF w] by (auto simp: bw_Flush_def split: option.splits)
  with Write_appends [OF w] Write_room [OF w] Write_fails [OF w] False show ?thesis
    by (simp add: wrote_def bw_stream_def)
qed

lemma bw_Write_loop_wrote:
  assumes "bw_Write_loop p nn w = (p', nn', w')"
  shows "if bw_err w' = None then \<exists>q. p = q @ p' \<and> wrote w q w' else wrote w p w'"
  using assms
proof (induction p nn w rule: bw_Write_loop.induct)
  case (1 p nn w)
  show ?case
  proof (cases "length p \<le> Available w \<or> bw_err w \<noteq> None")
    case True
    with "1.prems" have "p' = p" "w' = w" by (simp_all add: bw_Write_loop.simps [of p])
    then show ?thesis by (auto simp: wrote_refl wrote_failed intro!: exI [of _ "[]"])
  next
    case loop: False
    show ?thesis
    proof (cases "bw_buf w = []")
      case True
      obtain s n err where w: "Write p (bw_wr w) = (s, n, err)" by (metis prod_cases3)
      let ?w = "w\<lparr>bw_wr := s, bw_err := err\<rparr>"
      from w loop True "1.prems" have rec: "bw_Write_loop (drop n p) (nn + n) ?w = (p', nn', w')"
        by (simp add: bw_Write_loop.simps [of p])
      have "wrote w p ?w" and take: "take n p @ drop n p = p" and ok: "err = None \<longrightarrow> n = length p"
        using Write_appends [OF w] Write_room [OF w] Write_fails [OF w] True loop
        by (auto simp: wrote_def bw_stream_def)
      moreover note "1.IH"(1) [OF loop True w [symmetric] refl rec]
      moreover have "err \<noteq> None \<Longrightarrow> w' = ?w" using rec by (simp add: bw_Write_loop.simps [of "drop n p"])
      ultimately show ?thesis
        using wrote_trans [of w p ?w "[]" w'] by (cases err) (auto split: if_splits)
    next
      case False
      let ?n = "min (Available w) (length p)"
      let ?v = "w\<lparr>bw_buf := bw_buf w @ take ?n p\<rparr>"
      let ?w = "fst (bw_Flush ?v)"
      from loop False "1.prems" have rec: "bw_Write_loop (drop ?n p) (nn + ?n) ?w = (p', nn', w')"
        by (simp add: bw_Write_loop.simps [of p] Let_def)
      have "wrote w (take ?n p) ?v" using loop
        by (auto simp: wrote_def bw_stream_def intro!: exI [of _ ?n])
      from wrote_trans [OF this, of "[]" ?w] have "wrote w (take ?n p) ?w"
        using bw_Flush_wrote [of ?v ?w "snd (bw_Flush ?v)"] by simp
      from wrote_trans [OF this] have trans: "wrote ?w q w' \<Longrightarrow> wrote w (take ?n p @ q) w'" for q .
      note rec = "1.IH"(2) [OF loop False refl refl rec]
      show ?thesis
      proof (cases "bw_err w' = None")
        case True
        with rec obtain q where "drop ?n p = q @ p'" "wrote ?w q w'" by auto
        with trans [of q] True show ?thesis
          by (auto intro!: exI [of _ "take ?n p @ q"]) (metis append_take_drop_id)
      next
        case False
        with rec trans [of "drop ?n p"] show ?thesis by auto
      qed
    qed
  qed
qed

lemma bw_Write_wrote:
  assumes "bw_Write p w = (w', n, err)"
  shows "wrote w p w' \<and> err = bw_err w'"
proof -
  obtain p' nn v where l: "bw_Write_loop p 0 w = (p', nn, v)" by (metis prod_cases3)
  note v = bw_Write_loop_wrote [OF l]
  show ?thesis
  proof (cases "bw_err v = None")
    case True
    with v obtain q where q: "p = q @ p'" "wrote w q v" by auto
    have "wrote v p' (v\<lparr>bw_buf := bw_buf v @ p'\<rparr>)" using True
      by (auto simp: wrote_def bw_stream_def intro!: exI [of _ "length p'"])
    from wrote_trans [OF q(2) this] True assms l q(1) show ?thesis by (auto simp: bw_Write_def)
  next
    case False
    with v assms l show ?thesis by (auto simp: bw_Write_def)
  qed
qed

end
