(* ===== verification/PeerWriter.thy ===== *)
theory PeerWriter
  imports StickTables BufIO
begin

text \<open>
  The constants of the peers protocol (peers/constants.go) and the writer of stick-table updates
  (peers/writer.go). The writer and the protocol client of a connection share the buffered output
  and its mutex; both are part of the record \<open>pwriter\<close>. A result \<open>(w, None)\<close> is a panic, which
  leaves the writer in the state \<open>w\<close>.
\<close>

named_theorems peer_defs \<open>constants of the peers protocol\<close>

section \<open>Constants\<close>

definition HandshakeStatusHandshakeSucceeded :: int where [peer_defs]: "HandshakeStatusHandshakeSucceeded = 200"
definition HandshakeStatusTryAgainLater :: int where [peer_defs]: "HandshakeStatusTryAgainLater = 300"
definition HandshakeStatusProtocolError :: int where [peer_defs]: "HandshakeStatusProtocolError = 501"
definition HandshakeStatusBadVersion :: int where [peer_defs]: "HandshakeStatusBadVersion = 502"
definition HandshakeStatusLocalPeerIdentifierMismatch :: int where [peer_defs]: "HandshakeStatusLocalPeerIdentifierMismatch = 503"
definition HandshakeStatusRemotePeerIdentifierMismatch :: int where [peer_defs]: "HandshakeStatusRemotePeerIdentifierMismatch = 504"

definition MessageClassControl :: byte where [peer_defs]: "MessageClassControl = 0"
definition MessageClassError :: byte where [peer_defs]: "MessageClassError = 1"
definition MessageClassStickTableUpdates :: byte where [peer_defs]: "MessageClassStickTableUpdates = 10"
definition MessageClassReserved :: byte where [peer_defs]: "MessageClassReserved = 255"

definition ControlMessageSyncRequest :: byte where [peer_defs]: "ControlMessageSyncRequest = 0"
definition ControlMessageSyncFinished :: byte where [peer_defs]: "ControlMessageSyncFinished = 1"
definition ControlMessageSyncPartial :: byte where [peer_defs]: "ControlMessageSyncPartial = 2"
definition ControlMessageSyncConfirmed :: byte where [peer_defs]: "ControlMessageSyncConfirmed = 3"
definition ControlMessageHeartbeat :: byte where [peer_defs]: "ControlMessageHeartbeat = 4"

definition ErrorMessageProtocol :: byte where [peer_defs]: "ErrorMessageProtocol = 0"
definition ErrorMessageSizeLimit :: byte where [peer_defs]: "ErrorMessageSizeLimit = 1"

definition StickTableUpdateMessageTypeEntryUpdate :: byte where [peer_defs]: "StickTableUpdateMessageTypeEntryUpdate = 128"
definition StickTableUpdateMessageTypeIncrementalEntryUpdate :: byte where [peer_defs]: "StickTableUpdateMessageTypeIncrementalEntryUpdate = 129"
definition StickTableUpdateMessageTypeStickTableDefinition :: byte where [peer_defs]: "StickTableUpdateMessageTypeStickTableDefinition = 130"
definition StickTableUpdateMessageTypeStickTableSwitch :: byte where [peer_defs]: "StickTableUpdateMessageTypeStickTableSwitch = 131"
definition StickTableUpdateMessageTypeUpdateAcknowledge :: byte where [peer_defs]: "StickTableUpdateMessageTypeUpdateAcknowledge = 132"
definition StickTableUpdateMessageTypeUpdateTimed :: byte where [peer_defs]: "StickTableUpdateMessageTypeUpdateTimed = 133"
definition StickTableUpdateMessageTypeIncrementalEntryUpdateTimed :: byte where [peer_defs]: "StickTableUpdateMessageTypeIncrementalEntryUpdateTimed = 134"

section \<open>The writer\<close>

record pwriter =
  pw_bw :: bufw
  pw_locked :: bool
  pw_buf :: slice
  pw_nextUpdateID :: u32

definition newWriter :: "sink \<Rightarrow> pwriter" where
  "newWriter w =
     \<lparr>pw_bw = NewWriterSize w (64 * 1024), pw_locked = False, pw_buf = Slice (replicate 65536 0) [],
      pw_nextUpdateID = 0\<rparr>"

text \<open>\<open>mu.Lock()\<close> and \<open>mu.Unlock()\<close>; the operations below are only called on an unlocked writer.\<close>

definition pw_lock :: "pwriter \<Rightarrow> pwriter" where
  "pw_lock w = w\<lparr>pw_locked := True\<rparr>"

definition pw_unlock :: "pwriter \<Rightarrow> pwriter" where
  "pw_unlock w = w\<lparr>pw_locked := False\<rparr>"

definition pw_write :: "byte list \<Rightarrow> pwriter \<Rightarrow> pwriter \<times> gerr option" where
  "pw_write p w = (case bw_Write p (pw_bw w) of (bw, n, err) \<Rightarrow> (w\<lparr>pw_bw := bw\<rparr>, err))"

definition pw_flush :: "pwriter \<Rightarrow> pwriter \<times> gerr option" where
  "pw_flush w = (case bw_Flush (pw_bw w) of (bw, err) \<Rightarrow> (w\<lparr>pw_bw := bw\<rparr>, err))"

definition Writer_Flush :: "pwriter \<Rightarrow> pwriter \<times> gerr option" where
  "Writer_Flush w = (case pw_flush (pw_lock w) of (w, err) \<Rightarrow> (pw_unlock w, err))"

definition writeMessageLocked ::
  "byte \<Rightarrow> byte \<Rightarrow> byte list \<Rightarrow> pwriter \<Rightarrow> pwriter \<times> gerr option option" where
  "writeMessageLocked c msgType d w =
     (case (if msgType \<ge> 128 then PutVarint (Slice (replicate 10 0) []) (of_nat (length d))
            else Ret (Slice (replicate 10 0) [], 0, None)) of
        None \<Rightarrow> (w, Panic)
      | Some (lenBuf, n, Some e) \<Rightarrow> (w, Ret (Some (ErrWrap ''encoding data length'' e)))
      | Some (lenBuf, lenBytes, None) \<Rightarrow>
          (case pw_write [c, msgType] w of
             (w, Some e) \<Rightarrow> (w, Ret (Some e))
           | (w, None) \<Rightarrow>
               (case (if lenBytes > 0 then pw_write (take lenBytes (vis lenBuf)) w else (w, None)) of
                  (w, Some e) \<Rightarrow> (w, Ret (Some e))
                | (w, None) \<Rightarrow>
                    (case (if length d > 0 then pw_write d w else (w, None)) of
                       (w, err) \<Rightarrow> (w, Ret err)))))"

definition writeMessage :: "byte \<Rightarrow> byte \<Rightarrow> byte list \<Rightarrow> pwriter \<Rightarrow> pwriter \<times> gerr option option" where
  "writeMessage c msgType d w =
     (case writeMessageLocked c msgType d (pw_lock w) of (w, res) \<Rightarrow> (pw_unlock w, res))"

text \<open>
  The first half of \<open>SendTableDefinition\<close> and \<open>SendTableSwitch\<close>, up to and including
  \<open>writeMessage\<close>; the second is a \<open>Flush\<close> of its own, and other writers may come in between.
\<close>

definition put_def ::
  "(slice \<Rightarrow> (slice \<times> nat \<times> gerr option) option) \<Rightarrow> nat \<Rightarrow> string \<Rightarrow> byte \<Rightarrow> pwriter \<Rightarrow>
   pwriter \<times> gerr option option" where
  "put_def put n msg msgType w =
     (case put (Slice (replicate n 0) []) of
        None \<Rightarrow> (w, Panic)
      | Some (buf, n, Some e) \<Rightarrow> (w, Ret (Some (ErrWrap msg e)))
      | Some (buf, n, None) \<Rightarrow>
          (case supto buf n of
             None \<Rightarrow> (w, Panic)
           | Some d \<Rightarrow> writeMessage MessageClassStickTableUpdates msgType (vis d) w))"

definition then_flush :: "pwriter \<times> gerr option option \<Rightarrow> pwriter \<times> gerr option option" where
  "then_flush r =
     (case r of
        (w, Some None) \<Rightarrow> (case Writer_Flush w of (w, err) \<Rightarrow> (w, Ret err))
      | r \<Rightarrow> r)"

definition write_def :: "table_def \<Rightarrow> pwriter \<Rightarrow> pwriter \<times> gerr option option" where
  "write_def d =
     put_def (Definition_Marshal d) 4096 ''marshaling table definition''
       StickTableUpdateMessageTypeStickTableDefinition"

definition write_switch :: "u64 \<Rightarrow> pwriter \<Rightarrow> pwriter \<times> gerr option option" where
  "write_switch tableID =
     put_def (\<lambda>b. PutVarint b tableID) 10 ''encoding table ID'' StickTableUpdateMessageTypeStickTableSwitch"

definition SendTableDefinition :: "table_def \<Rightarrow> pwriter \<Rightarrow> pwriter \<times> gerr option option" where
  "SendTableDefinition d w = then_flush (write_def d w)"

definition SendTableSwitch :: "u64 \<Rightarrow> pwriter \<Rightarrow> pwriter \<times> gerr option option" where
  "SendTableSwitch tableID w = then_flush (write_switch tableID w)"

definition wrap_put ::
  "string \<Rightarrow> (slice \<Rightarrow> (slice \<times> nat \<times> gerr option) option) \<Rightarrow> slice \<Rightarrow> (slice \<times> nat \<times> gerr option) option" where
  "wrap_put msg put b =
     do {
       (b, n, err) \<leftarrow> put b;
       Ret (b, n, map_option (ErrWrap msg) err)
     }"

definition marshalEntry :: "entry_update \<Rightarrow> u32 \<Rightarrow> slice \<Rightarrow> (slice \<times> nat \<times> gerr option) option" where
  "marshalEntry entry updateID buf =
     (let offset = 0 in
      put32_then updateID buf offset (\<lambda>buf offset.
      put32_if (eu_WithExpiry entry) (eu_Expiry entry) buf offset (\<lambda>buf offset.
      case eu_Key entry of
        None \<Rightarrow> Panic
      | Some key \<Rightarrow>
          put_then (wrap_put ''marshaling entry key'' (MapKey_Marshal (td_KeyLength (eu_StickTable entry)) key))
            buf offset (\<lambda>buf offset.
          put_all (\<lambda>d. wrap_put ''marshaling entry data'' (MapData_Marshal d)) (eu_Data entry) buf offset))))"

definition entry_type :: "entry_update \<Rightarrow> byte" where
  "entry_type entry =
     (if eu_WithExpiry entry then StickTableUpdateMessageTypeUpdateTimed
      else StickTableUpdateMessageTypeEntryUpdate)"

text \<open>What \<open>SendEntry\<close> and the body of the loop of \<open>SendEntries\<close> share.\<close>

definition put_entry :: "entry_update \<Rightarrow> pwriter \<Rightarrow> pwriter \<times> gerr option option" where
  "put_entry entry w =
     (let updateID = pw_nextUpdateID w; w = w\<lparr>pw_nextUpdateID := pw_nextUpdateID w + 1\<rparr> in
      case marshalEntry entry updateID (pw_buf w) of
        None \<Rightarrow> (w, Panic)
      | Some (buf, offset, Some e) \<Rightarrow> (w\<lparr>pw_buf := buf\<rparr>, Ret (Some (ErrWrap ''marshaling entry update'' e)))
      | Some (buf, offset, None) \<Rightarrow>
          (case supto buf offset of
             None \<Rightarrow> (w\<lparr>pw_buf := buf\<rparr>, Panic)
           | Some d \<Rightarrow>
               writeMessageLocked MessageClassStickTableUpdates (entry_type entry) (vis d) (w\<lparr>pw_buf := buf\<rparr>)))"

definition SendEntry :: "entry_update \<Rightarrow> pwriter \<Rightarrow> pwriter \<times> gerr option option" where
  "SendEntry entry w =
     (case put_entry entry (pw_lock w) of
        (w, None) \<Rightarrow> (w, Panic)
      | (w, Some (Some e)) \<Rightarrow> (pw_unlock w, Ret (Some e))
      | (w, Some None) \<Rightarrow> (case pw_flush w of (w, err) \<Rightarrow> (pw_unlock w, Ret err)))"

fun put_entries :: "entry_update list \<Rightarrow> pwriter \<Rightarrow> pwriter \<times> gerr option option" where
  "put_entries [] w = (w, Ret None)"
| "put_entries (entry # entries) w =
     (case put_entry entry w of
        (w, Some None) \<Rightarrow> put_entries entries w
      | r \<Rightarrow> r)"

definition SendEntries :: "entry_update list \<Rightarrow> pwriter \<Rightarrow> pwriter \<times> gerr option option" where
  "SendEntries entries w =
     (case put_entries entries (pw_lock w) of
        (w, Some None) \<Rightarrow> (case pw_flush w of (w, err) \<Rightarrow> (pw_unlock w, Ret err))
      | (w, r) \<Rightarrow> (pw_unlock w, r))"

section \<open>Messages on the wire\<close>

text \<open>The reference encoding of a message: class, type, the length for the types that have one, data.\<close>

definition msg_enc :: "byte \<Rightarrow> byte \<Rightarrow> byte list \<Rightarrow> byte list" where
  "msg_enc c ty d = [c, ty] @ (if ty \<ge> 128 then varint_enc (of_nat (length d)) else []) @ d"

definition is_msg :: "byte list \<Rightarrow> bool" where
  "is_msg m \<longleftrightarrow> (\<exists>c ty d. m = msg_enc c ty d \<and> (c = MessageClassControl \<and> ty < 128 \<and> d = [] \<or>
     c = MessageClassStickTableUpdates \<and> ty \<ge> 128))"

lemma pw_write_wrote:
  obtains bw where "pw_write p w = (w\<lparr>pw_bw := bw\<rparr>, bw_err bw)" "wrote (pw_bw w) p bw"
proof -
  obtain bw n err where w: "bw_Write p (pw_bw w) = (bw, n, err)" by (metis prod_cases3)
  with bw_Write_wrote [OF w] show ?thesis by (intro that [of bw]) (simp_all add: pw_write_def)
qed

lemma pw_flush_wrote:
  obtains bw where "pw_flush w = (w\<lparr>pw_bw := bw\<rparr>, bw_err bw)" "wrote (pw_bw w) [] bw"
    "bw_err bw = None \<longrightarrow> bw_buf bw = []"
proof -
  obtain bw err where w: "bw_Flush (pw_bw w) = (bw, err)" by (metis surj_pair)
  with bw_Flush_wrote [OF w] show ?thesis by (intro that [of bw]) (simp_all add: pw_flush_def)
qed

lemma pw_write_opt:
  assumes "bw_err (pw_bw w) = None"
  obtains bw where "(if length p > 0 then pw_write p w else (w, None)) = (w\<lparr>pw_bw := bw\<rparr>, bw_err bw)"
    "wrote (pw_bw w) p bw"
proof (cases "p = []")
  case True
  with assms show ?thesis by (intro that [of "pw_bw w"]) (simp_all add: wrote_refl)
next
  case False
  obtain bw where "pw_write p w = (w\<lparr>pw_bw := bw\<rparr>, bw_err bw)" "wrote (pw_bw w) p bw"
    by (rule pw_write_wrote)
  with False show ?thesis by (intro that) simp_all
qed

text \<open>A message goes out as a whole, unless the connection fails.\<close>

lemma writeMessageLocked_wrote:
  obtains bw where "writeMessageLocked c ty d w = (w\<lparr>pw_bw := bw\<rparr>, Ret (bw_err bw))"
    "wrote (pw_bw w) (msg_enc c ty d) bw"
proof -
  let ?e = "varint_enc (of_nat (length d))"
  have "length ?e \<le> 10" by (rule length_varint_enc_le)
  then obtain L where enc: "msg_enc c ty d = [c, ty] @ L @ d"
    and len: "(if ty \<ge> 128 then PutVarint (Slice (replicate 10 0) []) (of_nat (length d))
      else Ret (Slice (replicate 10 0) [], 0, None)) = Ret (Slice (L @ replicate (10 - length L) 0) [], length L, None)"
    by (simp add: PutVarint_fits msg_enc_def)
  obtain b1 where b1: "pw_write [c, ty] w = (w\<lparr>pw_bw := b1\<rparr>, bw_err b1)" "wrote (pw_bw w) [c, ty] b1"
    by (rule pw_write_wrote)
  show ?thesis
  proof (cases "bw_err b1")
    case (Some e)
    with b1 wrote_stop [OF b1(2), of "L @ d"] show ?thesis
      by (intro that [of b1]) (simp_all add: writeMessageLocked_def len enc)
  next
    case None
    then have "bw_err (pw_bw (w\<lparr>pw_bw := b1\<rparr>)) = None" by simp
    from pw_write_opt [OF this, of L] obtain b2 where
      b2: "(if length L > 0 then pw_write L (w\<lparr>pw_bw := b1\<rparr>) else (w\<lparr>pw_bw := b1\<rparr>, None)) =
        (w\<lparr>pw_bw := b2\<rparr>, bw_err b2)" and w2: "wrote b1 L b2" by auto
    note w12 = wrote_trans [OF b1(2) w2]
    show ?thesis
    proof (cases "bw_err b2")
      case (Some e)
      with b1 None b2 wrote_stop [OF w12, of d] show ?thesis
        by (intro that [of b2]) (auto simp: writeMessageLocked_def len enc split: if_splits)
    next
      case none2: None
      then have "bw_err (pw_bw (w\<lparr>pw_bw := b2\<rparr>)) = None" by simp
      from pw_write_opt [OF this, of d] obtain b3 where
        b3: "(if length d > 0 then pw_write d (w\<lparr>pw_bw := b2\<rparr>) else (w\<lparr>pw_bw := b2\<rparr>, None)) =
          (w\<lparr>pw_bw := b3\<rparr>, bw_err b3)" and "wrote b2 d b3" by auto
      with wrote_trans [OF w12, of d b3] b1 None b2 none2 show ?thesis
        by (intro that [of b3]) (auto simp: writeMessageLocked_def len enc split: if_splits)
    qed
  qed
qed

section \<open>Every operation writes whole messages\<close>

text \<open>\<open>writes w ms w'\<close>: the messages \<open>ms\<close> were written, broken off only by a failing connection.\<close>

definition writes :: "pwriter \<Rightarrow> byte list list \<Rightarrow> pwriter \<Rightarrow> bool" where
  "writes w ms w' \<longleftrightarrow> wrote (pw_bw w) (concat ms) (pw_bw w') \<and> (\<forall>m \<in> set ms. is_msg m)"

definition same_rest :: "pwriter \<Rightarrow> pwriter \<Rightarrow> bool" where
  "same_rest w w' \<longleftrightarrow> pw_locked w' = pw_locked w \<and> pw_buf w' = pw_buf w \<and> pw_nextUpdateID w' = pw_nextUpdateID w"

lemma writes_none: "pw_bw w' = pw_bw w \<Longrightarrow> writes w [] w'"
  by (simp add: writes_def wrote_refl)

lemma writes_append: "writes w ms w' \<Longrightarrow> writes w' ms' w'' \<Longrightarrow> writes w (ms @ ms') w''"
  by (auto simp: writes_def intro: wrote_trans)

lemma pw_lock_simps [simp]:
  "pw_bw (pw_lock w) = pw_bw w" "pw_buf (pw_lock w) = pw_buf w" "pw_locked (pw_lock w)"
  "pw_nextUpdateID (pw_lock w) = pw_nextUpdateID w"
  "pw_bw (pw_unlock w) = pw_bw w" "pw_buf (pw_unlock w) = pw_buf w" "\<not> pw_locked (pw_unlock w)"
  "pw_nextUpdateID (pw_unlock w) = pw_nextUpdateID w"
  by (simp_all add: pw_lock_def pw_unlock_def)

lemma writeMessageLocked_writes:
  assumes "writeMessageLocked MessageClassStickTableUpdates ty d w = (w', r)" and "ty \<ge> 128"
  shows "writes w [msg_enc MessageClassStickTableUpdates ty d] w' \<and> r = Ret (bw_err (pw_bw w')) \<and> same_rest w w'"
proof -
  obtain bw where "writeMessageLocked MessageClassStickTableUpdates ty d w = (w\<lparr>pw_bw := bw\<rparr>, Ret (bw_err bw))"
    "wrote (pw_bw w) (msg_enc MessageClassStickTableUpdates ty d) bw" by (rule writeMessageLocked_wrote)
  with assms show ?thesis by (auto simp: writes_def is_msg_def same_rest_def)
qed

lemma pw_flush_writes:
  assumes "pw_flush w = (w', err)"
  shows "writes w [] w' \<and> err = bw_err (pw_bw w') \<and> (err = None \<longrightarrow> bw_buf (pw_bw w') = []) \<and>
    same_rest w w'"
proof -
  obtain bw where "pw_flush w = (w\<lparr>pw_bw := bw\<rparr>, bw_err bw)" "wrote (pw_bw w) [] bw"
    "bw_err bw = None \<longrightarrow> bw_buf bw = []" by (rule pw_flush_wrote)
  with assms show ?thesis by (auto simp: writes_def same_rest_def)
qed

lemma Writer_Flush_writes:
  assumes "Writer_Flush w = (w', err)"
  shows "writes w [] w' \<and> err = bw_err (pw_bw w') \<and> (err = None \<longrightarrow> bw_buf (pw_bw w') = []) \<and>
    \<not> pw_locked w'"
  using assms by (auto simp: Writer_Flush_def writes_def split: prod.splits dest!: pw_flush_writes)

lemma put_def_writes:
  assumes "put_def put n msg ty w = (w', r)" and "ty \<ge> 128"
  shows "\<exists>ms. writes w ms w' \<and> pw_buf w' = pw_buf w \<and> pw_nextUpdateID w' = pw_nextUpdateID w \<and>
    (\<not> pw_locked w \<longrightarrow> \<not> pw_locked w')"
proof (cases "w' = w")
  case True
  then show ?thesis by (auto intro!: exI [of _ "[]"] writes_none)
next
  case False
  with assms(1) obtain d where "writeMessage MessageClassStickTableUpdates ty d w = (w', r)"
    by (auto simp: put_def_def split: option.splits)
  then obtain v where v: "writeMessageLocked MessageClassStickTableUpdates ty d (pw_lock w) = (v, r)"
    and "w' = pw_unlock v" by (auto simp: writeMessage_def split: prod.splits)
  from writeMessageLocked_writes [OF v] assms(2) this(2) show ?thesis
    by (intro exI [of _ "[msg_enc MessageClassStickTableUpdates ty d]"])
      (auto simp: writes_def same_rest_def not_le [symmetric])
qed

lemma entry_type_ge [simp]: "entry_type e \<ge> 128" "\<not> entry_type e < 128"
  by (simp_all add: entry_type_def peer_defs)

lemma put_entry_writes:
  assumes "put_entry e w = (w', r)"
  shows "\<exists>ms. writes w ms w' \<and> pw_locked w' = pw_locked w \<and> pw_nextUpdateID w' = pw_nextUpdateID w + 1"
proof (cases "pw_bw w' = pw_bw w")
  case True
  with assms show ?thesis
    by (auto simp: put_entry_def Let_def same_rest_def intro!: exI [of _ "[]"] writes_none
        split: option.splits prod.splits dest!: writeMessageLocked_writes)
next
  case False
  with assms obtain d v where v: "writeMessageLocked MessageClassStickTableUpdates (entry_type e) d v = (w', r)"
    and "pw_bw v = pw_bw w" "pw_locked v = pw_locked w" "pw_nextUpdateID v = pw_nextUpdateID w + 1"
    by (auto simp: put_entry_def Let_def split: option.splits)
  with writeMessageLocked_writes [OF v] entry_type_ge(1) [of e] show ?thesis
    by (intro exI [of _ "[msg_enc MessageClassStickTableUpdates (entry_type e) d]"])
      (auto simp: writes_def same_rest_def)
qed

lemma SendEntry_writes:
  assumes "SendEntry e w = (w', r)"
  shows "\<exists>ms. writes w ms w' \<and> (pw_locked w' \<longleftrightarrow> r = Panic) \<and> pw_nextUpdateID w' = pw_nextUpdateID w + 1"
proof -
  obtain v q where v: "put_entry e (pw_lock w) = (v, q)" by (metis surj_pair)
  from put_entry_writes [OF v] obtain ms where ms: "writes w ms v" "pw_locked v"
    "pw_nextUpdateID v = pw_nextUpdateID w + 1" by (auto simp: writes_def)
  obtain u err where u: "pw_flush v = (u, err)" by (metis surj_pair)
  with pw_flush_writes [OF u] writes_append [OF ms(1), of "[]" u] have
    "writes w ms u" "pw_nextUpdateID u = pw_nextUpdateID w + 1" using ms(3) by (simp_all add: same_rest_def)
  with ms assms v u show ?thesis
    by (auto simp: SendEntry_def writes_def split: option.splits)
qed

lemma put_entries_writes:
  "put_entries es w = (w', r) \<Longrightarrow> \<exists>ms. writes w ms w'"
proof (induction es arbitrary: w)
  case Nil
  then show ?case by (auto intro!: exI [of _ "[]"] writes_none)
next
  case (Cons e es)
  obtain v q where v: "put_entry e w = (v, q)" by (metis surj_pair)
  from put_entry_writes [OF v] obtain ms where ms: "writes w ms v" by blast
  show ?case
  proof (cases "q = Ret None")
    case True
    with Cons v obtain ms' where "writes v ms' w'" by fastforce
    with writes_append [OF ms] show ?thesis by blast
  next
    case False
    with Cons.prems v ms show ?thesis by (auto split: option.splits)
  qed
qed

lemma SendEntries_writes:
  assumes "SendEntries es w = (w', r)"
  shows "\<exists>ms. writes w ms w' \<and> \<not> pw_locked w'"
proof -
  obtain v q where v: "put_entries es (pw_lock w) = (v, q)" by (metis surj_pair)
  from put_entries_writes [OF v] obtain ms where ms: "writes w ms v" by (auto simp: writes_def)
  obtain u err where u: "pw_flush v = (u, err)" by (metis surj_pair)
  with pw_flush_writes [OF u] writes_append [OF ms(1), of "[]" u] have "writes w ms u" by simp
  with ms assms v u show ?thesis
    by (auto simp: SendEntries_def writes_def split: option.splits)
qed

section \<open>What is sent\<close>

definition numbered :: "u32 \<Rightarrow> entry_update \<Rightarrow> entry_update" where
  "numbered i e = e\<lparr>eu_WithLocalUpdateID := True, eu_LocalUpdateID := i\<rparr>"

definition entry_msg :: "u32 \<Rightarrow> entry_update \<Rightarrow> byte list" where
  "entry_msg i e = msg_enc MessageClassStickTableUpdates (entry_type e) (entry_enc (numbered i e))"

fun entry_msgs :: "u32 \<Rightarrow> entry_update list \<Rightarrow> byte list list" where
  "entry_msgs i [] = []"
| "entry_msgs i (e # es) = entry_msg i e # entry_msgs (i + 1) es"

definition def_msg :: "table_def \<Rightarrow> byte list" where
  "def_msg d = msg_enc MessageClassStickTableUpdates StickTableUpdateMessageTypeStickTableDefinition (def_enc d)"

lemma numbered_enc:
  "entry_enc (numbered i e) = be32 i @ be32_if (eu_WithExpiry e) (eu_Expiry e) @ body_enc e"
  by (simp add: numbered_def entry_enc_def be32_if_def body_enc_def)

lemma putter_wrap: "putter put enc valid \<Longrightarrow> putter (\<lambda>x. wrap_put msg (put x)) enc valid"
  by (simp add: putter_def wrap_put_def)

lemma marshalEntry_fits:
  assumes "entry_key_ok e" and "length (entry_enc (numbered i e)) \<le> slen b"
  shows "marshalEntry e i b = Ret (Slice (entry_enc (numbered i e) @
    drop (length (entry_enc (numbered i e))) (vis b)) (spare b), length (entry_enc (numbered i e)), None)"
proof -
  from assms(1) obtain k where k: "eu_Key e = Some k" "key_ok (td_KeyLength (eu_StickTable e)) k"
    by (auto simp: entry_key_ok_def)
  note kp = putter_wrap [OF mapkey.putter_axioms, of "''marshaling entry key''"]
  note dp = putter_wrap [OF mapdata.putter_axioms, of "''marshaling entry data''"]
  let ?f = "\<lambda>b off. put32_if True i b off (\<lambda>b off. put32_if (eu_WithExpiry e) (eu_Expiry e) b off (\<lambda>b off.
    put_then (wrap_put ''marshaling entry key'' (MapKey_Marshal (td_KeyLength (eu_StickTable e)) k)) b off
      (put_all (\<lambda>d. wrap_put ''marshaling entry data'' (MapData_Marshal d)) (eu_Data e))))"
  have "adds ?f (be32_if True i @ be32_if (eu_WithExpiry e) (eu_Expiry e) @ key_enc k @ concat (map data_enc (eu_Data e)))"
    using k(2) by (intro put32_adds putter.adds_put [OF kp] putter.adds_put_all [OF dp]) simp_all
  then have "adds ?f (entry_enc (numbered i e))"
    by (simp add: numbered_enc body_enc_def k(1) be32_if_def)
  from adds_0 [OF this assms(2)] show ?thesis by (simp add: marshalEntry_def put32_if_def k(1))
qed

text \<open>Entries the writer can send: the key fits its table, and the message the scratch buffer.\<close>

definition sendable :: "entry_update \<Rightarrow> bool" where
  "sendable e \<longleftrightarrow> entry_key_ok e \<and> length (entry_enc (numbered 0 e)) \<le> 65536"

definition pw_ready :: "pwriter \<Rightarrow> bool" where
  "pw_ready w \<longleftrightarrow> \<not> pw_locked w \<and> slen (pw_buf w) = 65536 \<and> bw_err (pw_bw w) = None"

lemma length_numbered: "length (entry_enc (numbered i e)) = length (entry_enc (numbered 0 e))"
  by (simp add: numbered_enc)

lemma put_entry_sent:
  assumes "sendable e" and "slen (pw_buf w) = 65536"
  obtains w' where "put_entry e w = (w', Ret (bw_err (pw_bw w')))"
    "wrote (pw_bw w) (entry_msg (pw_nextUpdateID w) e) (pw_bw w')" "slen (pw_buf w') = 65536"
    "pw_nextUpdateID w' = pw_nextUpdateID w + 1" "pw_locked w' = pw_locked w"
proof -
  let ?enc = "entry_enc (numbered (pw_nextUpdateID w) e)"
  from assms have e: "entry_key_ok e" "length ?enc \<le> slen (pw_buf w)"
    by (simp_all add: sendable_def length_numbered [of "pw_nextUpdateID w"])
  let ?buf = "Slice (?enc @ drop (length ?enc) (vis (pw_buf w))) (spare (pw_buf w))"
  let ?v = "w\<lparr>pw_nextUpdateID := pw_nextUpdateID w + 1, pw_buf := ?buf\<rparr>"
  obtain bw where "writeMessageLocked MessageClassStickTableUpdates (entry_type e) ?enc ?v =
      (?v\<lparr>pw_bw := bw\<rparr>, Ret (bw_err bw))"
    "wrote (pw_bw ?v) (msg_enc MessageClassStickTableUpdates (entry_type e) ?enc) bw"
    by (rule writeMessageLocked_wrote)
  with marshalEntry_fits [OF e] e assms(2) show ?thesis
    by (intro that [of "?v\<lparr>pw_bw := bw\<rparr>"]) (simp_all add: put_entry_def entry_msg_def)
qed

lemma put_entries_sent:
  assumes "\<forall>e \<in> set es. sendable e" and "slen (pw_buf w) = 65536" and "bw_err (pw_bw w) = None"
  shows "\<exists>w'. put_entries es w = (w', Ret (bw_err (pw_bw w'))) \<and>
    wrote (pw_bw w) (concat (entry_msgs (pw_nextUpdateID w) es)) (pw_bw w') \<and> slen (pw_buf w') = 65536 \<and>
    pw_locked w' = pw_locked w \<and>
    (bw_err (pw_bw w') = None \<longrightarrow> pw_nextUpdateID w' = pw_nextUpdateID w + of_nat (length es))"
  using assms
proof (induction es arbitrary: w)
  case Nil
  then show ?case by (simp add: wrote_refl)
next
  case (Cons e es)
  then have "sendable e" by simp
  from put_entry_sent [OF this Cons.prems(2)] obtain v where
    v: "put_entry e w = (v, Ret (bw_err (pw_bw v)))" "wrote (pw_bw w) (entry_msg (pw_nextUpdateID w) e) (pw_bw v)"
    "slen (pw_buf v) = 65536" "pw_nextUpdateID v = pw_nextUpdateID w + 1" "pw_locked v = pw_locked w" .
  show ?case
  proof (cases "bw_err (pw_bw v)")
    case None
    with Cons.IH [of v] Cons.prems v(3) obtain w' where w': "put_entries es v = (w', Ret (bw_err (pw_bw w')))"
      "wrote (pw_bw v) (concat (entry_msgs (pw_nextUpdateID v) es)) (pw_bw w')" "slen (pw_buf w') = 65536"
      "pw_locked w' = pw_locked v"
      "bw_err (pw_bw w') = None \<longrightarrow> pw_nextUpdateID w' = pw_nextUpdateID v + of_nat (length es)" by auto
    with wrote_trans [OF v(2) w'(2)] None v show ?thesis by (simp add: algebra_simps)
  next
    case (Some x)
    with v wrote_stop [OF v(2)] show ?thesis by simp
  qed
qed

text \<open>Sending entries: on return everything is with the connection, under consecutive update ids.\<close>

lemma SendEntries_sent:
  assumes "\<forall>e \<in> set es. sendable e" and "pw_ready w"
  shows "\<exists>w'. SendEntries es w = (w', Ret (bw_err (pw_bw w'))) \<and>
    wrote (pw_bw w) (concat (entry_msgs (pw_nextUpdateID w) es)) (pw_bw w') \<and> \<not> pw_locked w' \<and>
    (bw_err (pw_bw w') = None \<longrightarrow> pw_ready w' \<and> bw_buf (pw_bw w') = [] \<and>
       pw_nextUpdateID w' = pw_nextUpdateID w + of_nat (length es))"
proof -
  from assms put_entries_sent [of es "pw_lock w"] obtain v where
    v: "put_entries es (pw_lock w) = (v, Ret (bw_err (pw_bw v)))"
    "wrote (pw_bw w) (concat (entry_msgs (pw_nextUpdateID w) es)) (pw_bw v)" "slen (pw_buf v) = 65536"
    "bw_err (pw_bw v) = None \<longrightarrow> pw_nextUpdateID v = pw_nextUpdateID w + of_nat (length es)"
    by (auto simp: pw_ready_def)
  obtain u err where u: "pw_flush v = (u, err)" by (metis surj_pair)
  note f = pw_flush_writes [OF u]
  show ?thesis
  proof (cases "bw_err (pw_bw v)")
    case None
    from f have "wrote (pw_bw v) [] (pw_bw u)" by (simp add: writes_def)
    from wrote_trans [OF v(2) this] v f u None show ?thesis
      by (auto simp: SendEntries_def pw_ready_def same_rest_def intro!: exI [of _ "pw_unlock u"])
  next
    case (Some x)
    with v show ?thesis by (auto simp: SendEntries_def)
  qed
qed

lemma SendTableDefinition_sent:
  assumes "def_ok d" and "pw_ready w"
  shows "if length (def_enc d) \<le> 4096
    then \<exists>w'. SendTableDefinition d w = (w', Ret (bw_err (pw_bw w'))) \<and>
      wrote (pw_bw w) (def_msg d) (pw_bw w') \<and> \<not> pw_locked w' \<and>
      (bw_err (pw_bw w') = None \<longrightarrow> pw_ready w' \<and> bw_buf (pw_bw w') = [] \<and>
         pw_nextUpdateID w' = pw_nextUpdateID w)
    else SendTableDefinition d w = (w, Ret (Some (ErrWrap ''marshaling table definition'' ErrInsufficientSpace)))"
proof (cases "length (def_enc d) \<le> 4096")
  case True
  let ?ty = StickTableUpdateMessageTypeStickTableDefinition
  obtain v q where v: "writeMessageLocked MessageClassStickTableUpdates ?ty (def_enc d) (pw_lock w) = (v, q)"
    by (metis surj_pair)
  have "?ty \<ge> 128" by (simp add: peer_defs)
  note m = writeMessageLocked_writes [OF v this]
  have w: "write_def d w = (pw_unlock v, q)"
    using True v def.put_fits [OF assms(1), of "replicate 4096 0" "[]"]
    by (simp add: write_def_def put_def_def writeMessage_def)
  obtain u err where u: "Writer_Flush (pw_unlock v) = (u, err)" by (metis surj_pair)
  obtain u' where u': "pw_flush (pw_lock (pw_unlock v)) = (u', err)" "u = pw_unlock u'"
    using u by (auto simp: Writer_Flush_def split: prod.splits)
  note f = pw_flush_writes [OF u'(1)]
  show ?thesis
  proof (cases "bw_err (pw_bw v)")
    case None
    from f m have "wrote (pw_bw w) (def_msg d @ []) (pw_bw u)"
      by (intro wrote_trans [of _ _ "pw_bw v"]) (simp_all add: writes_def def_msg_def u'(2))
    with True w u m f u' None assms(2) show ?thesis
      by (auto simp: SendTableDefinition_def then_flush_def pw_ready_def same_rest_def)
  next
    case (Some x)
    with True w m show ?thesis
      by (auto simp: SendTableDefinition_def then_flush_def def_msg_def writes_def)
  qed
next
  case False
  with def.put_short [OF assms(1), of "replicate 4096 0" "[]"] show ?thesis
    by (auto simp: SendTableDefinition_def then_flush_def write_def_def put_def_def)
qed

end
