(* ===== verification/PeerProtocol.thy ===== *)
theory PeerProtocol
  imports PeerWriter
begin

text \<open>
  The peers connection (peers/protocol.go): raw messages, the handlers of the three message
  classes, and one iteration of \<open>Serve\<close>. The user's handler is a parameter: a function of its
  own state and of the connection's writer, which it finds in its context; \<open>None\<close> is a panic,
  and nothing in the peers library recovers one.
\<close>

section \<open>The client\<close>

record 'h peer_handler =
  HandleUpdate :: "gerr option \<Rightarrow> entry_update \<Rightarrow> 'h \<times> pwriter \<Rightarrow> ('h \<times> pwriter) option"
  HandlerClose :: "'h \<Rightarrow> ('h \<times> gerr option) option"

text \<open>\<open>pc_ctx\<close> is \<open>ctx.Err()\<close>; the two timers are here as far as they have been started.\<close>

record 'h pclient =
  pc_ctx :: "gerr option"
  pc_w :: pwriter
  pc_nextHeartbeat :: bool
  pc_lastMessageTimer :: bool
  pc_lastTableDefinition :: "table_def option"
  pc_lastEntryUpdate :: "entry_update option"
  pc_h :: 'h

definition newPeerClient :: "'h \<Rightarrow> pwriter \<Rightarrow> 'h pclient" where
  "newPeerClient h w =
     \<lparr>pc_ctx = None, pc_w = w, pc_nextHeartbeat = False, pc_lastMessageTimer = False,
      pc_lastTableDefinition = None, pc_lastEntryUpdate = None, pc_h = h\<rparr>"

definition peer_Close :: "'h peer_handler \<Rightarrow> 'h pclient \<Rightarrow> 'h pclient \<times> gerr option option" where
  "peer_Close hnd c =
     (if pc_ctx c \<noteq> None then (c, Ret (pc_ctx c))
      else
        (case HandlerClose hnd (pc_h c) of
           None \<Rightarrow> (c\<lparr>pc_ctx := Some ErrCanceled\<rparr>, Panic)
         | Some (h, err) \<Rightarrow> (c\<lparr>pc_h := h, pc_ctx := Some ErrCanceled\<rparr>, Ret err)))"

definition lockedWrite :: "byte list \<Rightarrow> pwriter \<Rightarrow> pwriter \<times> gerr option" where
  "lockedWrite d w =
     (case pw_write d (pw_lock w) of
        (w, Some e) \<Rightarrow> (pw_unlock w, Some e)
      | (w, None) \<Rightarrow> (case pw_flush w of (w, err) \<Rightarrow> (pw_unlock w, err)))"

definition resetHeartbeat :: "'h pclient \<Rightarrow> 'h pclient" where
  "resetHeartbeat c = c\<lparr>pc_nextHeartbeat := True\<rparr>"

definition resetLastMessage :: "'h pclient \<Rightarrow> 'h pclient" where
  "resetLastMessage c = c\<lparr>pc_lastMessageTimer := True\<rparr>"

text \<open>One tick of the heartbeat goroutine; the second result says whether it goes on.\<close>

definition heartbeat_tick :: "'h peer_handler \<Rightarrow> 'h pclient \<Rightarrow> 'h pclient \<times> bool option" where
  "heartbeat_tick hnd c =
     (case lockedWrite [MessageClassControl, ControlMessageHeartbeat] (pc_w c) of
        (w, None) \<Rightarrow> (c\<lparr>pc_w := w\<rparr>, Ret True)
      | (w, Some e) \<Rightarrow>
          (case peer_Close hnd (c\<lparr>pc_w := w\<rparr>) of
             (c, None) \<Rightarrow> (c, Panic)
           | (c, Some _) \<Rightarrow> (c, Ret False)))"

section \<open>Raw messages\<close>

record raw_message =
  rm_Data :: "byte list"
  rm_MessageClass :: byte
  rm_MessageType :: byte

definition zero_message :: raw_message where
  "zero_message = \<lparr>rm_Data = [], rm_MessageClass = 0, rm_MessageType = 0\<rparr>"

definition rawMessage_ReadFrom ::
  "raw_message \<Rightarrow> reader \<Rightarrow> (raw_message \<times> reader \<times> nat \<times> gerr option) option" where
  "rawMessage_ReadFrom m r =
     (case ReadFull 2 r of
        (header, Some e, r) \<Rightarrow> Ret (m, r, length header, Some e)
      | (header, None, r) \<Rightarrow>
          let n = length header; m = m\<lparr>rm_MessageClass := header ! 0, rm_MessageType := header ! 1\<rparr> in
          if rm_MessageType m \<ge> 128 then
            (case ReadVarint (rd_data r) of
               ((dataLength, Some e), rd) \<Rightarrow>
                 Ret (m, r\<lparr>rd_data := rd\<rparr>, n, Some (ErrFormat ''failed decoding data length''))
             | ((dataLength, None), rd) \<Rightarrow>
                 if unat dataLength > max_alloc then Panic
                 else
                   (case ReadFull (unat dataLength) (r\<lparr>rd_data := rd\<rparr>) of
                      (d, Some e, r) \<Rightarrow>
                        Ret (m\<lparr>rm_Data := d @ replicate (unat dataLength - length d) 0\<rparr>, r, n + length d,
                          Some (ErrFormat ''failed reading message data''))
                    | (d, None, r) \<Rightarrow>
                        if length d \<noteq> unat dataLength
                        then Ret (m\<lparr>rm_Data := d\<rparr>, r, n + length d, Some (ErrFormat ''invalid amount read''))
                        else Ret (m\<lparr>rm_Data := d\<rparr>, r, n + length d, None)))
          else Ret (m, r, n, None))"

section \<open>The handlers of the message classes\<close>

definition Error_OnMessage :: "byte \<Rightarrow> gerr option" where
  "Error_OnMessage t =
     Some (ErrFormat (if t = ErrorMessageProtocol then ''protocol error''
       else if t = ErrorMessageSizeLimit then ''message size limit''
       else ''unknown error message type''))"

definition Control_OnMessage :: "byte \<Rightarrow> 'h pclient \<Rightarrow> 'h pclient \<times> gerr option" where
  "Control_OnMessage t c =
     (if t = ControlMessageSyncRequest then
        (c\<lparr>pc_w := fst (lockedWrite [MessageClassControl, ControlMessageSyncPartial] (pc_w c))\<rparr>, None)
      else if t = ControlMessageSyncFinished then (c, None)
      else if t = ControlMessageSyncPartial then (c, None)
      else if t = ControlMessageSyncConfirmed then (c, None)
      else if t = ControlMessageHeartbeat then (c, None)
      else (c, Some (ErrFormat ''unknown control message type'')))"

definition is_entry_update :: "byte \<Rightarrow> bool" where
  "is_entry_update t \<longleftrightarrow>
     t = StickTableUpdateMessageTypeEntryUpdate \<or> t = StickTableUpdateMessageTypeUpdateTimed \<or>
     t = StickTableUpdateMessageTypeIncrementalEntryUpdate \<or>
     t = StickTableUpdateMessageTypeIncrementalEntryUpdateTimed"

text \<open>The entry update that is filled in by \<open>Unmarshal\<close>.\<close>

definition start_update :: "byte \<Rightarrow> table_def \<Rightarrow> entry_update option \<Rightarrow> entry_update" where
  "start_update t d prev =
     \<lparr>eu_StickTable = d, eu_Key = None, eu_Data = [],
      eu_WithLocalUpdateID = (t = StickTableUpdateMessageTypeEntryUpdate \<or> t = StickTableUpdateMessageTypeUpdateTimed),
      eu_LocalUpdateID = (case prev of Some e \<Rightarrow> eu_LocalUpdateID e + 1 | None \<Rightarrow> 0),
      eu_WithExpiry = (t = StickTableUpdateMessageTypeUpdateTimed \<or>
        t = StickTableUpdateMessageTypeIncrementalEntryUpdateTimed),
      eu_Expiry = 0\<rparr>"

definition StickTable_OnMessage ::
  "'h peer_handler \<Rightarrow> byte \<Rightarrow> raw_message \<Rightarrow> 'h pclient \<Rightarrow> 'h pclient \<times> gerr option option" where
  "StickTable_OnMessage hnd t m c =
     (if t = StickTableUpdateMessageTypeStickTableDefinition then
        (case Definition_Unmarshal zero_def (Slice (rm_Data m) []) of
           None \<Rightarrow> (c, Panic)
         | Some (std, n, Some e) \<Rightarrow> (c, Ret (Some e))
         | Some (std, n, None) \<Rightarrow> (c\<lparr>pc_lastTableDefinition := Some std\<rparr>, Ret None))
      else if t = StickTableUpdateMessageTypeStickTableSwitch then (c, Ret None)
      else if t = StickTableUpdateMessageTypeUpdateAcknowledge then (c, Ret None)
      else if \<not> is_entry_update t then
        (c, Ret (Some (ErrFormat ''unknown stick-table update message type'')))
      else
        (case pc_lastTableDefinition c of
           None \<Rightarrow> (c, Ret (Some (ErrFormat ''cannot process entry update without table definition'')))
         | Some d \<Rightarrow>
             (case EntryUpdate_Unmarshal (start_update t d (pc_lastEntryUpdate c)) (Slice (rm_Data m) []) of
                None \<Rightarrow> (c, Panic)
              | Some (e, n, Some err) \<Rightarrow> (c, Ret (Some err))
              | Some (e, n, None) \<Rightarrow>
                  let c = c\<lparr>pc_lastEntryUpdate := Some e\<rparr> in
                  (case HandleUpdate hnd (pc_ctx c) e (pc_h c, pc_w c) of
                     None \<Rightarrow> (c, Panic)
                   | Some (h, w) \<Rightarrow> (c\<lparr>pc_h := h, pc_w := w\<rparr>, Ret None)))))"

definition messageHandler ::
  "'h peer_handler \<Rightarrow> raw_message \<Rightarrow> 'h pclient \<Rightarrow> 'h pclient \<times> gerr option option" where
  "messageHandler hnd m c =
     (if rm_MessageClass m = MessageClassControl then
        (case Control_OnMessage (rm_MessageType m) c of (c, err) \<Rightarrow> (c, Ret err))
      else if rm_MessageClass m = MessageClassError then (c, Ret (Error_OnMessage (rm_MessageType m)))
      else if rm_MessageClass m = MessageClassStickTableUpdates then
        StickTable_OnMessage hnd (rm_MessageType m) m c
      else (c, Ret (Some (ErrFormat ''unknown message class''))))"

section \<open>Serve\<close>

datatype peer_serve = PeerServing | PeerReturned "gerr option" | PeerCrashed

record 'h peer_sys =
  ps_client :: "'h pclient"
  ps_in :: reader
  ps_serve :: peer_serve

text \<open>The loop of \<open>Serve\<close>, after the handshake.\<close>

definition peer_Serve_iter :: "'h peer_handler \<Rightarrow> 'h peer_sys \<Rightarrow> 'h peer_sys" where
  "peer_Serve_iter hnd s =
     (let c = ps_client s in
      case rawMessage_ReadFrom zero_message (ps_in s) of
        None \<Rightarrow> s\<lparr>ps_serve := PeerCrashed\<rparr>
      | Some (m, r, n, Some err) \<Rightarrow>
          s\<lparr>ps_in := r,
            ps_serve := PeerReturned
              (if pc_ctx c \<noteq> None then pc_ctx c
               else if err_Is err ErrEOF \<or> err_Is err ErrNetClosed then None
               else Some (ErrFormat ''reading message''))\<rparr>
      | Some (m, r, n, None) \<Rightarrow>
          (case messageHandler hnd m (resetLastMessage c) of
             (c, None) \<Rightarrow> s\<lparr>ps_client := c, ps_in := r, ps_serve := PeerCrashed\<rparr>
           | (c, Some (Some err)) \<Rightarrow>
               s\<lparr>ps_client := c, ps_in := r, ps_serve := PeerReturned (Some (ErrWrap ''message handler'' err))\<rparr>
           | (c, Some None) \<Rightarrow> s\<lparr>ps_client := c, ps_in := r\<rparr>))"

section \<open>Reading messages\<close>

lemma be_pair: "length h = 2 \<Longrightarrow> h = [h ! 0, h ! 1]"
  by (cases h; cases "tl h") auto

lemma rawMessage_ReadFrom_enc:
  assumes "ty < 128 \<longrightarrow> d = []" and "length d \<le> max_alloc"
  shows "rawMessage_ReadFrom zero_message \<lparr>rd_data = msg_enc c ty d @ t, rd_err = e\<rparr> =
    Ret (\<lparr>rm_Data = d, rm_MessageClass = c, rm_MessageType = ty\<rparr>, \<lparr>rd_data = t, rd_err = e\<rparr>, 2 + length d, None)"
proof -
  have l: "unat (of_nat (length d) :: u64) = length d"
    using assms(2) by (simp add: unat_len len_ok_def max_alloc_def)
  have h: "ReadFull 2 \<lparr>rd_data = msg_enc c ty d @ t, rd_err = e\<rparr> =
      ([c, ty], None, \<lparr>rd_data = (if ty \<ge> 128 then varint_enc (of_nat (length d)) else []) @ d @ t, rd_err = e\<rparr>)"
    by (simp add: ReadFull_def msg_enc_def numeral_2_eq_2)
  show ?thesis
  proof (cases "ty \<ge> 128")
    case True
    with assms h l show ?thesis
      by (simp add: rawMessage_ReadFrom_def zero_message_def ReadVarint_enc not_less)
  next
    case False
    with assms h show ?thesis by (simp add: rawMessage_ReadFrom_def zero_message_def)
  qed
qed

text \<open>Every message takes at least its two bytes of header off the input.\<close>

lemma rawMessage_ReadFrom_consumes:
  assumes "rawMessage_ReadFrom m r = Ret (m', r', n, None)"
  shows "length (rd_data r') + 2 \<le> length (rd_data r)"
proof -
  obtain h err r1 where h: "ReadFull 2 r = (h, err, r1)" by (metis prod_cases3)
  from ReadFull_consumes [OF h] have d: "rd_data r = h @ rd_data r1" "err = None \<longleftrightarrow> length h = 2" by auto
  from assms h have [simp]: "err = None" by (auto simp: rawMessage_ReadFrom_def split: option.splits)
  show ?thesis
  proof (cases "h ! 1 \<ge> 128")
    case False
    with assms h d show ?thesis by (simp add: rawMessage_ReadFrom_def)
  next
    case True
    obtain v e rd where v: "ReadVarint (rd_data r1) = ((v, e), rd)" by (metis surj_pair)
    with assms h True have e: "e = None" by (auto simp: rawMessage_ReadFrom_def Let_def split: option.splits)
    from v e obtain xs where x: "rd_data r1 = xs @ rd" by (metis ReadVarint_suffix)
    obtain p e2 r2 where p: "ReadFull (unat v) (r1\<lparr>rd_data := rd\<rparr>) = (p, e2, r2)" by (metis prod_cases3)
    from ReadFull_consumes [OF p] have "rd = p @ rd_data r2" by simp
    moreover from assms h True v e p have "r' = r2"
      by (auto simp: rawMessage_ReadFrom_def Let_def split: option.splits if_splits)
    ultimately show ?thesis using d x by simp
  qed
qed

section \<open>What the handler is given\<close>

text \<open>\<open>def_ok\<close> tables and entries of the types of their table; both as the wire delivers them.\<close>

definition update_ok :: "entry_update \<Rightarrow> bool" where
  "update_ok e \<longleftrightarrow> entry_typed e \<and> def_ok (eu_StickTable e)"

definition client_ok :: "'h pclient \<Rightarrow> bool" where
  "client_ok c \<longleftrightarrow> (\<forall>d. pc_lastTableDefinition c = Some d \<longrightarrow> def_ok d) \<and>
     (\<forall>e. pc_lastEntryUpdate c = Some e \<longrightarrow> update_ok e)"

lemma decoded_update_ok:
  assumes "EntryUpdate_Unmarshal (start_update t d prev) b = Ret (e, n, None)" and "def_ok d"
  shows "update_ok e \<and> eu_StickTable e = d"
  using EntryUpdate_Unmarshal_typed [OF assms(1)] assms(2) by (simp add: start_update_def update_ok_def)

lemma decoded_def_ok: "Definition_Unmarshal zero_def b = Ret (d, n, None) \<Longrightarrow> def_ok d"
  using Definition_Unmarshal_ok by (simp add: zero_def_def)

lemma messageHandler_ok:
  assumes "messageHandler hnd m c = (c', r)" and "client_ok c"
  shows "client_ok c'"
  using assms
  by (auto simp: messageHandler_def Control_OnMessage_def StickTable_OnMessage_def client_ok_def Let_def
      split: if_splits option.splits prod.splits dest: decoded_update_ok decoded_def_ok)

lemma peer_Serve_iter_ok: "client_ok (ps_client s) \<Longrightarrow> client_ok (ps_client (peer_Serve_iter hnd s))"
  using messageHandler_ok [of hnd _ "resetLastMessage (ps_client s)"]
  by (fastforce simp: peer_Serve_iter_def Let_def resetLastMessage_def client_ok_def
      split: option.splits prod.splits)

text \<open>C9: the handler is only ever called with an update whose key and data values have the types
  of its table, under a table definition that is well-formed: two handlers that agree on such
  updates are indistinguishable, whatever bytes the peer sends.\<close>

theorem handler_sees_typed_updates:
  assumes "client_ok (ps_client s)"
    and "\<And>ctx e x. update_ok e \<Longrightarrow> HandleUpdate h1 ctx e x = HandleUpdate h2 ctx e x"
  shows "peer_Serve_iter h1 s = peer_Serve_iter h2 s \<and> client_ok (ps_client (peer_Serve_iter h1 s))"
proof
  have "messageHandler h1 m c = messageHandler h2 m c" if "client_ok c" for m and c :: "'a pclient"
    using that assms(2)
    by (auto simp: messageHandler_def StickTable_OnMessage_def client_ok_def Let_def
        split: option.splits prod.splits dest: decoded_update_ok)
  moreover have "client_ok (resetLastMessage (ps_client s))"
    using assms(1) by (simp add: client_ok_def resetLastMessage_def)
  ultimately show "peer_Serve_iter h1 s = peer_Serve_iter h2 s"
    by (simp add: peer_Serve_iter_def Let_def cong: option.case_cong prod.case_cong)
  show "client_ok (ps_client (peer_Serve_iter h1 s))" by (rule peer_Serve_iter_ok [OF assms(1)])
qed

text \<open>A handler that records the updates it is given.\<close>

definition log_handler :: "entry_update list peer_handler" where
  "log_handler = \<lparr>HandleUpdate = (\<lambda>ctx e x. case x of (h, w) \<Rightarrow> Some (h @ [e], w)), HandlerClose = (\<lambda>h. Some (h, None))\<rparr>"

text \<open>One that crashes on an update of the wrong types.\<close>

definition picky_handler :: "entry_update list peer_handler" where
  "picky_handler = log_handler\<lparr>HandleUpdate := (\<lambda>ctx e x. if update_ok e then HandleUpdate log_handler ctx e x else None)\<rparr>"

definition start_sys :: "'h pclient \<Rightarrow> byte list \<Rightarrow> 'h peer_sys" where
  "start_sys c input = \<lparr>ps_client = c, ps_in = \<lparr>rd_data = input, rd_err = ErrEOF\<rparr>, ps_serve = PeerServing\<rparr>"

lemma handler_sees_typed_updates_witness:
  "peer_Serve_iter log_handler (start_sys (newPeerClient [] (newWriter (open_sink []))) [10, 128, 1, 0]) =
   peer_Serve_iter picky_handler (start_sys (newPeerClient [] (newWriter (open_sink []))) [10, 128, 1, 0])"
  using handler_sees_typed_updates [of "start_sys (newPeerClient [] (newWriter (open_sink []))) [10, 128, 1, 0]"
      log_handler picky_handler]
  by (simp add: start_sys_def newPeerClient_def client_ok_def picky_handler_def)

section \<open>From one writer to another client\<close>

definition received :: "u32 \<Rightarrow> entry_update \<Rightarrow> entry_update" where
  "received i e = (numbered i e)\<lparr>eu_Expiry := if eu_WithExpiry e then eu_Expiry e else 0\<rparr>"

fun received_all :: "u32 \<Rightarrow> entry_update list \<Rightarrow> entry_update list" where
  "received_all i [] = []"
| "received_all i (e # es) = received i e # received_all (i + 1) es"

lemma handle_definition:
  assumes "def_ok d"
  shows "messageHandler hnd \<lparr>rm_Data = def_enc d, rm_MessageClass = MessageClassStickTableUpdates,
      rm_MessageType = StickTableUpdateMessageTypeStickTableDefinition\<rparr> c =
    (c\<lparr>pc_lastTableDefinition := Some d\<rparr>, Ret None)"
  using def.get_enc [OF assms, of "[]" "[]"]
  by (simp add: messageHandler_def StickTable_OnMessage_def peer_defs)

lemma entry_type_cases:
  "entry_type e = StickTableUpdateMessageTypeEntryUpdate \<and> \<not> eu_WithExpiry e \<or>
   entry_type e = StickTableUpdateMessageTypeUpdateTimed \<and> eu_WithExpiry e"
  by (simp add: entry_type_def)

text \<open>What an entry update message does with any handler, and with the recording one.\<close>

definition deliver :: "'h peer_handler \<Rightarrow> entry_update \<Rightarrow> 'h pclient \<Rightarrow> 'h pclient \<times> gerr option option" where
  "deliver hnd e c =
     (let c = c\<lparr>pc_lastEntryUpdate := Some e\<rparr> in
      case HandleUpdate hnd (pc_ctx c) e (pc_h c, pc_w c) of
        None \<Rightarrow> (c, Panic)
      | Some (h, w) \<Rightarrow> (c\<lparr>pc_h := h, pc_w := w\<rparr>, Ret None))"

lemma deliver_log:
  "deliver log_handler e c = (c\<lparr>pc_lastEntryUpdate := Some e, pc_h := pc_h c @ [e]\<rparr>, Ret None)"
  by (simp add: deliver_def log_handler_def)

definition next_id :: "'h pclient \<Rightarrow> u32" where
  "next_id c = (case pc_lastEntryUpdate c of Some e \<Rightarrow> eu_LocalUpdateID e + 1 | None \<Rightarrow> 0)"

definition update_type :: "entry_update \<Rightarrow> byte" where
  "update_type e =
     (if eu_WithLocalUpdateID e then entry_type e
      else if eu_WithExpiry e then StickTableUpdateMessageTypeIncrementalEntryUpdateTimed
      else StickTableUpdateMessageTypeIncrementalEntryUpdate)"

lemma handle_update:
  assumes "entry_ok e" and "pc_lastTableDefinition c = Some (eu_StickTable e)"
  shows "messageHandler hnd \<lparr>rm_Data = entry_enc e, rm_MessageClass = MessageClassStickTableUpdates,
      rm_MessageType = update_type e\<rparr> c =
    deliver hnd (e\<lparr>eu_LocalUpdateID := if eu_WithLocalUpdateID e then eu_LocalUpdateID e else next_id c,
      eu_Expiry := if eu_WithExpiry e then eu_Expiry e else 0\<rparr>) c"
proof -
  let ?e = "e\<lparr>eu_LocalUpdateID := if eu_WithLocalUpdateID e then eu_LocalUpdateID e else next_id c,
      eu_Expiry := if eu_WithExpiry e then eu_Expiry e else 0\<rparr>"
  have "rest (Slice (entry_enc e) []) 0 (entry_enc e @ [])" by simp
  note u = EntryUpdate_Unmarshal_rest [OF this assms(1), of "next_id c" 0]
  have "start_update (update_type e) (eu_StickTable e) (pc_lastEntryUpdate c) = entry_header e (next_id c) 0"
    by (cases "eu_WithLocalUpdateID e"; cases "eu_WithExpiry e")
      (simp_all add: start_update_def entry_header_def update_type_def entry_type_def next_id_def peer_defs)
  moreover have "is_entry_update (update_type e)"
    "update_type e \<noteq> StickTableUpdateMessageTypeStickTableDefinition"
    "update_type e \<noteq> StickTableUpdateMessageTypeStickTableSwitch"
    "update_type e \<noteq> StickTableUpdateMessageTypeUpdateAcknowledge"
    by (simp_all add: is_entry_update_def update_type_def entry_type_def peer_defs)
  ultimately show ?thesis
    using assms(2) u
    by (simp add: messageHandler_def StickTable_OnMessage_def deliver_def Let_def peer_defs(7-10)
        split del: if_split)
qed

lemma handle_entry:
  assumes "entry_ok e" and "pc_lastTableDefinition c = Some (eu_StickTable e)"
  shows "messageHandler hnd \<lparr>rm_Data = entry_enc (numbered i e),
      rm_MessageClass = MessageClassStickTableUpdates, rm_MessageType = entry_type e\<rparr> c =
    deliver hnd (received i e) c"
proof -
  have "entry_ok (numbered i e)" using assms(1)
    by (simp add: entry_ok_def numbered_def entry_typed_def entry_key_ok_def)
  from handle_update [OF this, of c hnd] assms(2) show ?thesis
    by (simp add: numbered_def received_def update_type_def entry_type_def)
qed

section \<open>Updates, identifiers and errors\<close>

text \<open>C35: an update with the types of its table and well-formed values (\<open>entry_ok\<close>: dictionary values of
  two bytes or more, binary keys of exactly the key length, addresses of their kind without a zone)
  reaches the handler once, with the key and data that were sent. An incremental one carries no
  update id: it gets the one after that of the last update of the connection, wrapping around after
  32 bits, or 0 if it is the first; an update with an id is delivered with that.\<close>

theorem update_ids:
  assumes "entry_ok e" and "pc_lastTableDefinition c = Some (eu_StickTable e)"
  shows "\<exists>e'. messageHandler log_handler \<lparr>rm_Data = entry_enc e, rm_MessageClass = MessageClassStickTableUpdates,
      rm_MessageType = update_type e\<rparr> c = (c\<lparr>pc_lastEntryUpdate := Some e', pc_h := pc_h c @ [e']\<rparr>, Ret None) \<and>
    eu_LocalUpdateID e' = (if eu_WithLocalUpdateID e then eu_LocalUpdateID e
      else case pc_lastEntryUpdate c of Some p \<Rightarrow> eu_LocalUpdateID p + 1 | None \<Rightarrow> 0) \<and>
    eu_Key e' = eu_Key e \<and> eu_Data e' = eu_Data e \<and> eu_StickTable e' = eu_StickTable e"
  unfolding handle_update [OF assms] deliver_log
  by (rule exI, intro conjI, rule refl) (simp_all add: next_id_def)

lemma update_ids_witness:
  "\<exists>c e'. messageHandler log_handler \<lparr>rm_Data = entry_enc (demo_entry\<lparr>eu_WithLocalUpdateID := False\<rparr>),
      rm_MessageClass = MessageClassStickTableUpdates, rm_MessageType = 134\<rparr>
      ((newPeerClient [] (newWriter (open_sink [])))\<lparr>pc_lastTableDefinition := Some demo_table,
        pc_lastEntryUpdate := Some (demo_entry\<lparr>eu_LocalUpdateID := 0xFFFFFFFF\<rparr>)\<rparr>) = (c, Ret None) \<and>
    pc_h c = [e'] \<and> eu_LocalUpdateID e' = 0"
proof -
  let ?e = "demo_entry\<lparr>eu_WithLocalUpdateID := False\<rparr>"
  let ?c = "(newPeerClient ([] :: entry_update list) (newWriter (open_sink [])))\<lparr>pc_lastTableDefinition := Some demo_table,
        pc_lastEntryUpdate := Some (demo_entry\<lparr>eu_LocalUpdateID := 0xFFFFFFFF\<rparr>)\<rparr>"
  have ok: "entry_ok ?e" using demo_entry_ok
    by (simp add: entry_ok_def entry_typed_def entry_key_ok_def)
  have tab: "pc_lastTableDefinition ?c = Some (eu_StickTable ?e)" by (simp add: demo_entry_def)
  from update_ids [OF ok tab] obtain e' where m: "messageHandler log_handler \<lparr>rm_Data = entry_enc ?e,
      rm_MessageClass = MessageClassStickTableUpdates, rm_MessageType = update_type ?e\<rparr> ?c =
      (?c\<lparr>pc_lastEntryUpdate := Some e', pc_h := pc_h ?c @ [e']\<rparr>, Ret None)"
    and i: "eu_LocalUpdateID e' = (if eu_WithLocalUpdateID ?e then eu_LocalUpdateID ?e
      else case pc_lastEntryUpdate ?c of Some p \<Rightarrow> eu_LocalUpdateID p + 1 | None \<Rightarrow> 0)"
    by (elim exE conjE) (rule that, assumption+)
  have ty: "update_type ?e = 134" by (simp add: update_type_def demo_entry_def peer_defs)
  have h: "pc_h (?c\<lparr>pc_lastEntryUpdate := Some e', pc_h := pc_h ?c @ [e']\<rparr>) = [e']"
    by (simp add: newPeerClient_def)
  have i0: "eu_LocalUpdateID e' = 0" unfolding i by simp
  show ?thesis
    by (rule exI, rule exI [of _ e'], intro conjI, rule m [unfolded ty], rule h, rule i0)
qed

text \<open>Messages of an unknown class or type, error messages, and entry updates before any table
  definition are errors; they change nothing, and the handler does not run. An update that comes
  before a definition is not buffered: the connection ends.\<close>

lemma messages_rejected:
  assumes "rm_MessageClass m \<notin> {MessageClassControl, MessageClassStickTableUpdates} \<or>
    rm_MessageClass m = MessageClassControl \<and> rm_MessageType m > ControlMessageHeartbeat \<or>
    rm_MessageClass m = MessageClassStickTableUpdates \<and>
      (rm_MessageType m < 128 \<or> rm_MessageType m > 134 \<or>
       is_entry_update (rm_MessageType m) \<and> pc_lastTableDefinition c = None)"
  shows "\<exists>e. messageHandler hnd m c = (c, Ret (Some e))"
  using assms
  by (elim disjE conjE)
    (auto simp: messageHandler_def Error_OnMessage_def Control_OnMessage_def StickTable_OnMessage_def
      is_entry_update_def peer_defs)

lemma messages_rejected_witness:
  "\<exists>e. messageHandler log_handler \<lparr>rm_Data = [0, 0, 0, 1], rm_MessageClass = 10, rm_MessageType = 128\<rparr>
     (newPeerClient [] (newWriter (open_sink []))) = (newPeerClient [] (newWriter (open_sink [])), Ret (Some e))"
  by (rule messages_rejected) (simp add: peer_defs is_entry_update_def newPeerClient_def)

text \<open>C36: an entry update of fewer than four bytes, or for a table whose key type the library does
  not implement (such as a method or any type), panics; nothing recovers it, so one message of the
  peer ends the program.\<close>

theorem short_update_panics:
  assumes "ps_in s = \<lparr>rd_data = msg_enc MessageClassStickTableUpdates StickTableUpdateMessageTypeEntryUpdate d @ t, rd_err = e\<rparr>"
    and "length d \<le> max_alloc" and "pc_lastTableDefinition (ps_client s) = Some T"
    and "length d < 4 \<or> td_KeyType T \<in> {KeyTypeAny, KeyTypeBoolean, KeyTypeAddress, KeyTypeMethod}"
  shows "ps_serve (peer_Serve_iter hnd s) = PeerCrashed"
proof -
  let ?ty = StickTableUpdateMessageTypeEntryUpdate
  have "KeyType_New (td_KeyType T) = Panic" if "\<not> length d < 4"
    using that assms(4) by (auto simp: KeyType_New_def stick_defs)
  then have "EntryUpdate_Unmarshal (start_update ?ty T prev) (Slice d []) = Panic" for prev
    by (cases "length d < 4")
      (auto simp: EntryUpdate_Unmarshal_def start_update_def get32_if_def Uint32_def peer_defs bind_eq_None_conv
        split: if_splits)
  then have "messageHandler hnd \<lparr>rm_Data = d, rm_MessageClass = MessageClassStickTableUpdates, rm_MessageType = ?ty\<rparr> c =
      (c, Panic)" if "pc_lastTableDefinition c = Some T" for c :: "'a pclient"
    using that by (simp add: messageHandler_def StickTable_OnMessage_def is_entry_update_def peer_defs)
  with assms(1,2,3) rawMessage_ReadFrom_enc [of ?ty d MessageClassStickTableUpdates t e] show ?thesis
    by (simp add: peer_Serve_iter_def Let_def resetLastMessage_def peer_defs)
qed

lemma short_update_panics_witness:
  "ps_serve (peer_Serve_iter log_handler (start_sys
     ((newPeerClient [] (newWriter (open_sink [])))\<lparr>pc_lastTableDefinition := Some demo_table\<rparr>)
     (msg_enc MessageClassStickTableUpdates StickTableUpdateMessageTypeEntryUpdate [0, 0] @ []))) = PeerCrashed"
  by (rule short_update_panics [where d = "[0, 0]"]) (simp_all add: start_sys_def max_alloc_def)

end
