(* ===== verification/Peers.thy ===== *)
theory Peers
  imports PeerProtocol
begin

text \<open>
  Two ends of a peers connection put together, and the steps of one connection: \<open>Serve\<close>, the
  heartbeat, the timer of the last message, and writers in other goroutines, which share the
  connection's output under its mutex.
\<close>

section \<open>Replication\<close>

lemma iter_message:
  assumes "rawMessage_ReadFrom zero_message (ps_in s) = Ret (m, r, n, None)"
    and "messageHandler hnd m (resetLastMessage (ps_client s)) = (c, Ret None)"
  shows "peer_Serve_iter hnd s = s\<lparr>ps_client := c, ps_in := r\<rparr>"
  using assms by (simp add: peer_Serve_iter_def Let_def)

lemma serve_entry:
  assumes "entry_ok e" and "sendable e" and "pc_lastTableDefinition c = Some (eu_StickTable e)"
    and "deliver hnd (received i e) (resetLastMessage c) = (c', Ret None)"
  shows "peer_Serve_iter hnd (start_sys c (entry_msg i e @ t)) = start_sys c' t"
proof -
  let ?e = "entry_enc (numbered i e)"
  let ?m = "\<lparr>rm_Data = ?e, rm_MessageClass = MessageClassStickTableUpdates, rm_MessageType = entry_type e\<rparr>"
  have "length ?e \<le> max_alloc"
    using assms(2) by (simp add: sendable_def length_numbered [of i] max_alloc_def)
  then have "rawMessage_ReadFrom zero_message (ps_in (start_sys c (entry_msg i e @ t))) =
      Ret (?m, \<lparr>rd_data = t, rd_err = ErrEOF\<rparr>, 2 + length ?e, None)"
    using rawMessage_ReadFrom_enc [of "entry_type e" ?e MessageClassStickTableUpdates]
    by (simp add: start_sys_def entry_msg_def)
  moreover have "messageHandler hnd ?m (resetLastMessage c) = (c', Ret None)"
    using handle_entry [OF assms(1), of "resetLastMessage c" hnd i] assms(3,4) by (simp add: resetLastMessage_def)
  ultimately show ?thesis by (simp add: iter_message start_sys_def)
qed

lemma serve_entries:
  assumes "\<forall>e \<in> set es. entry_ok e \<and> eu_StickTable e = d \<and> sendable e"
    and "pc_lastTableDefinition c = Some d"
  shows "\<exists>c'. (peer_Serve_iter log_handler ^^ length es) (start_sys c (concat (entry_msgs i es) @ t)) =
      start_sys c' t \<and> pc_h c' = pc_h c @ received_all i es \<and> pc_w c' = pc_w c \<and> pc_ctx c' = pc_ctx c \<and>
      pc_lastTableDefinition c' = Some d"
  using assms
proof (induction es arbitrary: i c)
  case Nil
  then show ?case by (intro exI [of _ c]) simp
next
  case (Cons e es)
  let ?s = "start_sys c (concat (entry_msgs i (e # es)) @ t)"
  let ?c = "(resetLastMessage c)\<lparr>pc_lastEntryUpdate := Some (received i e), pc_h := pc_h c @ [received i e]\<rparr>"
  have "peer_Serve_iter log_handler ?s = start_sys ?c (concat (entry_msgs (i + 1) es) @ t)"
    using serve_entry [of e c log_handler i ?c "concat (entry_msgs (i + 1) es) @ t"] Cons.prems
    by (simp add: deliver_log resetLastMessage_def)
  moreover from Cons.IH [of ?c "i + 1"] Cons.prems obtain c' where
    "(peer_Serve_iter log_handler ^^ length es) (start_sys ?c (concat (entry_msgs (i + 1) es) @ t)) = start_sys c' t"
    "pc_h c' = pc_h c @ received_all i (e # es)" "pc_w c' = pc_w c" "pc_ctx c' = pc_ctx c"
    "pc_lastTableDefinition c' = Some d"
    by (auto simp: resetLastMessage_def)
  ultimately show ?case by (auto simp: funpow_Suc_right simp del: funpow.simps)
qed

lemma serve_definition:
  assumes "def_ok d" and "length (def_enc d) \<le> 4096"
  shows "peer_Serve_iter hnd (start_sys c (def_msg d @ t)) =
    start_sys ((resetLastMessage c)\<lparr>pc_lastTableDefinition := Some d\<rparr>) t"
proof -
  have "length (def_enc d) \<le> max_alloc" using assms(2) by (simp add: max_alloc_def)
  with rawMessage_ReadFrom_enc [of StickTableUpdateMessageTypeStickTableDefinition "def_enc d"
      MessageClassStickTableUpdates t ErrEOF] handle_definition [OF assms(1), of hnd "resetLastMessage c"]
  show ?thesis
    by (intro iter_message [THEN trans]) (simp_all add: start_sys_def def_msg_def peer_defs)
qed

lemma serve_eof:
  "pc_ctx c = None \<Longrightarrow> peer_Serve_iter hnd (start_sys c []) =
     \<lparr>ps_client = c, ps_in = \<lparr>rd_data = [], rd_err = ErrEOF\<rparr>, ps_serve = PeerReturned None\<rparr>"
  by (simp add: peer_Serve_iter_def start_sys_def rawMessage_ReadFrom_def ReadFull_def Let_def)

text \<open>A connection that does not fail, with everything passed on.\<close>

definition pw_flushed :: "pwriter \<Rightarrow> bool" where
  "pw_flushed w \<longleftrightarrow> pw_ready w \<and> bw_buf (pw_bw w) = [] \<and> healthy (bw_wr (pw_bw w))"

abbreviation pw_out :: "pwriter \<Rightarrow> byte list" where
  "pw_out w \<equiv> sk_out (bw_wr (pw_bw w))"

lemma wrote_open:
  assumes "pw_flushed w" and "wrote (pw_bw w) p (pw_bw w')"
  shows "bw_err (pw_bw w') = None \<and> bw_stream (pw_bw w') = pw_out w @ p \<and> healthy (bw_wr (pw_bw w'))"
  using assms by (auto simp: pw_flushed_def pw_ready_def wrote_def bw_stream_def)

lemma send_definition_open:
  assumes "def_ok d" and "length (def_enc d) \<le> 4096" and "pw_flushed w"
  shows "\<exists>w'. SendTableDefinition d w = (w', Ret None) \<and> pw_flushed w' \<and> pw_out w' = pw_out w @ def_msg d \<and>
    pw_nextUpdateID w' = pw_nextUpdateID w"
proof -
  from assms SendTableDefinition_sent [of d w] obtain w' where
    w': "SendTableDefinition d w = (w', Ret (bw_err (pw_bw w')))" "wrote (pw_bw w) (def_msg d) (pw_bw w')"
    "bw_err (pw_bw w') = None \<longrightarrow> pw_ready w' \<and> bw_buf (pw_bw w') = [] \<and> pw_nextUpdateID w' = pw_nextUpdateID w"
    by (auto simp: pw_flushed_def)
  with wrote_open [OF assms(3) w'(2)] show ?thesis by (auto simp: pw_flushed_def bw_stream_def)
qed

lemma send_entries_open:
  assumes "\<forall>e \<in> set es. sendable e" and "pw_flushed w"
  shows "\<exists>w'. SendEntries es w = (w', Ret None) \<and> pw_flushed w' \<and>
    pw_out w' = pw_out w @ concat (entry_msgs (pw_nextUpdateID w) es) \<and>
    pw_nextUpdateID w' = pw_nextUpdateID w + of_nat (length es)"
proof -
  from assms SendEntries_sent [of es w] obtain w' where
    w': "SendEntries es w = (w', Ret (bw_err (pw_bw w')))"
    "wrote (pw_bw w) (concat (entry_msgs (pw_nextUpdateID w) es)) (pw_bw w')"
    "bw_err (pw_bw w') = None \<longrightarrow> pw_ready w' \<and> bw_buf (pw_bw w') = [] \<and>
       pw_nextUpdateID w' = pw_nextUpdateID w + of_nat (length es)"
    by (auto simp: pw_flushed_def)
  with wrote_open [OF assms(2) w'(2)] show ?thesis by (auto simp: pw_flushed_def bw_stream_def)
qed

text \<open>Replication: what one side sends with \<open>SendTableDefinition\<close> and \<open>SendEntries\<close> over a
  connection that does not fail, \<open>Serve\<close> of the other side delivers: it learns the table, its
  handler gets every entry once, in order, with its key and data and consecutive update ids (which
  wrap around), and \<open>Serve\<close> returns without an error at the end of the connection.\<close>

lemma replication:
  assumes "def_ok d" and "length (def_enc d) \<le> 4096"
    and "\<forall>e \<in> set es. entry_ok e \<and> eu_StickTable e = d \<and> sendable e" and "pw_flushed w"
  shows "\<exists>w1 w2 bytes. SendTableDefinition d w = (w1, Ret None) \<and> SendEntries es w1 = (w2, Ret None) \<and>
    pw_out w2 = pw_out w @ bytes \<and>
    (\<forall>c. pc_ctx c = None \<longrightarrow>
      (\<exists>c'. (peer_Serve_iter log_handler ^^ (length es + 2)) (start_sys c bytes) =
          \<lparr>ps_client = c', ps_in = \<lparr>rd_data = [], rd_err = ErrEOF\<rparr>, ps_serve = PeerReturned None\<rparr> \<and>
        pc_h c' = pc_h c @ received_all (pw_nextUpdateID w) es \<and> pc_w c' = pc_w c))"
proof -
  from send_definition_open [OF assms(1,2,4)] obtain w1 where
    w1: "SendTableDefinition d w = (w1, Ret None)" "pw_flushed w1" "pw_out w1 = pw_out w @ def_msg d"
    "pw_nextUpdateID w1 = pw_nextUpdateID w" by blast
  from send_entries_open [OF _ w1(2), of es] assms(3) obtain w2 where
    w2: "SendEntries es w1 = (w2, Ret None)"
    "pw_out w2 = pw_out w1 @ concat (entry_msgs (pw_nextUpdateID w1) es)" by blast
  let ?i = "pw_nextUpdateID w"
  let ?bytes = "def_msg d @ concat (entry_msgs ?i es)"
  have "\<exists>c'. (peer_Serve_iter log_handler ^^ (length es + 2)) (start_sys c ?bytes) =
          \<lparr>ps_client = c', ps_in = \<lparr>rd_data = [], rd_err = ErrEOF\<rparr>, ps_serve = PeerReturned None\<rparr> \<and>
        pc_h c' = pc_h c @ received_all ?i es \<and> pc_w c' = pc_w c" if "pc_ctx c = None" for c
  proof -
    let ?c = "(resetLastMessage c)\<lparr>pc_lastTableDefinition := Some d\<rparr>"
    from serve_entries [OF assms(3), of ?c ?i "[]"] obtain c' where
      c': "(peer_Serve_iter log_handler ^^ length es) (start_sys ?c (concat (entry_msgs ?i es))) = start_sys c' []"
      "pc_h c' = pc_h c @ received_all ?i es" "pc_ctx c' = pc_ctx ?c" "pc_w c' = pc_w c"
      by (auto simp: resetLastMessage_def)
    have "(peer_Serve_iter log_handler ^^ (length es + 2)) (start_sys c ?bytes) =
        peer_Serve_iter log_handler ((peer_Serve_iter log_handler ^^ length es)
          (peer_Serve_iter log_handler (start_sys c ?bytes)))"
      by (simp add: funpow_swap1)
    also have "\<dots> = peer_Serve_iter log_handler (start_sys c' [])"
      by (simp add: serve_definition [OF assms(1,2)] c'(1))
    finally show ?thesis using c'(2,4) serve_eof [of c'] c'(3) that by (simp add: resetLastMessage_def)
  qed
  with w1 w2 show ?thesis by auto
qed

lemma newWriter_flushed: "pw_flushed (newWriter (open_sink out))"
  by (simp add: pw_flushed_def pw_ready_def newWriter_def NewWriterSize_def open_sink_def)

lemma demo_sendable: "sendable demo_entry"
proof -
  have "numbered 77 demo_entry = demo_entry" by (simp add: numbered_def demo_entry_def)
  then have "length (entry_enc (numbered 0 demo_entry)) \<le> 100"
    using demo_entry_length length_numbered [of 77 demo_entry] by simp
  then show ?thesis using demo_entry_ok by (simp add: sendable_def entry_ok_def)
qed

section \<open>The steps of a connection\<close>

text \<open>
  \<open>pn_heartbeat\<close> and \<open>pn_timer\<close>: whether the goroutines \<open>heartbeat\<close> and \<open>lastMessage\<close> still run. A
  step that needs the mutex waits while it is locked; so does \<open>Serve\<close> when its next message makes
  it write. A panic in a goroutine of the user that it recovers leaves the writer as it is.
\<close>

record 'h peer_conn =
  pn_sys :: "'h peer_sys"
  pn_heartbeat :: bool
  pn_timer :: bool

abbreviation pn_client :: "'h peer_conn \<Rightarrow> 'h pclient" where
  "pn_client s \<equiv> ps_client (pn_sys s)"

abbreviation pn_writer :: "'h peer_conn \<Rightarrow> pwriter" where
  "pn_writer s \<equiv> pc_w (pn_client s)"

definition set_client :: "'h pclient \<Rightarrow> 'h peer_conn \<Rightarrow> 'h peer_conn" where
  "set_client c s = s\<lparr>pn_sys := (pn_sys s)\<lparr>ps_client := c\<rparr>\<rparr>"

definition set_writer :: "pwriter \<Rightarrow> 'h peer_conn \<Rightarrow> 'h peer_conn" where
  "set_writer w s = set_client ((pn_client s)\<lparr>pc_w := w\<rparr>) s"

definition crash :: "'h peer_conn \<Rightarrow> 'h peer_conn" where
  "crash s = s\<lparr>pn_sys := (pn_sys s)\<lparr>ps_serve := PeerCrashed\<rparr>\<rparr>"

text \<open>\<open>nc.Close()\<close>: the connection takes no byte any more.\<close>

definition close_writer :: "pwriter \<Rightarrow> pwriter" where
  "close_writer w = w\<lparr>pw_bw := (pw_bw w)\<lparr>bw_wr := close_sink (bw_wr (pw_bw w))\<rparr>\<rparr>"

inductive pstep :: "'h peer_handler \<Rightarrow> 'h peer_conn \<Rightarrow> 'h peer_conn \<Rightarrow> bool" for hnd where
  recv: "ps_serve (pn_sys s) = PeerServing \<Longrightarrow> p = peer_Serve_iter hnd (pn_sys s) \<Longrightarrow>
    \<not> pw_locked (pn_writer s) \<or> pc_w (ps_client p) = pn_writer s \<Longrightarrow> pstep hnd s (s\<lparr>pn_sys := p\<rparr>)"
| beat: "pn_heartbeat s \<Longrightarrow> \<not> pw_locked (pn_writer s) \<Longrightarrow> heartbeat_tick hnd (pn_client s) = (c, Some go) \<Longrightarrow>
    pstep hnd s (set_client c (s\<lparr>pn_heartbeat := go\<rparr>))"
| beat_crash: "pn_heartbeat s \<Longrightarrow> \<not> pw_locked (pn_writer s) \<Longrightarrow> heartbeat_tick hnd (pn_client s) = (c, None) \<Longrightarrow>
    pstep hnd s (crash (set_client c s))"
| timer: "pn_timer s \<Longrightarrow> peer_Close hnd (pn_client s) = (c, Some err) \<Longrightarrow>
    pstep hnd s (set_client c (s\<lparr>pn_timer := False\<rparr>))"
| timer_crash: "pn_timer s \<Longrightarrow> peer_Close hnd (pn_client s) = (c, None) \<Longrightarrow> pstep hnd s (crash (set_client c s))"
| finish: "ps_serve (pn_sys s) = PeerReturned e \<Longrightarrow> peer_Close hnd (pn_client s) = (c, Some err) \<Longrightarrow>
    pstep hnd s (set_client (c\<lparr>pc_w := close_writer (pc_w c)\<rparr>) s)"
| finish_crash: "ps_serve (pn_sys s) = PeerReturned e \<Longrightarrow> peer_Close hnd (pn_client s) = (c, None) \<Longrightarrow>
    pstep hnd s (crash (set_client c s))"
| write_def: "\<not> pw_locked (pn_writer s) \<Longrightarrow> write_def d (pn_writer s) = (w, r) \<Longrightarrow> pstep hnd s (set_writer w s)"
| write_switch: "\<not> pw_locked (pn_writer s) \<Longrightarrow> write_switch i (pn_writer s) = (w, r) \<Longrightarrow>
    pstep hnd s (set_writer w s)"
| flush: "\<not> pw_locked (pn_writer s) \<Longrightarrow> Writer_Flush (pn_writer s) = (w, e) \<Longrightarrow> pstep hnd s (set_writer w s)"
| send_entry: "\<not> pw_locked (pn_writer s) \<Longrightarrow> SendEntry u (pn_writer s) = (w, r) \<Longrightarrow> pstep hnd s (set_writer w s)"
| send_entries: "\<not> pw_locked (pn_writer s) \<Longrightarrow> SendEntries us (pn_writer s) = (w, r) \<Longrightarrow>
    pstep hnd s (set_writer w s)"

section \<open>Whole messages on the wire\<close>

text \<open>The documented use of the context's writer: a handler acts on it through its methods.\<close>

definition peer_handler_ok :: "'h peer_handler \<Rightarrow> bool" where
  "peer_handler_ok hnd \<longleftrightarrow> (\<forall>ctx e h w h' w'. HandleUpdate hnd ctx e (h, w) = Some (h', w') \<longrightarrow>
     (\<exists>ms. writes w ms w'))"

text \<open>The bytes after \<open>start\<close> are whole messages; the last may be cut off, but only after an error.\<close>

definition sent_msgs :: "byte list \<Rightarrow> bufw \<Rightarrow> bool" where
  "sent_msgs start bw \<longleftrightarrow> (\<exists>ms k. (\<forall>m \<in> set ms. is_msg m) \<and> bw_stream bw = start @ take k (concat ms) \<and>
     (bw_err bw = None \<longrightarrow> length (concat ms) \<le> k))"

lemma sent_msgs_writes:
  assumes "sent_msgs start (pw_bw w)" and "writes w ms w'"
  shows "sent_msgs start (pw_bw w')"
proof (cases "bw_err (pw_bw w)")
  case None
  with assms(1) obtain ms0 where ms0: "\<forall>m \<in> set ms0. is_msg m" "bw_stream (pw_bw w) = start @ concat ms0"
    by (auto simp: sent_msgs_def)
  from assms(2) obtain k where k: "k \<le> length (concat ms)" "bw_stream (pw_bw w') = bw_stream (pw_bw w) @ take k (concat ms)"
    "bw_err (pw_bw w') = None \<longrightarrow> k = length (concat ms)" by (auto simp: writes_def wrote_def)
  with ms0 assms(2) show ?thesis
    by (auto simp: sent_msgs_def writes_def intro!: exI [of _ "ms0 @ ms"] exI [of _ "length (concat ms0) + k"])
next
  case (Some e)
  with assms show ?thesis by (simp add: writes_def wrote_def)
qed

lemma lockedWrite_wrote:
  assumes "lockedWrite p w = (w', e)"
  shows "wrote (pw_bw w) p (pw_bw w') \<and> e = bw_err (pw_bw w') \<and> \<not> pw_locked w' \<and>
    (e = None \<longrightarrow> bw_buf (pw_bw w') = [])"
proof -
  obtain bw where w: "pw_write p (pw_lock w) = ((pw_lock w)\<lparr>pw_bw := bw\<rparr>, bw_err bw)"
    "wrote (pw_bw (pw_lock w)) p bw" by (rule pw_write_wrote)
  let ?v = "(pw_lock w)\<lparr>pw_bw := bw\<rparr>"
  obtain u err where u: "pw_flush ?v = (u, err)" by (metis surj_pair)
  from pw_flush_writes [OF u] have f: "wrote bw [] (pw_bw u)" "err = bw_err (pw_bw u)"
    "err = None \<longrightarrow> bw_buf (pw_bw u) = []" by (auto simp: writes_def)
  from wrote_trans [OF w(2) f(1)] have "wrote (pw_bw w) p (pw_bw u)" by simp
  with w u f(2,3) assms show ?thesis
    by (auto simp: lockedWrite_def split: option.splits)
qed

lemma lockedWrite_control:
  assumes "lockedWrite [MessageClassControl, t] w = (w', e)" and "t < 128"
  shows "writes w [[MessageClassControl, t]] w' \<and> e = bw_err (pw_bw w') \<and> \<not> pw_locked w'"
proof -
  have "[MessageClassControl, t] = msg_enc MessageClassControl t []"
    using assms(2) by (simp add: msg_enc_def linorder_not_le [symmetric])
  with assms(2) have "is_msg [MessageClassControl, t]" unfolding is_msg_def by blast
  with lockedWrite_wrote [OF assms(1)] show ?thesis by (simp add: writes_def)
qed

lemma messageHandler_writes:
  assumes "messageHandler hnd m c = (c', r)" and "peer_handler_ok hnd"
  shows "\<exists>ms. writes (pc_w c) ms (pc_w c')"
proof (cases "pc_w c' = pc_w c")
  case True
  then show ?thesis by (auto intro!: exI [of _ "[]"] writes_none)
next
  case False
  then consider
    (sync) "c' = c\<lparr>pc_w := fst (lockedWrite [MessageClassControl, ControlMessageSyncPartial] (pc_w c))\<rparr>"
  | (user) ctx e h' where "HandleUpdate hnd ctx e (pc_h c, pc_w c) = Some (h', pc_w c')"
    using assms(1)
    by (auto simp: messageHandler_def Control_OnMessage_def StickTable_OnMessage_def Let_def
        split: if_splits option.splits prod.splits)
  then show ?thesis
  proof cases
    case sync
    obtain w e where "lockedWrite [MessageClassControl, ControlMessageSyncPartial] (pc_w c) = (w, e)"
      by (metis surj_pair)
    with lockedWrite_control [OF this] sync show ?thesis by (auto simp: peer_defs)
  next
    case user
    with assms(2) show ?thesis unfolding peer_handler_ok_def by blast
  qed
qed

lemma peer_Close_writer: "peer_Close hnd c = (c', r) \<Longrightarrow> pc_w c' = pc_w c"
  by (auto simp: peer_Close_def split: if_splits option.splits)

lemma peer_Serve_iter_writes:
  assumes "peer_handler_ok hnd"
  shows "\<exists>ms. writes (pc_w (ps_client s)) ms (pc_w (ps_client (peer_Serve_iter hnd s)))"
proof -
  have "\<exists>ms. writes (pc_w (ps_client s)) ms (pc_w c')"
    if "messageHandler hnd m (resetLastMessage (ps_client s)) = (c', r)" for m c' r
    using messageHandler_writes [OF that assms] by (simp add: resetLastMessage_def)
  moreover have "\<exists>ms. writes (pc_w (ps_client s)) ms (pc_w (ps_client s))"
    by (auto intro!: exI [of _ "[]"] writes_none)
  ultimately show ?thesis
    by (auto simp: peer_Serve_iter_def Let_def split: option.split prod.split)
qed

lemma heartbeat_writes:
  assumes "heartbeat_tick hnd c = (c', r)"
  shows "\<exists>ms. writes (pc_w c) ms (pc_w c')"
proof -
  obtain w e where w: "lockedWrite [MessageClassControl, ControlMessageHeartbeat] (pc_w c) = (w, e)"
    by (metis surj_pair)
  with assms have "pc_w c' = w"
    by (auto simp: heartbeat_tick_def split: option.splits prod.splits dest: peer_Close_writer)
  with lockedWrite_control [OF w] show ?thesis by (auto simp: peer_defs)
qed

lemma set_client_simps [simp]:
  "pn_client (set_client c s) = c" "ps_in (pn_sys (set_client c s)) = ps_in (pn_sys s)"
  "ps_serve (pn_sys (set_client c s)) = ps_serve (pn_sys s)"
  "pn_writer (set_writer w s) = w" "pn_client (crash s) = pn_client s"
  "pn_client (s\<lparr>pn_heartbeat := b\<rparr>) = pn_client s" "pn_client (s\<lparr>pn_timer := b\<rparr>) = pn_client s"
  by (simp_all add: set_client_def set_writer_def crash_def)

text \<open>One step writes whole messages, or is the end of the connection.\<close>

lemma pstep_writes:
  assumes "pstep hnd s s'" and "peer_handler_ok hnd"
  shows "(\<exists>ms. writes (pn_writer s) ms (pn_writer s')) \<or>
    pn_writer s' = close_writer (pn_writer s) \<and> ps_serve (pn_sys s') \<noteq> PeerServing"
  using assms(1)
proof cases
  case recv
  with peer_Serve_iter_writes [OF assms(2), of "pn_sys s"] show ?thesis by auto
next
  case beat
  with heartbeat_writes show ?thesis by fastforce
next
  case beat_crash
  with heartbeat_writes show ?thesis by fastforce
next
  case (timer c err)
  then show ?thesis by (auto dest: peer_Close_writer intro!: exI [of _ "[]"] writes_none)
next
  case (timer_crash c)
  then show ?thesis by (auto dest: peer_Close_writer intro!: exI [of _ "[]"] writes_none)
next
  case (finish e c err)
  then show ?thesis by (auto dest: peer_Close_writer)
next
  case (finish_crash e c)
  then show ?thesis by (auto dest: peer_Close_writer intro!: exI [of _ "[]"] writes_none)
next
  case (write_def d w r)
  with put_def_writes show ?thesis
    by (fastforce simp: PeerWriter.write_def_def peer_defs)
next
  case (write_switch i w r)
  with put_def_writes show ?thesis
    by (fastforce simp: PeerWriter.write_switch_def peer_defs)
next
  case (flush w e)
  with Writer_Flush_writes show ?thesis by fastforce
next
  case (send_entry u w r)
  with SendEntry_writes show ?thesis by fastforce
next
  case (send_entries us w r)
  with SendEntries_writes show ?thesis by fastforce
qed

lemma sent_msgs_close: "sent_msgs start (pw_bw w) \<Longrightarrow> sent_msgs start (pw_bw (close_writer w))"
  by (simp add: sent_msgs_def close_writer_def bw_stream_def)

text \<open>Whatever the order of received messages, heartbeats, the timer, user goroutines that send
  and the end of the connection, what this side writes is a sequence of whole protocol messages
  after what was there when the connection was set up, and what reached the wire is a prefix of
  it. No message is ever interleaved with another, and only a failing connection cuts one off.\<close>

lemma peer_output_whole_messages:
  assumes "peer_handler_ok hnd" and "rtranclp (pstep hnd) s s'" and "bw_err (pw_bw (pn_writer s)) = None"
  shows "\<exists>ms k rest. (\<forall>m \<in> set ms. is_msg m) \<and>
    pw_out (pn_writer s') @ rest = bw_stream (pw_bw (pn_writer s)) @ take k (concat ms) \<and>
    (bw_err (pw_bw (pn_writer s')) = None \<longrightarrow> length (concat ms) \<le> k)"
proof -
  let ?start = "bw_stream (pw_bw (pn_writer s))"
  from assms(2) have "sent_msgs ?start (pw_bw (pn_writer s'))"
  proof (induction rule: rtranclp_induct)
    case base
    then show ?case by (auto simp: sent_msgs_def intro!: exI [of _ "[]"])
  next
    case (step t u)
    from pstep_writes [OF step.hyps(2) assms(1)] sent_msgs_writes sent_msgs_close step.IH
    show ?case by (metis (no_types, lifting))
  qed
  then show ?thesis unfolding sent_msgs_def bw_stream_def by (metis append_assoc)
qed

definition start_conn :: "'h \<Rightarrow> byte list \<Rightarrow> 'h peer_conn" where
  "start_conn h input =
     \<lparr>pn_sys = start_sys (newPeerClient h (newWriter (open_sink []))) input, pn_heartbeat = True, pn_timer = True\<rparr>"

lemma start_conn_simps [simp]:
  "pn_client (start_conn h i) = newPeerClient h (newWriter (open_sink []))"
  "pc_w (newPeerClient h w) = w" "pc_h (newPeerClient h w) = h" "pc_ctx (newPeerClient h w) = None"
  "ps_serve (pn_sys (start_conn h i)) = PeerServing"
  by (simp_all add: start_conn_def start_sys_def newPeerClient_def)

lemma log_handler_ok: "peer_handler_ok log_handler"
  by (auto simp: peer_handler_ok_def log_handler_def intro!: exI [of _ "[]"] writes_none)

lemma pstep_locked: "pstep hnd s s' \<Longrightarrow> pw_locked (pn_writer s) \<Longrightarrow>
    bw_stream (pw_bw (pn_writer s')) = bw_stream (pw_bw (pn_writer s)) \<and> pw_locked (pn_writer s')"
  by (induction rule: pstep.induct)
    (auto dest: peer_Close_writer simp: close_writer_def bw_stream_def)

text \<open>C38: \<open>SendEntry\<close> has no deferred unlock: when marshalling panics (an entry without a key, say)
  and the calling goroutine recovers, the mutex stays locked, and from then on nothing more is
  ever written on the connection, not even a heartbeat. \<open>SendEntries\<close> unlocks in every case.\<close>

theorem send_entry_panic_blocks:
  assumes "SendEntry u (pn_writer s) = (w, Panic)"
    and "rtranclp (pstep hnd) (set_writer w s) s'"
  shows "pw_locked (pn_writer s') \<and>
    bw_stream (pw_bw (pn_writer s')) = bw_stream (pw_bw (pn_writer (set_writer w s))) \<and>
    (\<forall>us v v' r. SendEntries us v = (v', r) \<longrightarrow> \<not> pw_locked v')"
proof -
  from SendEntry_writes [OF assms(1)] have "pw_locked (pn_writer (set_writer w s))" by auto
  with assms(2) have "pw_locked (pn_writer s') \<and>
      bw_stream (pw_bw (pn_writer s')) = bw_stream (pw_bw (pn_writer (set_writer w s)))"
    by (induction rule: rtranclp_induct) (auto dest: pstep_locked)
  then show ?thesis using SendEntries_writes by blast
qed

lemma send_entry_panic_blocks_witness:
  "\<exists>w. SendEntry (demo_entry\<lparr>eu_Key := None\<rparr>) (newWriter (open_sink [])) = (w, Panic) \<and>
     pw_locked (pn_writer (set_writer w (start_conn [] [])))"
proof -
  let ?e = "demo_entry\<lparr>eu_Key := None\<rparr>" and ?w = "newWriter (open_sink [])"
  have "marshalEntry ?e i b = Panic" for i b
    by (simp add: marshalEntry_def put32_then_def put32_if_def Let_def bind_eq_None_conv)
  then obtain w where w: "SendEntry ?e ?w = (w, Panic)" by (simp add: SendEntry_def put_entry_def Let_def)
  then have "SendEntry ?e (pn_writer (start_conn [] [] :: entry_update list peer_conn)) = (w, Panic)" by simp
  from send_entry_panic_blocks [where hnd = log_handler, OF this rtranclp.rtrancl_refl] w show ?thesis by auto
qed

section \<open>The end of Serve, and what does not end it\<close>

text \<open>\<open>Serve\<close> is a consuming loop: every message is at least its two bytes of header.\<close>

lemma peer_Serve_iter_consumes:
  assumes "ps_serve (peer_Serve_iter hnd s) = PeerServing"
  shows "length (rd_data (ps_in (peer_Serve_iter hnd s))) + 2 \<le> length (rd_data (ps_in s))"
  using assms rawMessage_ReadFrom_consumes [of zero_message "ps_in s"]
  by (auto simp: peer_Serve_iter_def Let_def split: option.splits prod.splits)

interpretation peer_loop: consuming_loop "peer_Serve_iter hnd" "\<lambda>s. ps_serve s = PeerServing" "\<lambda>_. True"
  "\<lambda>s. length (rd_data (ps_in s))" 2 for hnd
  by unfold_locales (auto dest: peer_Serve_iter_consumes)

text \<open>C20: \<open>Serve\<close> ends on every finite input, whatever it holds and whatever the handler does: after
  at most one round per two bytes, and one more.\<close>

theorem peer_serve_ends:
  "\<exists>k \<le> length (rd_data (ps_in s)) div 2 + 1. ps_serve ((peer_Serve_iter hnd ^^ k) s) \<noteq> PeerServing"
  by (rule peer_loop.ends [OF TrueI])

text \<open>C37: the timer of the last message does not end the connection: it cancels the context and calls
  the handler's \<open>Close\<close>, but \<open>Serve\<close> keeps reading from a connection that stays open, and an update
  that arrives afterwards is still given to the handler, with the cancelled context.\<close>

theorem timer_keeps_serving:
  assumes "pn_timer s" and "pc_ctx (pn_client s) = None" and "ps_serve (pn_sys s) = PeerServing"
    and "HandlerClose hnd (pc_h (pn_client s)) = Some (h', err)"
    and "entry_ok e" and "pc_lastTableDefinition (pn_client s) = Some (eu_StickTable e)" and "sendable e"
    and "ps_in (pn_sys s) = \<lparr>rd_data = entry_msg i e @ t, rd_err = x\<rparr>"
    and "HandleUpdate hnd (Some ErrCanceled) (received i e) (h', pn_writer s) = Some (h'', pn_writer s)"
  shows "\<exists>s1 s2. pstep hnd s s1 \<and> pstep hnd s1 s2 \<and> pc_ctx (pn_client s1) = Some ErrCanceled \<and>
    pc_h (pn_client s1) = h' \<and> pn_writer s1 = pn_writer s \<and>
    ps_serve (pn_sys s2) = PeerServing \<and> pc_h (pn_client s2) = h'' \<and> rd_data (ps_in (pn_sys s2)) = t"
proof -
  let ?c = "(pn_client s)\<lparr>pc_h := h', pc_ctx := Some ErrCanceled\<rparr>"
  let ?s1 = "set_client ?c (s\<lparr>pn_timer := False\<rparr>)"
  let ?s2 = "?s1\<lparr>pn_sys := peer_Serve_iter hnd (pn_sys ?s1)\<rparr>"
  let ?e = "entry_enc (numbered i e)"
  have "peer_Close hnd (pn_client s) = (?c, Ret err)" using assms(2,4) by (simp add: peer_Close_def)
  with assms(1) have s1: "pstep hnd s ?s1" by (intro pstep.timer)
  have "length ?e \<le> max_alloc" using assms(7)
    by (simp add: sendable_def length_numbered [of i] max_alloc_def)
  with rawMessage_ReadFrom_enc [of "entry_type e" ?e MessageClassStickTableUpdates t x] have r:
    "rawMessage_ReadFrom zero_message (ps_in (pn_sys ?s1)) =
      Ret (\<lparr>rm_Data = ?e, rm_MessageClass = MessageClassStickTableUpdates, rm_MessageType = entry_type e\<rparr>,
        \<lparr>rd_data = t, rd_err = x\<rparr>, 2 + length ?e, None)"
    using assms(8) by (simp add: entry_msg_def set_client_def)
  have iter: "peer_Serve_iter hnd (pn_sys ?s1) = (pn_sys ?s1)
      \<lparr>ps_client := (resetLastMessage ?c)\<lparr>pc_lastEntryUpdate := Some (received i e), pc_h := h''\<rparr>,
       ps_in := \<lparr>rd_data = t, rd_err = x\<rparr>\<rparr>"
    using handle_entry [OF assms(5), of "resetLastMessage ?c" hnd i] assms(6,9)
    by (intro iter_message [OF r]) (simp add: deliver_def resetLastMessage_def)
  then have "pc_w (ps_client (peer_Serve_iter hnd (pn_sys ?s1))) = pn_writer ?s1"
    by (simp add: resetLastMessage_def)
  with assms(3) have s2: "pstep hnd ?s1 ?s2" by (intro pstep.recv) simp_all
  have "pc_ctx (pn_client ?s1) = Some ErrCanceled" "pc_h (pn_client ?s1) = h'" "pn_writer ?s1 = pn_writer s"
    by simp_all
  moreover have "ps_serve (pn_sys ?s2) = PeerServing" "pc_h (pn_client ?s2) = h''" "rd_data (ps_in (pn_sys ?s2)) = t"
    using iter assms(3) by simp_all
  ultimately show ?thesis using s1 s2 by blast
qed

lemma timer_keeps_serving_witness:
  "\<exists>s1 s2. pstep log_handler ((start_conn [] (entry_msg 5 demo_entry @ []))\<lparr>pn_sys := (start_sys
       ((newPeerClient [] (newWriter (open_sink [])))\<lparr>pc_lastTableDefinition := Some demo_table\<rparr>)
       (entry_msg 5 demo_entry @ []))\<rparr>) s1 \<and> pstep log_handler s1 s2 \<and>
     pc_ctx (pn_client s1) = Some ErrCanceled \<and> pc_h (pn_client s2) = [received 5 demo_entry]"
proof -
  let ?s = "(start_conn [] (entry_msg 5 demo_entry @ []))\<lparr>pn_sys := (start_sys
       ((newPeerClient ([] :: entry_update list) (newWriter (open_sink [])))\<lparr>pc_lastTableDefinition := Some demo_table\<rparr>)
       (entry_msg 5 demo_entry @ []))\<rparr>"
  have "\<exists>s1 s2. pstep log_handler ?s s1 \<and> pstep log_handler s1 s2 \<and> pc_ctx (pn_client s1) = Some ErrCanceled \<and>
      pc_h (pn_client s1) = [] \<and> pn_writer s1 = pn_writer ?s \<and> ps_serve (pn_sys s2) = PeerServing \<and>
      pc_h (pn_client s2) = [received 5 demo_entry] \<and> rd_data (ps_in (pn_sys s2)) = []"
    by (rule timer_keeps_serving [where err = None, OF _ _ _ _ demo_entry_ok _ demo_sendable])
      (simp_all add: start_conn_def start_sys_def log_handler_def demo_entry_def)
  then show ?thesis by blast
qed

end
