(* ===== verification/LineScanner.thy ===== *)
theory LineScanner
  imports NetIO
begin

text \<open>
  What the handshake uses of the standard library to read: a connection that delivers its bytes in
  segments, \<open>bufio.Reader\<close> in front of it, and \<open>bufio.Scanner\<close> with \<open>ScanLines\<close>. The scanner reads
  ahead of the line it returns, so the segments matter: what it has read and not returned stays in
  its own buffer.
\<close>

section \<open>A connection in segments behind \<open>bufio.Reader\<close>\<close>

text \<open>
  Every \<open>Read\<close> of the connection delivers bytes of one segment, which are not empty; after the last
  it returns \<open>bf_err\<close>. \<open>bf_buf\<close> is what the reader holds and has not given out, of a buffer of 4096.
\<close>

record bufr =
  bf_buf :: "byte list"
  bf_segs :: "byte list list"
  bf_err :: gerr

definition push_back :: "byte list \<Rightarrow> byte list list \<Rightarrow> byte list list" where
  "push_back x segs = (if x = [] then segs else x # segs)"

definition bf_Read :: "nat \<Rightarrow> bufr \<Rightarrow> byte list \<times> gerr option \<times> bufr" where
  "bf_Read n r =
     (if bf_buf r \<noteq> [] then (take n (bf_buf r), None, r\<lparr>bf_buf := drop n (bf_buf r)\<rparr>)
      else
        (case bf_segs r of
           [] \<Rightarrow> ([], Some (bf_err r), r)
         | seg # segs \<Rightarrow>
             if n \<ge> 4096 then (take n seg, None, r\<lparr>bf_segs := push_back (drop n seg) segs\<rparr>)
             else (take n (take 4096 seg), None,
               r\<lparr>bf_buf := drop n (take 4096 seg), bf_segs := push_back (drop 4096 seg) segs\<rparr>)))"

text \<open>What is still to be read, and the same as a \<open>reader\<close> of the message loop.\<close>

definition bf_left :: "bufr \<Rightarrow> byte list" where
  "bf_left r = bf_buf r @ concat (bf_segs r)"

definition bf_reader :: "bufr \<Rightarrow> reader" where
  "bf_reader r = \<lparr>rd_data = bf_left r, rd_err = bf_err r\<rparr>"

definition seg_input :: "byte list list \<Rightarrow> gerr \<Rightarrow> bufr" where
  "seg_input segs e = \<lparr>bf_buf = [], bf_segs = segs, bf_err = e\<rparr>"

lemma concat_push_back [simp]: "concat (push_back x segs) = x @ concat segs"
  by (simp add: push_back_def)

lemma take_two: "n \<le> m \<Longrightarrow> take n xs @ drop n (take m xs) @ drop m xs @ ys = xs @ ys"
proof -
  assume "n \<le> m"
  then have "take n xs @ drop n (take m xs) = take m xs"
    using append_take_drop_id [of n "take m xs"] by (simp add: min_def)
  then show ?thesis by (simp flip: append_assoc)
qed

lemma bf_Read_left: "bf_Read n r = (x, err, r') \<Longrightarrow> bf_left r = x @ bf_left r'"
  by (auto simp: bf_Read_def bf_left_def take_two split: if_splits list.splits)

definition bf_measure :: "bufr \<Rightarrow> nat" where
  "bf_measure r = length (bf_left r) + length (bf_segs r)"

lemma bf_Read_decreases: "bf_Read n r = (x, None, r') \<Longrightarrow> 0 < n \<Longrightarrow> bf_measure r' < bf_measure r"
  by (auto simp: bf_Read_def bf_measure_def bf_left_def push_back_def split: if_splits list.splits)

section \<open>\<open>bufio.Scanner\<close>\<close>

text \<open>
  The buffer of the scanner: \<open>sc_start\<close> bytes before its data and \<open>sc_free\<close> after it; \<open>sc_token\<close> is
  what \<open>Text\<close> returns.
\<close>

record scanner =
  sc_start :: nat
  sc_data :: "byte list"
  sc_free :: nat
  sc_err :: "gerr option"
  sc_token :: "byte list"
  sc_rd :: bufr

definition sc_size :: "scanner \<Rightarrow> nat" where
  "sc_size s = sc_start s + length (sc_data s) + sc_free s"

definition NewScanner :: "bufr \<Rightarrow> scanner" where
  "NewScanner r = \<lparr>sc_start = 0, sc_data = [], sc_free = 0, sc_err = None, sc_token = [], sc_rd = r\<rparr>"

definition dropCR :: "byte list \<Rightarrow> byte list" where
  "dropCR l = (if l \<noteq> [] \<and> last l = 13 then butlast l else l)"

definition ScanLines :: "byte list \<Rightarrow> bool \<Rightarrow> nat \<times> byte list option" where
  "ScanLines d atEOF =
     (if 10 \<in> set d then
        let l = takeWhile (\<lambda>b. b \<noteq> 10) d in (length l + 1, Some (dropCR l))
      else if atEOF \<and> d \<noteq> [] then (length d, Some (dropCR d))
      else (0, None))"

text \<open>Shifting the data to the front, or doubling the buffer up to 64 KB; \<open>None\<close> is \<open>ErrTooLong\<close>.\<close>

definition make_room :: "scanner \<Rightarrow> scanner option" where
  "make_room s =
     (let s = (if sc_start s > 0 \<and> (sc_free s = 0 \<or> sc_start s > sc_size s div 2)
               then s\<lparr>sc_start := 0, sc_free := sc_free s + sc_start s\<rparr> else s) in
      if sc_free s = 0 then
        if sc_size s \<ge> 65536 then None
        else Some (s\<lparr>sc_start := 0,
          sc_free := min (if sc_size s = 0 then 4096 else 2 * sc_size s) 65536 - length (sc_data s)\<rparr>)
      else Some s)"

lemma make_room_room:
  assumes "make_room s = Some s'"
  shows "0 < sc_free s'" "sc_rd s' = sc_rd s" "sc_err s' = sc_err s" "sc_data s' = sc_data s"
  using assms by (auto simp: make_room_def sc_size_def Let_def split: if_splits)

lemma room_read_decreases:
  assumes "make_room s = Some s'" "(x, None, r) = bf_Read (sc_free s') (sc_rd s)"
  shows "bf_measure r < bf_measure (sc_rd s)"
  using bf_Read_decreases [OF assms(2) [symmetric]] make_room_room [OF assms(1)] by simp

function Scan :: "scanner \<Rightarrow> scanner \<times> bool" where
  "Scan s =
     (case (if sc_data s \<noteq> [] \<or> sc_err s \<noteq> None then ScanLines (sc_data s) (sc_err s \<noteq> None) else (0, None)) of
        (advance, Some token) \<Rightarrow>
          (s\<lparr>sc_start := sc_start s + advance, sc_data := drop advance (sc_data s), sc_token := token\<rparr>, True)
      | (advance, None) \<Rightarrow>
          if sc_err s \<noteq> None then
            (s\<lparr>sc_start := 0, sc_data := [], sc_free := sc_size s, sc_token := []\<rparr>, False)
          else
            (case make_room s of
               None \<Rightarrow> (s\<lparr>sc_err := Some (ErrFormat ''bufio.Scanner: token too long''), sc_token := []\<rparr>, False)
             | Some s' \<Rightarrow>
                 (case bf_Read (sc_free s') (sc_rd s') of
                    (x, err, r) \<Rightarrow>
                      Scan (s'\<lparr>sc_data := sc_data s' @ x, sc_free := sc_free s' - length x, sc_err := err,
                        sc_rd := r\<rparr>))))"
  by pat_completeness auto
termination
  by (relation "measures [\<lambda>s. if sc_err s = None then 1 else 0, \<lambda>s. bf_measure (sc_rd s)]")
    (auto dest: room_read_decreases simp: make_room_room split: if_splits)

declare Scan.simps [simp del]

definition Scanner_Err :: "scanner \<Rightarrow> gerr option" where
  "Scanner_Err s = (if sc_err s = Some ErrEOF then None else sc_err s)"

section \<open>Lines within the first 4096 bytes\<close>

text \<open>
  The scanner holds a part of the text, and the rest of it comes in the segments \<open>cs\<close>, all of which
  fit into the first buffer. \<open>later\<close> are the segments after them.
\<close>

definition feeding :: "scanner \<Rightarrow> byte list list \<Rightarrow> byte list list \<Rightarrow> gerr \<Rightarrow> bool" where
  "feeding s cs later e \<longleftrightarrow>
     sc_err s = None \<and> (sc_size s = 0 \<or> sc_size s = 4096) \<and> sc_rd s = seg_input (cs @ later) e \<and>
     [] \<notin> set cs \<and> sc_start s + length (sc_data s) + length (concat cs) \<le> 4096"

lemma feeding_start:
  "[] \<notin> set cs \<Longrightarrow> length (concat cs) \<le> 4096 \<Longrightarrow> feeding (NewScanner (seg_input (cs @ later) e)) cs later e"
  by (simp add: feeding_def NewScanner_def sc_size_def)

lemma bf_Read_seg:
  "c \<noteq> [] \<Longrightarrow> length c \<le> n \<Longrightarrow> length c \<le> 4096 \<Longrightarrow>
   bf_Read n (seg_input (c # segs) e) = (c, None, seg_input segs e)"
  by (simp add: bf_Read_def seg_input_def push_back_def)

lemma make_room_feeding:
  assumes "feeding s (c # cs) later e"
  shows "\<exists>s'. make_room s = Some s' \<and> sc_size s' = 4096 \<and> sc_data s' = sc_data s \<and> sc_err s' = None \<and>
    sc_rd s' = sc_rd s \<and> length (concat (c # cs)) \<le> sc_free s' \<and> length c \<le> 4096"
proof -
  from assms have "0 < length c" "sc_start s + length (sc_data s) + (length c + length (concat cs)) \<le> 4096"
    "sc_start s + length (sc_data s) + sc_free s = 0 \<or> sc_start s + length (sc_data s) + sc_free s = 4096"
    "sc_err s = None"
    by (auto simp: feeding_def sc_size_def)
  then show ?thesis
    by (auto simp: make_room_def sc_size_def Let_def)
qed

lemma takeWhile_line: "10 \<notin> set l \<Longrightarrow> takeWhile (\<lambda>b. b \<noteq> 10) (l @ 10 # u) = (l :: byte list)"
  by (induction l) auto

lemma line_unique:
  "10 \<notin> set l \<Longrightarrow> 10 \<notin> set l' \<Longrightarrow> l @ 10 # u = l' @ 10 # u' \<Longrightarrow> l = (l' :: byte list) \<and> u = u'"
  by (metis takeWhile_line append_same_eq list.inject same_append_eq)

lemma ScanLines_line: "10 \<notin> set l \<Longrightarrow> ScanLines (l @ 10 # u) b = (length l + 1, Some (dropCR l))"
  by (simp add: ScanLines_def Let_def takeWhile_line)

lemma Scan_buffered:
  "sc_data s = l @ 10 # u \<Longrightarrow> 10 \<notin> set l \<Longrightarrow>
   Scan s = (s\<lparr>sc_start := sc_start s + (length l + 1), sc_data := u, sc_token := dropCR l\<rparr>, True)"
  by (subst Scan.simps) (simp add: ScanLines_line)

lemma Scan_line:
  assumes "feeding s cs later e" "sc_data s @ concat cs = l @ 10 # u" "10 \<notin> set l"
  shows "\<exists>s' cs1 cs2. Scan s = (s', True) \<and> cs = cs1 @ cs2 \<and> sc_token s' = dropCR l \<and>
    sc_data s' @ concat cs2 = u \<and> feeding s' cs2 later e"
  using assms
proof (induction cs arbitrary: s)
  case Nil
  then have d: "sc_data s = l @ 10 # u" by simp
  then have "Scan s = (s\<lparr>sc_start := sc_start s + (length l + 1), sc_data := u, sc_token := dropCR l\<rparr>, True)"
    using Nil.prems(3) by (rule Scan_buffered)
  with Nil.prems(1) d show ?case
    by (auto simp: feeding_def sc_size_def)
next
  case (Cons c cs)
  show ?case
  proof (cases "10 \<in> set (sc_data s)")
    case True
    then obtain l' u' where d': "sc_data s = l' @ 10 # u'" "10 \<notin> set l'" by (meson split_list_first)
    with Cons.prems(2,3) line_unique [OF d'(2) Cons.prems(3), of "u' @ concat (c # cs)" u] have [simp]: "l' = l"
      by simp
    from d' Cons.prems(2) have u: "u = u' @ concat (c # cs)" by simp
    have "Scan s = (s\<lparr>sc_start := sc_start s + (length l + 1), sc_data := u', sc_token := dropCR l\<rparr>, True)"
      using d' by (intro Scan_buffered) simp_all
    with Cons.prems(1) d' u show ?thesis
      by (intro exI [of _ "s\<lparr>sc_start := sc_start s + (length l + 1), sc_data := u', sc_token := dropCR l\<rparr>"]
          exI [of _ "[]"] exI [of _ "c # cs"]) (auto simp: feeding_def sc_size_def)
  next
    case False
    from make_room_feeding [OF Cons.prems(1)] obtain s1 where s1: "make_room s = Some s1" "sc_size s1 = 4096"
      "sc_data s1 = sc_data s" "sc_err s1 = None" "sc_rd s1 = sc_rd s" "length (concat (c # cs)) \<le> sc_free s1"
      "length c \<le> 4096" by blast
    from Cons.prems(1) have c: "c \<noteq> []" "sc_rd s = seg_input (c # cs @ later) e" "sc_err s = None" "[] \<notin> set cs"
      by (auto simp: feeding_def)
    let ?s = "s1\<lparr>sc_data := sc_data s1 @ c, sc_free := sc_free s1 - length c, sc_err := None,
      sc_rd := seg_input (cs @ later) e\<rparr>"
    have S: "Scan s = Scan ?s"
      using False s1 c by (subst Scan.simps) (simp add: ScanLines_def bf_Read_seg)
    have "feeding ?s cs later e"
      using s1 c by (auto simp: feeding_def sc_size_def)
    from Cons.IH [OF this] Cons.prems(2,3) s1(3) obtain s' cs1 cs2 where
      "Scan ?s = (s', True)" "cs = cs1 @ cs2" "sc_token s' = dropCR l" "sc_data s' @ concat cs2 = u"
      "feeding s' cs2 later e" by auto
    with S show ?thesis
      by (intro exI [of _ s'] exI [of _ "c # cs1"] exI [of _ cs2]) simp
  qed
qed

end
