(* ===== verification/Scanf.thy ===== *)
theory Scanf
  imports Prelude
begin

text \<open>
  What the handshake uses of \<open>fmt.Sscanf\<close>: the verbs \<open>%s\<close> and \<open>%d\<close> and the space between them, on
  one line of text. \<open>Sscanf\<close> works on runes: bytes are decoded as UTF-8, an invalid byte is the
  replacement rune, and a scanned string is encoded again. A line holds no newline, so what \<open>Sscanf\<close>
  does with newlines is left out. Every failure is the same error: the callers only print it.
\<close>

type_synonym rune = nat

section \<open>UTF-8 (unicode/utf8)\<close>

definition cont :: "nat \<Rightarrow> nat \<Rightarrow> byte list \<Rightarrow> nat \<Rightarrow> bool" where
  "cont lo hi bs i \<longleftrightarrow> i < length bs \<and> lo \<le> unat (bs ! i) \<and> unat (bs ! i) \<le> hi"

definition low6 :: "byte list \<Rightarrow> nat \<Rightarrow> nat" where
  "low6 bs i = unat (bs ! i) mod 64"

text \<open>The first rune of a text that is not empty, and its width.\<close>

definition DecodeRune :: "byte list \<Rightarrow> rune \<times> nat" where
  "DecodeRune bs =
     (let b = unat (bs ! 0); bad = (0xFFFD, 1);
          lo = (if b = 0xE0 then 0xA0 else if b = 0xF0 then 0x90 else 0x80);
          hi = (if b = 0xED then 0x9F else if b = 0xF4 then 0x8F else 0xBF) in
      if b < 0x80 then (b, 1)
      else if b < 0xC2 \<or> 0xF4 < b \<or> \<not> cont lo hi bs 1 then bad
      else if b < 0xE0 then ((b mod 32) * 64 + low6 bs 1, 2)
      else if \<not> cont 0x80 0xBF bs 2 then bad
      else if b < 0xF0 then ((b mod 16) * 4096 + low6 bs 1 * 64 + low6 bs 2, 3)
      else if \<not> cont 0x80 0xBF bs 3 then bad
      else ((b mod 8) * 262144 + low6 bs 1 * 4096 + low6 bs 2 * 64 + low6 bs 3, 4))"

lemma DecodeRune_width: "0 < snd (DecodeRune bs)"
  by (simp add: DecodeRune_def Let_def)

function runes :: "byte list \<Rightarrow> rune list" where
  "runes bs = (if bs = [] then [] else fst (DecodeRune bs) # runes (drop (snd (DecodeRune bs)) bs))"
  by pat_completeness auto
termination
  by (relation "measure length") (auto simp: DecodeRune_width)

declare runes.simps [simp del]

definition AppendRune :: "rune \<Rightarrow> byte list" where
  "AppendRune r =
     (if r < 0x80 then [of_nat r]
      else if r < 0x800 then [of_nat (0xC0 + r div 64), of_nat (0x80 + r mod 64)]
      else if 0x10FFFF < r \<or> (0xD800 \<le> r \<and> r \<le> 0xDFFF) then [0xEF, 0xBF, 0xBD]
      else if r < 0x10000 then
        [of_nat (0xE0 + r div 4096), of_nat (0x80 + r div 64 mod 64), of_nat (0x80 + r mod 64)]
      else
        [of_nat (0xF0 + r div 262144), of_nat (0x80 + r div 4096 mod 64), of_nat (0x80 + r div 64 mod 64),
         of_nat (0x80 + r mod 64)])"

definition text_of :: "rune list \<Rightarrow> byte list" where
  "text_of rs = concat (map AppendRune rs)"

section \<open>The verbs\<close>

definition isSpace :: "rune \<Rightarrow> bool" where
  "isSpace r \<longleftrightarrow>
     (9 \<le> r \<and> r \<le> 13) \<or> r = 32 \<or> r = 0x85 \<or> r = 0xA0 \<or> r = 0x1680 \<or> (0x2000 \<le> r \<and> r \<le> 0x200A) \<or>
     r = 0x2028 \<or> r = 0x2029 \<or> r = 0x202F \<or> r = 0x205F \<or> r = 0x3000"

definition SkipSpace :: "rune list \<Rightarrow> rune list" where
  "SkipSpace rs = dropWhile isSpace rs"

definition scan_error :: gerr where
  "scan_error = ErrFormat ''Sscanf''"

text \<open>\<open>%s\<close>: the next word.\<close>

definition scan_s :: "rune list \<Rightarrow> gerr + (byte list \<times> rune list)" where
  "scan_s rs =
     (case SkipSpace rs of
        [] \<Rightarrow> Inl scan_error
      | rs \<Rightarrow> Inr (text_of (takeWhile (\<lambda>r. \<not> isSpace r) rs), dropWhile (\<lambda>r. \<not> isSpace r) rs))"

definition is_digit :: "rune \<Rightarrow> bool" where
  "is_digit r \<longleftrightarrow> 48 \<le> r \<and> r \<le> 57"

definition digits_val :: "rune list \<Rightarrow> nat" where
  "digits_val ds = foldl (\<lambda>n d. 10 * n + (d - 48)) 0 ds"

text \<open>\<open>%d\<close> into an \<open>int\<close>: a sign, digits, and \<open>strconv.ParseInt\<close> with its range of 64 bits.\<close>

definition scan_d :: "rune list \<Rightarrow> gerr + (int \<times> rune list)" where
  "scan_d rs =
     (case SkipSpace rs of
        [] \<Rightarrow> Inl scan_error
      | r # rs' \<Rightarrow>
          let neg = (r = 45); body = (if r = 43 \<or> r = 45 then rs' else r # rs');
              ds = takeWhile is_digit body; n = int (digits_val ds); v = (if neg then - n else n) in
          if ds = [] then Inl scan_error
          else if v < - (2 ^ 63) \<or> 2 ^ 63 \<le> v then Inl scan_error
          else Inr (v, dropWhile is_digit body))"

text \<open>A space in the format: at least one space, or the end of the text.\<close>

definition scan_space :: "rune list \<Rightarrow> gerr + rune list" where
  "scan_space rs =
     (case rs of
        [] \<Rightarrow> Inr []
      | r # rs' \<Rightarrow> if isSpace r then Inr (SkipSpace rs) else Inl scan_error)"

section \<open>Words and numbers in ASCII\<close>

definition word_ok :: "byte list \<Rightarrow> bool" where
  "word_ok w \<longleftrightarrow> w \<noteq> [] \<and> (\<forall>b \<in> set w. 32 < unat b \<and> unat b < 128)"

definition ascii :: "byte list \<Rightarrow> bool" where
  "ascii bs \<longleftrightarrow> (\<forall>b \<in> set bs. unat b < 128)"

lemma runes_ascii: "ascii bs \<Longrightarrow> runes bs = map unat bs"
proof (induction bs)
  case (Cons b bs)
  then have "DecodeRune (b # bs) = (unat b, 1)" by (simp add: DecodeRune_def Let_def ascii_def)
  with Cons show ?case by (subst runes.simps) (simp add: ascii_def)
qed (simp add: runes.simps)

lemma text_of_ascii: "ascii bs \<Longrightarrow> text_of (map unat bs) = bs"
  by (induction bs) (auto simp: text_of_def AppendRune_def ascii_def)

lemma word_not_space: "word_ok w \<Longrightarrow> r \<in> set (map unat w) \<Longrightarrow> \<not> isSpace r"
  by (auto simp: word_ok_def isSpace_def)

lemma word_ascii: "word_ok w \<Longrightarrow> ascii w"
  by (auto simp: word_ok_def ascii_def)

lemma scan_s_word:
  assumes "word_ok w" "rs = [] \<or> (\<exists>r rs'. rs = r # rs' \<and> isSpace r)"
  shows "scan_s (map unat w @ rs) = Inr (w, rs)"
proof -
  from assms(1) obtain r rs' where w: "map unat w = r # rs'" by (cases w) (auto simp: word_ok_def)
  have ns: "\<forall>x \<in> set (map unat w). \<not> isSpace x" using word_not_space [OF assms(1)] by blast
  then have "SkipSpace (map unat w @ rs) = map unat w @ rs"
    by (simp add: SkipSpace_def w)
  moreover have "takeWhile (\<lambda>r. \<not> isSpace r) (map unat w @ rs) = map unat w"
    "dropWhile (\<lambda>r. \<not> isSpace r) (map unat w @ rs) = rs"
    using assms(2) takeWhile_append2 [of "map unat w" "\<lambda>r. \<not> isSpace r" rs]
      dropWhile_append2 [of "map unat w" "\<lambda>r. \<not> isSpace r" rs] ns by auto
  ultimately show ?thesis
    using text_of_ascii [OF word_ascii [OF assms(1)]] by (simp add: scan_s_def w)
qed

lemma scan_space_word: "word_ok w \<Longrightarrow> scan_space (32 # map unat w @ rs) = Inr (map unat w @ rs)"
  by (cases w) (auto simp: scan_space_def SkipSpace_def isSpace_def word_ok_def)

section \<open>Decimal numbers\<close>

lemma show_nat_digits: "\<forall>c \<in> set (show_nat n). 48 \<le> (of_char c :: nat) \<and> (of_char c :: nat) \<le> 57"
proof (induction n rule: show_nat.induct)
  case (1 n)
  then show ?case
    by (subst show_nat.simps) (auto simp: of_char_of)
qed

lemma show_nat_nonempty: "show_nat n \<noteq> []"
  by (subst show_nat.simps) simp

lemma digits_val_snoc: "digits_val (ds @ [d]) = 10 * digits_val ds + (d - 48)"
  by (simp add: digits_val_def)

lemma digits_val_show_nat: "digits_val (map of_char (show_nat n)) = n"
proof (induction n rule: show_nat.induct)
  case (1 n)
  show ?case
  proof (cases "n < 10")
    case True
    then show ?thesis by (simp add: show_nat.simps [of n] digits_val_def)
  next
    case False
    with 1 have "digits_val (map of_char (show_nat (n div 10))) = n div 10" by simp
    with False show ?thesis by (simp add: show_nat.simps [of n] digits_val_snoc)
  qed
qed

lemma unat_str: "map unat (str s) = map of_char s"
proof -
  have "unat (of_char c :: byte) = of_char c" for c
  proof -
    have "unat (of_nat (of_char c) :: byte) = of_char c"
      by (simp add: unat_of_nat del: of_nat_of_char)
    then show ?thesis by (simp only: of_nat_of_char)
  qed
  then show ?thesis by (simp add: str_def)
qed

lemma ascii_show_int: "word_ok (str (show_int i))"
proof -
  have d: "32 < unat b \<and> unat b < 128" if "b \<in> set (str (show_nat n))" for b n
  proof -
    from that have "unat b \<in> set (map unat (str (show_nat n)))" by simp
    with show_nat_digits [of n] show ?thesis by (auto simp only: unat_str set_map)
  qed
  then show ?thesis
    by (auto simp: word_ok_def show_int_def show_nat_nonempty str_def)
qed

lemma digits_then:
  assumes "rs = [] \<or> (\<exists>r rs'. rs = r # rs' \<and> isSpace r)"
  shows "takeWhile is_digit (map of_char (show_nat n) @ rs) = map of_char (show_nat n)"
    "dropWhile is_digit (map of_char (show_nat n) @ rs) = rs"
proof -
  have d: "\<And>x. x \<in> set (map of_char (show_nat n)) \<Longrightarrow> is_digit x"
    using show_nat_digits by (auto simp: is_digit_def)
  have "\<not> is_digit r" if "isSpace r" for r using that by (auto simp: isSpace_def is_digit_def)
  with assms d show "takeWhile is_digit (map of_char (show_nat n) @ rs) = map of_char (show_nat n)"
    "dropWhile is_digit (map of_char (show_nat n) @ rs) = rs"
    using takeWhile_append2 [of "map of_char (show_nat n)" is_digit rs]
      dropWhile_append2 [of "map of_char (show_nat n)" is_digit rs] by auto
qed

lemma scan_d_show_int:
  assumes "- (2 ^ 63) \<le> i" "i < 2 ^ 63" "rs = [] \<or> (\<exists>r rs'. rs = r # rs' \<and> isSpace r)"
  shows "scan_d (map unat (str (show_int i)) @ rs) = Inr (i, rs)"
proof (cases "i < 0")
  case True
  have "map unat (str (show_int i)) = 45 # map of_char (show_nat (nat (- i)))"
    using True by (simp only: unat_str) (simp add: show_int_def)
  then show ?thesis
    using True assms digits_then [OF assms(3), of "nat (- i)"] show_nat_nonempty [of "nat (- i)"]
    by (simp add: scan_d_def SkipSpace_def isSpace_def Let_def digits_val_show_nat)
next
  case False
  obtain d ds where ds: "map of_char (show_nat (nat i)) = (d :: nat) # ds"
    using show_nat_nonempty by (cases "map of_char (show_nat (nat i)) :: nat list") auto
  then have "d \<in> of_char ` set (show_nat (nat i))" by (metis list.set_intros(1) list.set_map)
  with show_nat_digits [of "nat i"] have d: "48 \<le> d" "d \<le> 57" by auto
  have s: "map unat (str (show_int i)) = d # ds"
    using False ds by (simp only: unat_str) (simp add: show_int_def)
  show ?thesis
    using False assms digits_then [OF assms(3), of "nat i"] digits_val_show_nat [of "nat i"] d
    by (simp add: s ds scan_d_def SkipSpace_def isSpace_def Let_def)
qed

end
