(* ===== verification/PeerHandshake.thy ===== *)
theory PeerHandshake
  imports Peers LineScanner Scanf
begin

text \<open>
  The handshake of a peers connection (peers/messages.go, \<open>peerHandshake\<close> and the start of \<open>Serve\<close> in
  peers/protocol.go). The connection delivers its bytes in segments: the line scanner that reads the
  handshake reads ahead, and what it holds when the handshake is over is gone.
\<close>

section \<open>The code\<close>

record handshake =
  hs_ProtocolIdentifier :: "byte list"
  hs_Version :: "byte list"
  hs_RemotePeer :: "byte list"
  hs_LocalPeerIdentifier :: "byte list"
  hs_ProcessID :: int
  hs_RelativeProcessID :: int

definition zero_handshake :: handshake where
  "zero_handshake =
     \<lparr>hs_ProtocolIdentifier = [], hs_Version = [], hs_RemotePeer = [], hs_LocalPeerIdentifier = [],
      hs_ProcessID = 0, hs_RelativeProcessID = 0\<rparr>"

text \<open>\<open>os.Hostname\<close> and \<open>os.Getpid\<close> are arguments.\<close>

definition NewHandshake :: "byte list \<Rightarrow> int \<Rightarrow> byte list \<Rightarrow> handshake" where
  "NewHandshake hostname pid remotePeer =
     \<lparr>hs_ProtocolIdentifier = str ''HAProxyS'', hs_Version = str ''2.1'', hs_RemotePeer = remotePeer,
      hs_LocalPeerIdentifier = hostname, hs_ProcessID = pid, hs_RelativeProcessID = 0\<rparr>"

text \<open>\<open>Sscanf(text, "%s %s", ...)\<close> and \<open>Sscanf(text, "%s %d %d", ...)\<close>.\<close>

definition scan_identifier :: "byte list \<Rightarrow> handshake \<Rightarrow> handshake \<times> gerr option" where
  "scan_identifier txt h =
     (case scan_s (runes txt) of
        Inl e \<Rightarrow> (h, Some e)
      | Inr (w, rs) \<Rightarrow>
          let h = h\<lparr>hs_ProtocolIdentifier := w\<rparr> in
          (case scan_space rs of
             Inl e \<Rightarrow> (h, Some e)
           | Inr rs \<Rightarrow>
               (case scan_s rs of
                  Inl e \<Rightarrow> (h, Some e)
                | Inr (w, rs) \<Rightarrow> (h\<lparr>hs_Version := w\<rparr>, None))))"

definition scan_local :: "byte list \<Rightarrow> handshake \<Rightarrow> handshake \<times> gerr option" where
  "scan_local txt h =
     (case scan_s (runes txt) of
        Inl e \<Rightarrow> (h, Some e)
      | Inr (w, rs) \<Rightarrow>
          let h = h\<lparr>hs_LocalPeerIdentifier := w\<rparr> in
          (case scan_space rs of
             Inl e \<Rightarrow> (h, Some e)
           | Inr rs \<Rightarrow>
               (case scan_d rs of
                  Inl e \<Rightarrow> (h, Some e)
                | Inr (i, rs) \<Rightarrow>
                    let h = h\<lparr>hs_ProcessID := i\<rparr> in
                    (case scan_space rs of
                       Inl e \<Rightarrow> (h, Some e)
                     | Inr rs \<Rightarrow>
                         (case scan_d rs of
                            Inl e \<Rightarrow> (h, Some e)
                          | Inr (i, rs) \<Rightarrow> (h\<lparr>hs_RelativeProcessID := i\<rparr>, None))))))"

text \<open>The byte count that the code returns is always -1.\<close>

definition Handshake_ReadFrom :: "handshake \<Rightarrow> bufr \<Rightarrow> handshake \<times> bufr \<times> gerr option" where
  "Handshake_ReadFrom h r =
     (let s = fst (Scan (NewScanner r)) in
      case scan_identifier (sc_token s) h of
        (h, Some e) \<Rightarrow> (h, sc_rd s, Some e)
      | (h, None) \<Rightarrow>
          let s = fst (Scan s); h = h\<lparr>hs_RemotePeer := sc_token s\<rparr>; s = fst (Scan s) in
          (case scan_local (sc_token s) h of
             (h, Some e) \<Rightarrow> (h, sc_rd s, Some e)
           | (h, None) \<Rightarrow> (h, sc_rd s, Scanner_Err s)))"

definition line1 :: "handshake \<Rightarrow> byte list" where
  "line1 h = hs_ProtocolIdentifier h @ [32] @ hs_Version h"

definition line3 :: "handshake \<Rightarrow> byte list" where
  "line3 h =
     hs_LocalPeerIdentifier h @ [32] @ str (show_int (hs_ProcessID h)) @ [32] @ str (show_int (hs_RelativeProcessID h))"

definition Handshake_WriteTo :: "handshake \<Rightarrow> sink \<Rightarrow> sink \<times> nat \<times> gerr option" where
  "Handshake_WriteTo h w =
     (case Write (line1 h @ [10]) w of
        (w, nw, Some e) \<Rightarrow> (w, nw, Some e)
      | (w, nw, None) \<Rightarrow>
          (case Write (hs_RemotePeer h @ [10]) w of
             (w, n, Some e) \<Rightarrow> (w, nw + n, Some e)
           | (w, n, None) \<Rightarrow>
               (case Write (line3 h @ [10]) w of (w, n', err) \<Rightarrow> (w, nw + n + n', err))))"

text \<open>The handler's third method; like \<open>HandleUpdate\<close> it may use the writer of its context.\<close>

record 'h full_handler = "'h peer_handler" +
  HandleHandshake :: "gerr option \<Rightarrow> handshake \<Rightarrow> 'h \<times> pwriter \<Rightarrow> ('h \<times> pwriter) option"

definition base_handler :: "'h full_handler \<Rightarrow> 'h peer_handler" where
  "base_handler hnd = \<lparr>HandleUpdate = HandleUpdate hnd, HandlerClose = HandlerClose hnd\<rparr>"

definition peerHandshake :: "'h full_handler \<Rightarrow> 'h pclient \<Rightarrow> bufr \<Rightarrow> 'h pclient \<times> bufr \<times> gerr option option" where
  "peerHandshake hnd c r =
     (case Handshake_ReadFrom zero_handshake r of
        (h, r, Some e) \<Rightarrow> (c, r, Ret (Some e))
      | (h, r, None) \<Rightarrow>
          (case HandleHandshake hnd (pc_ctx c) h (pc_h c, pc_w c) of
             None \<Rightarrow> (c, r, Panic)
           | Some (s, w) \<Rightarrow>
               (case lockedWrite (str (show_int HandshakeStatusHandshakeSucceeded) @ [10]) w of
                  (w, Some e) \<Rightarrow> (c\<lparr>pc_h := s, pc_w := w\<rparr>, r, Ret (Some (ErrFormat ''handshake failed'')))
                | (w, None) \<Rightarrow> (c\<lparr>pc_h := s, pc_w := w\<rparr>, r, Ret None))))"

text \<open>\<open>Serve\<close> up to its loop.\<close>

definition peer_Serve_start :: "'h full_handler \<Rightarrow> 'h pclient \<Rightarrow> bufr \<Rightarrow> 'h peer_sys" where
  "peer_Serve_start hnd c r =
     (case peerHandshake hnd c r of
        (c, r, None) \<Rightarrow> \<lparr>ps_client = c, ps_in = bf_reader r, ps_serve = PeerCrashed\<rparr>
      | (c, r, Some (Some e)) \<Rightarrow>
          \<lparr>ps_client = c, ps_in = bf_reader r, ps_serve = PeerReturned (Some (ErrFormat ''handshake''))\<rparr>
      | (c, r, Some None) \<Rightarrow>
          \<lparr>ps_client = resetLastMessage (resetHeartbeat c), ps_in = bf_reader r, ps_serve = PeerServing\<rparr>)"

section \<open>Handshakes as text\<close>

definition hs_text :: "handshake \<Rightarrow> byte list" where
  "hs_text h = line1 h @ [10] @ hs_RemotePeer h @ [10] @ line3 h @ [10]"

definition hs_ok :: "handshake \<Rightarrow> bool" where
  "hs_ok h \<longleftrightarrow>
     word_ok (hs_ProtocolIdentifier h) \<and> word_ok (hs_Version h) \<and> word_ok (hs_LocalPeerIdentifier h) \<and>
     10 \<notin> set (hs_RemotePeer h) \<and> dropCR (hs_RemotePeer h) = hs_RemotePeer h \<and>
     (\<forall>i \<in> {hs_ProcessID h, hs_RelativeProcessID h}. - (2 ^ 63) \<le> i \<and> i < 2 ^ 63)"

lemma word_no_newline: "word_ok w \<Longrightarrow> 10 \<notin> set w"
  by (auto simp: word_ok_def)

lemma dropCR_word: "word_ok w \<Longrightarrow> dropCR (xs @ w) = xs @ w"
proof -
  assume "word_ok w"
  then have "w \<noteq> []" "32 < unat (last w)" by (simp_all add: word_ok_def)
  then show ?thesis by (auto simp: dropCR_def)
qed

lemma space_word_lines:
  assumes "hs_ok h"
  shows "10 \<notin> set (line1 h)" "10 \<notin> set (line3 h)" "dropCR (line1 h) = line1 h" "dropCR (line3 h) = line3 h"
    "ascii (line1 h)" "ascii (line3 h)"
proof -
  from assms have w: "word_ok (hs_ProtocolIdentifier h)" "word_ok (hs_Version h)" "word_ok (hs_LocalPeerIdentifier h)"
    by (simp_all add: hs_ok_def)
  note ws = w ascii_show_int
  from ws [THEN word_no_newline] show "10 \<notin> set (line1 h)" "10 \<notin> set (line3 h)"
    by (auto simp: line1_def line3_def)
  show "dropCR (line1 h) = line1 h" "dropCR (line3 h) = line3 h"
    using dropCR_word [OF w(2), of "hs_ProtocolIdentifier h @ [32]"]
      dropCR_word [OF ascii_show_int [of "hs_RelativeProcessID h"],
        of "hs_LocalPeerIdentifier h @ [32] @ str (show_int (hs_ProcessID h)) @ [32]"]
    by (simp_all add: line1_def line3_def)
  from ws [THEN word_ascii] show "ascii (line1 h)" "ascii (line3 h)"
    by (auto simp: line1_def line3_def ascii_def)
qed

lemma space_32: "isSpace 32"
  by (simp add: isSpace_def)

lemma scan_identifier_line1:
  assumes "hs_ok h"
  shows "scan_identifier (line1 h) h0 =
    (h0\<lparr>hs_ProtocolIdentifier := hs_ProtocolIdentifier h, hs_Version := hs_Version h\<rparr>, None)"
proof -
  have w: "word_ok (hs_ProtocolIdentifier h)" "word_ok (hs_Version h)" using assms by (simp_all add: hs_ok_def)
  have "runes (line1 h) = map unat (hs_ProtocolIdentifier h) @ 32 # map unat (hs_Version h) @ []"
    using runes_ascii [OF space_word_lines(5) [OF assms]] by (simp add: line1_def)
  then show ?thesis
    using scan_s_word [OF w(1), of "32 # map unat (hs_Version h) @ []"] scan_s_word [OF w(2), of "[]"] space_32
      scan_space_word [OF w(2), of "[]"]
    by (simp add: scan_identifier_def Let_def)
qed

lemma scan_local_line3:
  assumes "hs_ok h"
  shows "scan_local (line3 h) h0 =
    (h0\<lparr>hs_LocalPeerIdentifier := hs_LocalPeerIdentifier h, hs_ProcessID := hs_ProcessID h,
      hs_RelativeProcessID := hs_RelativeProcessID h\<rparr>, None)"
proof -
  let ?i = "str (show_int (hs_ProcessID h))" and ?j = "str (show_int (hs_RelativeProcessID h))"
  have w: "word_ok (hs_LocalPeerIdentifier h)" using assms by (simp add: hs_ok_def)
  have b: "- (2 ^ 63) \<le> hs_ProcessID h" "hs_ProcessID h < 2 ^ 63"
    "- (2 ^ 63) \<le> hs_RelativeProcessID h" "hs_RelativeProcessID h < 2 ^ 63"
    using assms by (simp_all add: hs_ok_def)
  have "runes (line3 h) = map unat (hs_LocalPeerIdentifier h) @ 32 # map unat ?i @ 32 # map unat ?j @ []"
    using runes_ascii [OF space_word_lines(6) [OF assms]] by (simp add: line3_def)
  then show ?thesis
    using scan_s_word [OF w, of "32 # map unat ?i @ 32 # map unat ?j @ []"] space_32
      scan_d_show_int [OF b(1,2), of "32 # map unat ?j @ []"] scan_d_show_int [OF b(3,4), of "[]"]
      scan_space_word [OF ascii_show_int, of "hs_ProcessID h" "32 # map unat ?j @ []"]
      scan_space_word [OF ascii_show_int, of "hs_RelativeProcessID h" "[]"]
    by (simp add: scan_local_def Let_def)
qed

section \<open>Reading and writing handshakes\<close>

lemma concat_butlast_last: "cs \<noteq> [] \<Longrightarrow> concat cs = concat (butlast cs) @ last cs"
  using append_butlast_last_id [of cs] by (metis concat.simps concat_append append_Nil2)

text \<open>
  The segments \<open>cs\<close> bring the handshake, and the last of them perhaps more. All of them are read, none
  of the segments after them.
\<close>

lemma Handshake_ReadFrom_text:
  assumes "hs_ok h" "[] \<notin> set cs" "length (concat cs) \<le> 4096" "concat cs = hs_text h @ t"
    and "length (concat (butlast cs)) < length (hs_text h)"
  shows "Handshake_ReadFrom h0 (seg_input (cs @ later) e) = (h, seg_input later e, None)"
proof -
  note lines = space_word_lines [OF assms(1)]
  let ?s0 = "NewScanner (seg_input (cs @ later) e)"
  have "sc_data ?s0 @ concat cs = line1 h @ 10 # (hs_RemotePeer h @ 10 # line3 h @ 10 # t)"
    using assms(4) by (simp add: NewScanner_def hs_text_def)
  from Scan_line [OF feeding_start [OF assms(2,3)] this lines(1)] obtain s1 c1 r1 where
    s1: "Scan ?s0 = (s1, True)" "cs = c1 @ r1" "sc_token s1 = line1 h"
      "sc_data s1 @ concat r1 = hs_RemotePeer h @ 10 # line3 h @ 10 # t" "feeding s1 r1 later e"
    using lines by auto
  from assms(1) have rp: "10 \<notin> set (hs_RemotePeer h)" "dropCR (hs_RemotePeer h) = hs_RemotePeer h"
    by (simp_all add: hs_ok_def)
  from Scan_line [OF s1(5,4) rp(1)] rp(2) obtain s2 c2 r2 where
    s2: "Scan s1 = (s2, True)" "r1 = c2 @ r2" "sc_token s2 = hs_RemotePeer h"
      "sc_data s2 @ concat r2 = line3 h @ 10 # t" "feeding s2 r2 later e"
    by auto
  from Scan_line [OF s2(5,4) lines(2)] lines obtain s3 c3 r3 where
    s3: "Scan s2 = (s3, True)" "r2 = c3 @ r3" "sc_token s3 = line3 h" "sc_data s3 @ concat r3 = t"
      "feeding s3 r3 later e"
    by auto
  have "r3 = []"
  proof (rule ccontr)
    assume r3: "r3 \<noteq> []"
    with s1(2) s2(2) s3(2) have "cs \<noteq> []" "last cs = last r3" by simp_all
    then have "length (hs_text h) + length t = length (concat (butlast cs)) + length (last r3)"
      using arg_cong [OF concat_butlast_last [of cs], of length] assms(4) by simp
    moreover have "length (last r3) \<le> length t"
      using s3(4) arg_cong [OF concat_butlast_last [OF r3], of length] by auto
    ultimately show False using assms(5) by simp
  qed
  with s3(5) have end3: "sc_rd s3 = seg_input later e" "sc_err s3 = None" by (simp_all add: feeding_def)
  show ?thesis
    using s1(1,3) s2(1,3) s3(1,3) end3
    by (simp add: Handshake_ReadFrom_def Let_def scan_identifier_line1 [OF assms(1)] scan_local_line3 [OF assms(1)]
        Scanner_Err_def)
qed

lemma Handshake_WriteTo_open:
  "Handshake_WriteTo h (open_sink out) = (open_sink (out @ hs_text h), length (hs_text h), None)"
  by (simp add: Handshake_WriteTo_def hs_text_def)

text \<open>C33: a handshake of up to 4096 bytes that \<open>WriteTo\<close> sends is read back by \<open>ReadFrom\<close> unchanged,
  however the connection splits it into segments, and the next segments are left for the messages.\<close>

theorem handshake_roundtrip:
  assumes "hs_ok h" "length (hs_text h) \<le> 4096"
  shows "\<exists>bytes. Handshake_WriteTo h (open_sink []) = (open_sink bytes, length bytes, None) \<and>
    (\<forall>cs later e h0. [] \<notin> set cs \<and> concat cs = bytes \<longrightarrow>
      Handshake_ReadFrom h0 (seg_input (cs @ later) e) = (h, seg_input later e, None))"
proof (intro exI [of _ "hs_text h"] conjI allI impI)
  show "Handshake_WriteTo h (open_sink []) = (open_sink (hs_text h), length (hs_text h), None)"
    by (simp add: Handshake_WriteTo_open)
  fix cs later e h0 assume cs: "[] \<notin> set cs \<and> concat cs = hs_text h"
  then have ne: "cs \<noteq> []" by (auto simp: hs_text_def)
  with cs have "last cs \<noteq> []" by (metis last_in_set)
  with concat_butlast_last [OF ne] cs have "length (concat (butlast cs)) < length (hs_text h)"
    by (metis length_append length_greater_0_conv less_add_same_cancel1)
  with cs assms show "Handshake_ReadFrom h0 (seg_input (cs @ later) e) = (h, seg_input later e, None)"
    by (intro Handshake_ReadFrom_text [of h cs "[]"]) simp_all
qed

definition demo_handshake :: handshake where
  "demo_handshake = NewHandshake (str ''a'') 7 (str ''b'')"

lemma demo_handshake_ok: "hs_ok demo_handshake"
  by (simp add: demo_handshake_def NewHandshake_def hs_ok_def word_ok_def str_def dropCR_def)

lemma demo_handshake_text: "hs_text demo_handshake = str ''HAProxyS 2.1'' @ [10, 98, 10] @ str ''a 7 0'' @ [10]"
proof -
  have "show_int 7 = ''7''" "show_int 0 = ''0''" by code_simp+
  then show ?thesis
    by (simp add: demo_handshake_def NewHandshake_def hs_text_def line1_def line3_def str_def)
qed

lemma handshake_roundtrip_witness:
  "Handshake_ReadFrom zero_handshake
     (seg_input [str ''HAProxyS 2'', str ''.1'' @ [10, 98, 10], str ''a 7 0'' @ [10], [0, 4]] ErrEOF) =
   (demo_handshake, seg_input [[0, 4]] ErrEOF, None)"
proof -
  let ?cs = "[str ''HAProxyS 2'', str ''.1'' @ [10, 98, 10], str ''a 7 0'' @ [10]]"
  have "length (hs_text demo_handshake) \<le> 4096" by (simp add: demo_handshake_text str_def)
  from handshake_roundtrip [OF demo_handshake_ok this] obtain bytes where
    b: "Handshake_WriteTo demo_handshake (open_sink []) = (open_sink bytes, length bytes, None)"
    "\<forall>cs later e h0. [] \<notin> set cs \<and> concat cs = bytes \<longrightarrow>
      Handshake_ReadFrom h0 (seg_input (cs @ later) e) = (demo_handshake, seg_input later e, None)"
    by blast
  from b(1) have "open_sink bytes = open_sink (hs_text demo_handshake)" by (simp add: Handshake_WriteTo_open)
  then have "bytes = hs_text demo_handshake" by (simp add: open_sink_def)
  moreover have "[] \<notin> set ?cs" "concat ?cs = hs_text demo_handshake"
    by (simp_all add: demo_handshake_text str_def)
  ultimately have "Handshake_ReadFrom zero_handshake (seg_input (?cs @ [[0, 4]]) ErrEOF) =
      (demo_handshake, seg_input [[0, 4]] ErrEOF, None)"
    using b(2) by blast
  then show ?thesis by simp
qed

section \<open>From the handshake into the loop\<close>

definition status_line :: "byte list" where
  "status_line = str (show_int HandshakeStatusHandshakeSucceeded) @ [10]"

lemma status_line_200: "status_line = str ''200'' @ [10]"
proof -
  have "show_int 200 = ''200''" by code_simp
  then show ?thesis by (simp add: status_line_def peer_defs)
qed

lemma lockedWrite_open:
  assumes "pw_flushed w"
  shows "\<exists>w'. lockedWrite p w = (w', None) \<and> pw_out w' = pw_out w @ p"
proof -
  obtain w' e where w': "lockedWrite p w = (w', e)" by (metis surj_pair)
  from lockedWrite_wrote [OF this] have l: "wrote (pw_bw w) p (pw_bw w')" "e = bw_err (pw_bw w')"
    "e = None \<longrightarrow> bw_buf (pw_bw w') = []" by simp_all
  with wrote_open [OF assms l(1)] w' show ?thesis by (auto simp: bw_stream_def)
qed

lemma bf_reader_seg: "bf_reader (seg_input segs e) = \<lparr>rd_data = concat segs, rd_err = e\<rparr>"
  by (simp add: bf_reader_def bf_left_def seg_input_def)

lemma peer_Serve_start_text:
  assumes "hs_ok h" "[] \<notin> set cs" "length (concat cs) \<le> 4096" "concat cs = hs_text h @ t"
    and "length (concat (butlast cs)) < length (hs_text h)"
    and "HandleHandshake hnd (pc_ctx c) h (pc_h c, pc_w c) = Some (s1, w1)"
    and "lockedWrite status_line w1 = (w2, None)"
  shows "peer_Serve_start hnd c (seg_input (cs @ later) e) =
    \<lparr>ps_client = resetLastMessage (resetHeartbeat (c\<lparr>pc_h := s1, pc_w := w2\<rparr>)),
     ps_in = \<lparr>rd_data = concat later, rd_err = e\<rparr>, ps_serve = PeerServing\<rparr>"
  using assms(6,7)
  by (simp add: peer_Serve_start_def peerHandshake_def Handshake_ReadFrom_text [OF assms(1-5)]
      bf_reader_seg flip: status_line_def)

text \<open>C34: \<open>Serve\<close> hands a well-formed handshake to the handler, answers it with the status line 200 and
  goes into its loop. But what the connection delivers together with the end of the handshake (\<open>t\<close>) is
  lost: the line scanner has read it into its own buffer, and the loop starts with the next segment.\<close>

theorem handshake_served:
  assumes "hs_ok h" "[] \<notin> set cs" "length (concat cs) \<le> 4096" "concat cs = hs_text h @ t"
    and "length (concat (butlast cs)) < length (hs_text h)"
    and "HandleHandshake hnd (pc_ctx c) h (pc_h c, pc_w c) = Some (s1, w1)" "pw_flushed w1"
  shows "\<exists>c'. peer_Serve_start hnd c (seg_input (cs @ later) e) =
      \<lparr>ps_client = c', ps_in = \<lparr>rd_data = concat later, rd_err = e\<rparr>, ps_serve = PeerServing\<rparr> \<and>
    pc_h c' = s1 \<and> pw_out (pc_w c') = pw_out w1 @ str ''200'' @ [10]"
proof -
  from lockedWrite_open [OF assms(7)] obtain w2 where
    w2: "lockedWrite status_line w1 = (w2, None)" "pw_out w2 = pw_out w1 @ status_line" by blast
  from peer_Serve_start_text [OF assms(1-6) w2(1)] w2(2) show ?thesis
    by (auto simp: status_line_200 resetLastMessage_def resetHeartbeat_def)
qed

text \<open>A handler that notes the updates and lets every handshake pass.\<close>

definition log_session :: "entry_update list full_handler" where
  "log_session =
     \<lparr>HandleUpdate = HandleUpdate log_handler, HandlerClose = HandlerClose log_handler,
      HandleHandshake = (\<lambda>ctx h s. Some s)\<rparr>"

lemma log_session_simps [simp]:
  "base_handler log_session = log_handler" "HandleHandshake log_session ctx h s = Some s"
  by (simp_all add: log_session_def base_handler_def)

lemma handshake_served_witness:
  "\<exists>c'. peer_Serve_start log_session (newPeerClient [] (newWriter (open_sink [])))
      (seg_input [hs_text demo_handshake @ [0, 4]] ErrEOF) =
    \<lparr>ps_client = c', ps_in = \<lparr>rd_data = [], rd_err = ErrEOF\<rparr>, ps_serve = PeerServing\<rparr>"
proof -
  let ?c = "newPeerClient ([] :: entry_update list) (newWriter (open_sink []))"
  let ?cs = "[hs_text demo_handshake @ [0, 4]]"
  have "[] \<notin> set ?cs" "length (concat ?cs) \<le> 4096" "concat ?cs = hs_text demo_handshake @ [0, 4]"
    "length (concat (butlast ?cs)) < length (hs_text demo_handshake)"
    by (simp_all add: demo_handshake_text str_def)
  from handshake_served [OF demo_handshake_ok this, of log_session ?c "[]" "newWriter (open_sink [])" "[]" ErrEOF]
  show ?thesis using newWriter_flushed [of "[]"] by (auto simp: newPeerClient_def)
qed

section \<open>A whole session\<close>

text \<open>C1: a session of a well-formed handshake of at most 4096 bytes, a well-formed definition of at
  most 4096 bytes and well-formed entries of its table (\<open>entry_ok\<close>: dictionary values of two bytes or
  more, binary keys of the key length, addresses of their kind without a zone) that fit the writer's
  64 KiB each. What one side writes with \<open>Handshake.WriteTo\<close>, \<open>SendTableDefinition\<close> and \<open>SendEntries\<close>
  over a connection that does not fail, \<open>Serve\<close> of the other side answers with the status line and
  delivers, if no message comes in one segment with the end of the handshake and however the bytes
  are cut into segments otherwise: its handler gets every entry once, in order, with its key and data
  and consecutive update ids (which wrap around), and \<open>Serve\<close> returns without an error at the end.\<close>

theorem peer_session:
  assumes "hs_ok h" and "length (hs_text h) \<le> 4096" and "def_ok d" and "length (def_enc d) \<le> 4096"
    and "\<forall>e \<in> set es. entry_ok e \<and> eu_StickTable e = d \<and> sendable e" and "pw_flushed w"
  shows "\<exists>hs w1 w2 bytes. Handshake_WriteTo h (open_sink []) = (open_sink hs, length hs, None) \<and>
    SendTableDefinition d w = (w1, Ret None) \<and> SendEntries es w1 = (w2, Ret None) \<and>
    pw_out w2 = pw_out w @ bytes \<and>
    (\<forall>cs later. [] \<notin> set cs \<and> concat cs = hs \<and> concat later = bytes \<longrightarrow>
      (\<exists>c'. (peer_Serve_iter log_handler ^^ (length es + 2))
          (peer_Serve_start log_session (newPeerClient [] (newWriter (open_sink []))) (seg_input (cs @ later) ErrEOF)) =
          \<lparr>ps_client = c', ps_in = \<lparr>rd_data = [], rd_err = ErrEOF\<rparr>, ps_serve = PeerReturned None\<rparr> \<and>
        pc_h c' = received_all (pw_nextUpdateID w) es \<and> pw_out (pc_w c') = str ''200'' @ [10]))"
proof -
  from replication [OF assms(3-6)] obtain w1 w2 bytes where
    send: "SendTableDefinition d w = (w1, Ret None)" "SendEntries es w1 = (w2, Ret None)" "pw_out w2 = pw_out w @ bytes"
    and served: "\<And>c. pc_ctx c = None \<Longrightarrow> \<exists>c'.
      (peer_Serve_iter log_handler ^^ (length es + 2)) (start_sys c bytes) =
          \<lparr>ps_client = c', ps_in = \<lparr>rd_data = [], rd_err = ErrEOF\<rparr>, ps_serve = PeerReturned None\<rparr> \<and>
        pc_h c' = pc_h c @ received_all (pw_nextUpdateID w) es \<and> pc_w c' = pc_w c" by blast
  let ?client = "newPeerClient ([] :: entry_update list) (newWriter (open_sink []))"
  have "\<exists>c'. (peer_Serve_iter log_handler ^^ (length es + 2))
          (peer_Serve_start log_session ?client (seg_input (cs @ later) ErrEOF)) =
          \<lparr>ps_client = c', ps_in = \<lparr>rd_data = [], rd_err = ErrEOF\<rparr>, ps_serve = PeerReturned None\<rparr> \<and>
        pc_h c' = received_all (pw_nextUpdateID w) es \<and> pw_out (pc_w c') = str ''200'' @ [10]"
    if cs: "[] \<notin> set cs" "concat cs = hs_text h" "concat later = bytes" for cs later
  proof -
    have c0: "pc_ctx ?client = None" "pc_h ?client = []" "pc_w ?client = newWriter (open_sink [])" by (simp_all add: newPeerClient_def)
    have ne: "cs \<noteq> []" using cs(2) by (auto simp: hs_text_def)
    with cs(1) have "last cs \<noteq> []" by (metis last_in_set)
    with concat_butlast_last [OF ne] cs(2) have bl: "length (concat (butlast cs)) < length (hs_text h)"
      by (metis length_append length_greater_0_conv less_add_same_cancel1)
    from lockedWrite_open [OF newWriter_flushed] obtain w3 where
      w3: "lockedWrite status_line (newWriter (open_sink [])) = (w3, None)" "pw_out w3 = status_line"
      by (force simp: newWriter_def NewWriterSize_def open_sink_def)
    have len: "length (concat cs) \<le> 4096" and all: "concat cs = hs_text h @ []" using assms(2) cs(2) by simp_all
    have hh: "HandleHandshake log_session (pc_ctx ?client) h (pc_h ?client, pc_w ?client) = Some ([], newWriter (open_sink []))"
      by (simp add: c0)
    let ?c = "resetLastMessage (resetHeartbeat (?client\<lparr>pc_h := [], pc_w := w3\<rparr>))"
    from peer_Serve_start_text [OF assms(1) cs(1) len all bl hh w3(1), of later ErrEOF] cs(3)
    have start: "peer_Serve_start log_session ?client (seg_input (cs @ later) ErrEOF) = start_sys ?c bytes"
      by (simp add: start_sys_def)
    have "pc_ctx ?c = None" "pc_h ?c = []" "pc_w ?c = w3"
      by (simp_all add: resetLastMessage_def resetHeartbeat_def c0)
    with served [of ?c] w3(2) show ?thesis by (auto simp: start status_line_200)
  qed
  with send show ?thesis using Handshake_WriteTo_open [of h "[]"] by auto
qed

lemma peer_session_witness:
  "\<exists>w1 w2 bytes c'. SendTableDefinition demo_table (newWriter (open_sink [])) = (w1, Ret None) \<and>
    SendEntries [demo_entry, demo_entry] w1 = (w2, Ret None) \<and> pw_out w2 = bytes \<and>
    (peer_Serve_iter log_handler ^^ 4) (peer_Serve_start log_session (newPeerClient [] (newWriter (open_sink [])))
        (seg_input ([hs_text demo_handshake] @ [bytes]) ErrEOF)) =
      \<lparr>ps_client = c', ps_in = \<lparr>rd_data = [], rd_err = ErrEOF\<rparr>, ps_serve = PeerReturned None\<rparr> \<and>
    pc_h c' = received_all 0 [demo_entry, demo_entry]"
proof -
  have a: "length (hs_text demo_handshake) \<le> 4096" by (simp add: demo_handshake_text str_def)
  have b: "length (def_enc demo_table) \<le> 4096"
    "\<forall>e \<in> set [demo_entry, demo_entry]. entry_ok e \<and> eu_StickTable e = demo_table \<and> sendable e"
    using demo_entry_ok demo_sendable demo_table_length by (auto simp: demo_entry_def)
  have w: "pw_out (newWriter (open_sink [])) = []" "pw_nextUpdateID (newWriter (open_sink [])) = 0"
    by (simp_all add: newWriter_def NewWriterSize_def open_sink_def)
  have n: "length [demo_entry, demo_entry] + 2 = 4" by simp
  show ?thesis
    using peer_session [OF demo_handshake_ok a demo_table_ok b newWriter_flushed [of "[]"], unfolded w n]
  proof (elim exE conjE)
    fix hs w1 w2 bytes
    assume hs: "Handshake_WriteTo demo_handshake (open_sink []) = (open_sink hs, length hs, None)"
      and send: "SendTableDefinition demo_table (newWriter (open_sink [])) = (w1, Ret None)"
        "SendEntries [demo_entry, demo_entry] w1 = (w2, Ret None)" "pw_out w2 = [] @ bytes"
      and served: "\<forall>cs later. [] \<notin> set cs \<and> concat cs = hs \<and> concat later = bytes \<longrightarrow>
        (\<exists>c'. (peer_Serve_iter log_handler ^^ 4)
            (peer_Serve_start log_session (newPeerClient [] (newWriter (open_sink []))) (seg_input (cs @ later) ErrEOF)) =
            \<lparr>ps_client = c', ps_in = \<lparr>rd_data = [], rd_err = ErrEOF\<rparr>, ps_serve = PeerReturned None\<rparr> \<and>
          pc_h c' = received_all 0 [demo_entry, demo_entry] \<and> pw_out (pc_w c') = str ''200'' @ [10])"
    from hs have "open_sink hs = open_sink (hs_text demo_handshake)" by (simp add: Handshake_WriteTo_open)
    then have "[] \<notin> set [hs_text demo_handshake] \<and> concat [hs_text demo_handshake] = hs \<and> concat [bytes] = bytes"
      by (simp add: open_sink_def) (simp add: hs_text_def)
    with served [rule_format, of "[hs_text demo_handshake]" "[bytes]"] send show ?thesis by auto
  qed
qed

section \<open>The output of a connection\<close>

definition handshake_handler_ok :: "'h full_handler \<Rightarrow> bool" where
  "handshake_handler_ok hnd \<longleftrightarrow> peer_handler_ok (base_handler hnd) \<and>
     (\<forall>ctx hs h w h' w'. HandleHandshake hnd ctx hs (h, w) = Some (h', w') \<longrightarrow> (\<exists>ms. writes w ms w'))"

definition served_conn :: "'h peer_sys \<Rightarrow> 'h peer_conn" where
  "served_conn p = \<lparr>pn_sys = p, pn_heartbeat = True, pn_timer = True\<rparr>"

lemma peer_Serve_start_serving:
  assumes "ps_serve (peer_Serve_start hnd c r) = PeerServing"
  obtains hs r' h w w' where "HandleHandshake hnd (pc_ctx c) hs (pc_h c, pc_w c) = Some (h, w)"
    "lockedWrite status_line w = (w', None)" "pc_w (ps_client (peer_Serve_start hnd c r)) = w'"
proof -
  obtain hs r' e where rd: "Handshake_ReadFrom zero_handshake r = (hs, r', e)" by (metis prod_cases3)
  with assms have [simp]: "e = None"
    by (cases e) (simp_all add: peer_Serve_start_def peerHandshake_def)
  from assms rd obtain h w where hh: "HandleHandshake hnd (pc_ctx c) hs (pc_h c, pc_w c) = Some (h, w)"
    by (cases "HandleHandshake hnd (pc_ctx c) hs (pc_h c, pc_w c)") (auto simp: peer_Serve_start_def peerHandshake_def)
  obtain w' e' where lw: "lockedWrite status_line w = (w', e')" by (metis surj_pair)
  with assms rd hh have [simp]: "e' = None"
    by (cases e') (simp_all add: peer_Serve_start_def peerHandshake_def flip: status_line_def)
  from rd hh lw have "pc_w (ps_client (peer_Serve_start hnd c r)) = w'"
    by (simp add: peer_Serve_start_def peerHandshake_def resetLastMessage_def resetHeartbeat_def flip: status_line_def)
  with hh lw show ?thesis by (intro that) simp_all
qed

text \<open>Everything a connection ever sends, whatever the order of received messages, heartbeats, the
  timer, user goroutines that send and the end of the connection: whole messages that the handler
  sent while it was given the handshake, the status line, and whole messages. None is ever
  interleaved with another, and only a failing connection cuts one off.\<close>

theorem peer_connection_output:
  assumes "handshake_handler_ok hnd"
    and "ps_serve (peer_Serve_start hnd (newPeerClient h (newWriter conn)) r) = PeerServing"
    and "rtranclp (pstep (base_handler hnd))
      (served_conn (peer_Serve_start hnd (newPeerClient h (newWriter conn)) r)) s'"
  shows "\<exists>ms0 ms k rest. (\<forall>m \<in> set (ms0 @ ms). is_msg m) \<and>
    pw_out (pn_writer s') @ rest = sk_out conn @ take k (concat ms0 @ str ''200'' @ [10] @ concat ms) \<and>
    (bw_err (pw_bw (pn_writer s')) = None \<longrightarrow> length (concat ms0 @ str ''200'' @ [10] @ concat ms) \<le> k)"
proof -
  let ?c = "newPeerClient h (newWriter conn)"
  obtain hs h1 w1 w2 where start: "HandleHandshake hnd (pc_ctx ?c) hs (pc_h ?c, pc_w ?c) = Some (h1, w1)"
    "lockedWrite status_line w1 = (w2, None)" "pc_w (ps_client (peer_Serve_start hnd ?c r)) = w2"
    using assms(2) by (rule peer_Serve_start_serving)
  have new: "bw_stream (pw_bw (pc_w ?c)) = sk_out conn" by (simp add: newPeerClient_def newWriter_def NewWriterSize_def bw_stream_def)
  from start(1) assms(1) obtain ms0 where ms0: "writes (pc_w ?c) ms0 w1" unfolding handshake_handler_ok_def by blast
  from lockedWrite_wrote [OF start(2)] have "wrote (pw_bw w1) status_line (pw_bw w2)" "bw_err (pw_bw w2) = None" by simp_all
  moreover from ms0 have "wrote (pw_bw (pc_w ?c)) (concat ms0) (pw_bw w1)" "\<forall>m \<in> set ms0. is_msg m"
    by (simp_all add: writes_def)
  ultimately have w2: "bw_err (pw_bw w2) = None" "\<forall>m \<in> set ms0. is_msg m"
    "bw_stream (pw_bw w2) = sk_out conn @ concat ms0 @ status_line"
    using wrote_ok new by (metis, blast, metis append_assoc)
  have s0: "pn_writer (served_conn (peer_Serve_start hnd ?c r)) = w2" by (simp add: served_conn_def start(3))
  from assms(1) have "peer_handler_ok (base_handler hnd)" by (simp add: handshake_handler_ok_def)
  from peer_output_whole_messages [OF this assms(3)] w2(1) s0 obtain ms k rest where
    out: "\<forall>m \<in> set ms. is_msg m" "pw_out (pn_writer s') @ rest = bw_stream (pw_bw w2) @ take k (concat ms)"
      "bw_err (pw_bw (pn_writer s')) = None \<longrightarrow> length (concat ms) \<le> k" by auto
  let ?pre = "concat ms0 @ status_line"
  have "take (length ?pre + k) (?pre @ concat ms) = ?pre @ take k (concat ms)" by simp
  with out w2(3) have "pw_out (pn_writer s') @ rest = sk_out conn @ take (length ?pre + k) (?pre @ concat ms)" by simp
  with out w2(2) show ?thesis
    by (intro exI [of _ ms0] exI [of _ ms] exI [of _ "length ?pre + k"] exI [of _ rest])
      (auto simp: status_line_200)
qed

lemma log_session_ok: "handshake_handler_ok log_session"
  using log_handler_ok by (auto simp: handshake_handler_ok_def intro!: exI [of _ "[]"] writes_none)

lemma peer_connection_output_witness:
  "\<exists>s' ms0 ms k rest. rtranclp (pstep log_handler)
      (served_conn (peer_Serve_start log_session (newPeerClient [] (newWriter (open_sink [])))
        (seg_input [hs_text demo_handshake, [0, 0]] ErrEOF))) s' \<and>
    ps_serve (pn_sys s') = PeerServing \<and> (\<forall>m \<in> set (ms0 @ ms). is_msg m) \<and>
    pw_out (pn_writer s') @ rest = take k (concat ms0 @ str ''200'' @ [10] @ concat ms)"
proof -
  let ?client = "newPeerClient ([] :: entry_update list) (newWriter (open_sink []))"
  let ?start = "peer_Serve_start log_session ?client (seg_input [hs_text demo_handshake, [0, 0]] ErrEOF)"
  let ?cs = "[hs_text demo_handshake]"
  have cs: "[] \<notin> set ?cs" "length (concat ?cs) \<le> 4096" "concat ?cs = hs_text demo_handshake @ []"
    "length (concat (butlast ?cs)) < length (hs_text demo_handshake)"
    by (simp_all add: demo_handshake_text str_def)
  from lockedWrite_open [OF newWriter_flushed] obtain w3 where
    w3: "lockedWrite status_line (newWriter (open_sink [])) = (w3, None)" by blast
  have hh: "HandleHandshake log_session (pc_ctx ?client) demo_handshake (pc_h ?client, pc_w ?client) =
      Some ([], newWriter (open_sink []))" by (simp add: newPeerClient_def)
  from peer_Serve_start_text [OF demo_handshake_ok cs hh w3, of "[[0, 0]]" ErrEOF]
  have st: "ps_serve ?start = PeerServing" by simp
  have ok: "bw_err (pw_bw (pc_w (ps_client ?start))) = None" "\<not> pw_locked (pc_w (ps_client ?start))"
    using peer_Serve_start_text [OF demo_handshake_ok cs hh w3, of "[[0, 0]]" ErrEOF] lockedWrite_wrote [OF w3]
    by (simp_all add: resetLastMessage_def resetHeartbeat_def)
  obtain w r where w: "SendEntries [demo_entry] (pn_writer (served_conn ?start)) = (w, r)" by (metis surj_pair)
  from ok(2) w have "pstep log_handler (served_conn ?start) (set_writer w (served_conn ?start))"
    by (intro send_entries) (simp_all add: served_conn_def)
  then have run: "rtranclp (pstep log_handler) (served_conn ?start) (set_writer w (served_conn ?start))" by blast
  moreover have "ps_serve (pn_sys (set_writer w (served_conn ?start))) = PeerServing"
    using st by (simp add: set_writer_def served_conn_def)
  moreover have "sk_out (open_sink []) @ xs = xs" for xs by (simp add: open_sink_def)
  moreover note peer_connection_output [OF log_session_ok st, unfolded log_session_simps, OF run]
  ultimately show ?thesis by metis
qed

end
