(* ===== verification/PeerListener.thy ===== *)
theory PeerListener
  imports PeerHandshake
begin

text \<open>
  The accept loop of the peers library (peers/peers.go) and its connections, which share the state of
  the user's handler. No panic is recovered: one in any goroutine of the library ends the program.
\<close>

section \<open>The code\<close>

text \<open>
  \<open>Handler\<close> and \<open>HandlerSource\<close> of a \<open>Peer\<close>; a source gives the handler of the \<open>k\<close>-th connection. With
  neither, the source that the loop calls is nil.
\<close>

definition handler_source :: "'k option \<Rightarrow> (nat \<Rightarrow> 'k) option \<Rightarrow> gerr + (nat \<Rightarrow> 'k) option" where
  "handler_source handler source =
     (case handler of
        None \<Rightarrow> Inr source
      | Some h \<Rightarrow>
          (case source of
             Some _ \<Rightarrow> Inl (ErrFormat ''cannot set Handler and HandlerSource at the same time'')
           | None \<Rightarrow> Inr (Some (\<lambda>_. h))))"

text \<open>A connection before its handshake, in the loop of \<open>Serve\<close>, refused, and closed after that.\<close>

datatype 'h pconn =
    Handshaking "'h full_handler" "'h pclient" bufr
  | Served "'h full_handler" "'h peer_conn"
  | Refused "'h full_handler" "'h pclient"
  | Over "'h pclient"

record 'h peers =
  pg_source :: "(nat \<Rightarrow> 'h full_handler) option"
  pg_returned :: "gerr option"
  pg_conns :: "'h pconn list"
  pg_h :: 'h
  pg_crashed :: bool

text \<open>\<open>Serve\<close> of a \<open>Peer\<close>, up to its loop.\<close>

definition peers_init ::
  "'h full_handler option \<Rightarrow> (nat \<Rightarrow> 'h full_handler) option \<Rightarrow> 'h \<Rightarrow> 'h peers" where
  "peers_init handler source h =
     (case handler_source handler source of
        Inl e \<Rightarrow> \<lparr>pg_source = source, pg_returned = Some e, pg_conns = [], pg_h = h, pg_crashed = False\<rparr>
      | Inr src \<Rightarrow> \<lparr>pg_source = src, pg_returned = None, pg_conns = [], pg_h = h, pg_crashed = False\<rparr>)"

text \<open>One \<open>Accept\<close>: an error, or a connection with its input and what it takes as output.\<close>

definition peer_accept :: "gerr + (bufr \<times> nat option) \<Rightarrow> 'h peers \<Rightarrow> 'h peers" where
  "peer_accept acc P =
     (case acc of
        Inl e \<Rightarrow> P\<lparr>pg_returned := Some (ErrWrap ''accepting conn'' e)\<rparr>
      | Inr (r, room) \<Rightarrow>
          (case pg_source P of
             None \<Rightarrow> P\<lparr>pg_crashed := True\<rparr>
           | Some src \<Rightarrow> P\<lparr>pg_conns := pg_conns P @
               [Handshaking (src (length (pg_conns P)))
                  (newPeerClient (pg_h P) (newWriter \<lparr>sk_out = [], sk_room = room, sk_closed = False\<rparr>)) r]\<rparr>))"

definition after_handshake :: "'h full_handler \<Rightarrow> 'h peer_sys \<Rightarrow> 'h pconn" where
  "after_handshake hnd p =
     (case ps_serve p of PeerServing \<Rightarrow> Served hnd (served_conn p) | _ \<Rightarrow> Refused hnd (ps_client p))"

definition cancel_client :: "'h pclient \<Rightarrow> 'h pclient" where
  "cancel_client c = (if pc_ctx c = None then c\<lparr>pc_ctx := Some ErrCanceled\<rparr> else c)"

fun cancel_conn :: "'h pconn \<Rightarrow> 'h pconn" where
  "cancel_conn (Handshaking hnd c r) = Handshaking hnd (cancel_client c) r"
| "cancel_conn (Served hnd s) = Served hnd (set_client (cancel_client (pn_client s)) s)"
| "cancel_conn (Refused hnd c) = Refused hnd (cancel_client c)"
| "cancel_conn (Over c) = Over c"

definition set_pconn :: "nat \<Rightarrow> 'h pconn \<Rightarrow> 'h \<Rightarrow> bool \<Rightarrow> 'h peers \<Rightarrow> 'h peers" where
  "set_pconn i c h crashed P = P\<lparr>pg_conns := (pg_conns P)[i := c], pg_h := h, pg_crashed := crashed\<rparr>"

inductive peers_step :: "'h peers \<Rightarrow> 'h peers \<Rightarrow> bool" where
  accept: "\<not> pg_crashed P \<Longrightarrow> pg_returned P = None \<Longrightarrow> peers_step P (peer_accept acc P)"
| handshake: "\<not> pg_crashed P \<Longrightarrow> i < length (pg_conns P) \<Longrightarrow> pg_conns P ! i = Handshaking hnd c r \<Longrightarrow>
    p = peer_Serve_start hnd (c\<lparr>pc_h := pg_h P\<rparr>) r \<Longrightarrow>
    peers_step P (set_pconn i (after_handshake hnd p) (pc_h (ps_client p)) (ps_serve p = PeerCrashed) P)"
| run: "\<not> pg_crashed P \<Longrightarrow> i < length (pg_conns P) \<Longrightarrow> pg_conns P ! i = Served hnd s \<Longrightarrow>
    pstep (base_handler hnd) (set_client ((pn_client s)\<lparr>pc_h := pg_h P\<rparr>) s) s' \<Longrightarrow>
    peers_step P (set_pconn i (Served hnd s') (pc_h (pn_client s')) (ps_serve (pn_sys s') = PeerCrashed) P)"
| refuse: "\<not> pg_crashed P \<Longrightarrow> i < length (pg_conns P) \<Longrightarrow> pg_conns P ! i = Refused hnd c \<Longrightarrow>
    peer_Close (base_handler hnd) (c\<lparr>pc_h := pg_h P\<rparr>) = (c', out) \<Longrightarrow>
    peers_step P (set_pconn i (Over (c'\<lparr>pc_w := close_writer (pc_w c')\<rparr>)) (pc_h c') (out = None) P)"
| cancel: "\<not> pg_crashed P \<Longrightarrow> peers_step P (P\<lparr>pg_conns := map cancel_conn (pg_conns P)\<rparr>)"

section \<open>What a connection has sent\<close>

text \<open>Everything the writer has taken: messages, the status line, and messages; the status line has gone
  out, and only a connection that takes no more bytes makes the writer fail.\<close>

definition session_stream :: "bufw \<Rightarrow> bool" where
  "session_stream bw \<longleftrightarrow>
     (\<exists>ms0. (\<forall>m \<in> set ms0. is_msg m) \<and> sent_msgs (concat ms0 @ status_line) bw \<and>
        (\<exists>more. sk_out (bw_wr bw) = concat ms0 @ status_line @ more)) \<and>
     (bw_err bw \<noteq> None \<longrightarrow> sink_failed (bw_wr bw))"

fun pconn_ok :: "'h pconn \<Rightarrow> bool" where
  "pconn_ok (Handshaking hnd c r) = (handshake_handler_ok hnd \<and> bw_stream (pw_bw (pc_w c)) = [] \<and> bw_err (pw_bw (pc_w c)) = None \<and>
     \<not> sk_closed (bw_wr (pw_bw (pc_w c))))"
| "pconn_ok (Served hnd s) = (handshake_handler_ok hnd \<and> session_stream (pw_bw (pn_writer s)) \<and>
     (sk_closed (bw_wr (pw_bw (pn_writer s))) \<longrightarrow> ps_serve (pn_sys s) \<noteq> PeerServing))"
| "pconn_ok _ = True"

definition peers_inv :: "'h peers \<Rightarrow> bool" where
  "peers_inv P \<longleftrightarrow> (\<forall>src k. pg_source P = Some src \<longrightarrow> handshake_handler_ok (src k)) \<and> (\<forall>c \<in> set (pg_conns P). pconn_ok c)"

lemma handshake_stream:
  assumes "handshake_handler_ok hnd" "bw_stream (pw_bw (pc_w c)) = []" "bw_err (pw_bw (pc_w c)) = None"
    and "\<not> sk_closed (bw_wr (pw_bw (pc_w c)))" and "ps_serve (peer_Serve_start hnd c r) = PeerServing"
  shows "session_stream (pw_bw (pc_w (ps_client (peer_Serve_start hnd c r))))"
    and "\<not> sk_closed (bw_wr (pw_bw (pc_w (ps_client (peer_Serve_start hnd c r)))))"
proof -
  obtain hs h1 w1 w2 where start: "HandleHandshake hnd (pc_ctx c) hs (pc_h c, pc_w c) = Some (h1, w1)"
    "lockedWrite status_line w1 = (w2, None)" "pc_w (ps_client (peer_Serve_start hnd c r)) = w2"
    using assms(5) by (rule peer_Serve_start_serving)
  from start(1) assms(1) obtain ms0 where ms0: "writes (pc_w c) ms0 w1" unfolding handshake_handler_ok_def by blast
  from lockedWrite_wrote [OF start(2)] have l: "wrote (pw_bw w1) status_line (pw_bw w2)" "bw_err (pw_bw w2) = None"
    "bw_buf (pw_bw w2) = []" by simp_all
  from wrote_ok [OF l(1,2)] have w1: "bw_err (pw_bw w1) = None" "bw_stream (pw_bw w2) = bw_stream (pw_bw w1) @ status_line" by simp_all
  from ms0 have m: "wrote (pw_bw (pc_w c)) (concat ms0) (pw_bw w1)" "\<forall>m \<in> set ms0. is_msg m" by (simp_all add: writes_def)
  with wrote_ok [OF m(1) w1(1)] w1(2) assms(2) have s: "bw_stream (pw_bw w2) = concat ms0 @ status_line" by simp
  with l(3) have "sk_out (bw_wr (pw_bw w2)) = concat ms0 @ status_line @ []" by (simp add: bw_stream_def)
  moreover from s have "sent_msgs (concat ms0 @ status_line) (pw_bw w2)"
    unfolding sent_msgs_def by (intro exI [of _ "[]"] exI [of _ 0]) simp
  ultimately show "session_stream (pw_bw (pc_w (ps_client (peer_Serve_start hnd c r))))"
    unfolding session_stream_def start(3) using m(2) l(2) by blast
  from l(1) m(1) assms(4) show "\<not> sk_closed (bw_wr (pw_bw (pc_w (ps_client (peer_Serve_start hnd c r)))))"
    unfolding start(3) by (simp add: wrote_def)
qed

lemma session_stream_writes:
  assumes "session_stream (pw_bw w)" and "writes w ms w'"
  shows "session_stream (pw_bw w')" "sk_closed (bw_wr (pw_bw w')) = sk_closed (bw_wr (pw_bw w))"
proof -
  from assms(2) have w: "wrote (pw_bw w) (concat ms) (pw_bw w')" by (simp add: writes_def)
  then show "sk_closed (bw_wr (pw_bw w')) = sk_closed (bw_wr (pw_bw w))" by (simp add: wrote_def)
  from w obtain more where more: "sk_out (bw_wr (pw_bw w')) = sk_out (bw_wr (pw_bw w)) @ more" by (auto simp: wrote_def)
  from w have "bw_err (pw_bw w') \<noteq> None \<longrightarrow> bw_err (pw_bw w) \<noteq> None \<and> pw_bw w' = pw_bw w \<or> sink_failed (bw_wr (pw_bw w'))"
    by (auto simp: wrote_def)
  with assms(1) more sent_msgs_writes [OF _ assms(2)] show "session_stream (pw_bw w')"
    unfolding session_stream_def by (metis append_assoc)
qed

lemma session_streamD:
  assumes "session_stream bw"
  obtains ms0 ms k more where "\<forall>m \<in> set (ms0 @ ms). is_msg m" "bw_stream bw = concat ms0 @ status_line @ take k (concat ms)"
    "sk_out (bw_wr bw) = concat ms0 @ status_line @ more" "length (concat ms) \<le> k \<or> sink_failed (bw_wr bw)"
proof -
  from assms obtain ms0 more where m0: "\<forall>m \<in> set ms0. is_msg m" "sent_msgs (concat ms0 @ status_line) bw"
    "sk_out (bw_wr bw) = concat ms0 @ status_line @ more" and f: "bw_err bw \<noteq> None \<longrightarrow> sink_failed (bw_wr bw)"
    unfolding session_stream_def by (elim conjE exE)
  from m0(2) obtain ms k where m: "\<forall>m \<in> set ms. is_msg m" "bw_stream bw = (concat ms0 @ status_line) @ take k (concat ms)"
    "bw_err bw = None \<longrightarrow> length (concat ms) \<le> k" unfolding sent_msgs_def by (elim conjE exE)
  have "\<forall>m \<in> set (ms0 @ ms). is_msg m" using m0(1) m(1) by auto
  moreover have "bw_stream bw = concat ms0 @ status_line @ take k (concat ms)" using m(2) by (simp only: append_assoc)
  moreover have "length (concat ms) \<le> k \<or> sink_failed (bw_wr bw)" using m(3) f by (cases "bw_err bw") simp_all
  ultimately show ?thesis using m0(3) that by (simp only:)
qed

lemma session_stream_close: "session_stream (pw_bw w) \<Longrightarrow> session_stream (pw_bw (close_writer w))"
  using sent_msgs_close [of _ w] by (auto simp: session_stream_def close_writer_def sink_failed_def)

lemma pstep_ended: "pstep hnd s s' \<Longrightarrow> ps_serve (pn_sys s) \<noteq> PeerServing \<Longrightarrow> ps_serve (pn_sys s') \<noteq> PeerServing"
  by (induction rule: pstep.induct) (auto simp: set_writer_def set_client_def crash_def)

lemma pstep_stream:
  assumes "pstep (base_handler hnd) s s'" and "pconn_ok (Served hnd s)"
  shows "pconn_ok (Served hnd s')"
proof -
  from assms(2) have ok: "peer_handler_ok (base_handler hnd)" "session_stream (pw_bw (pn_writer s))"
    by (simp_all add: handshake_handler_ok_def)
  from pstep_writes [OF assms(1) ok(1)] show ?thesis
  proof
    assume "\<exists>ms. writes (pn_writer s) ms (pn_writer s')"
    then obtain ms where "writes (pn_writer s) ms (pn_writer s')" ..
    from session_stream_writes [OF ok(2) this] assms(2) pstep_ended [OF assms(1)] show ?thesis by auto
  next
    assume "pn_writer s' = close_writer (pn_writer s) \<and> ps_serve (pn_sys s') \<noteq> PeerServing"
    with session_stream_close [OF ok(2)] assms(2) show ?thesis by simp
  qed
qed

lemma pconn_ok_cancel: "pconn_ok c \<Longrightarrow> pconn_ok (cancel_conn c)"
  by (cases c) (simp_all add: cancel_client_def)

lemma peers_inv_set:
  assumes "peers_inv P" "pconn_ok c"
  shows "peers_inv (set_pconn i c h crashed P)"
  using assms set_update_subset_insert [of "pg_conns P" i c] by (auto simp: peers_inv_def set_pconn_def)

lemma heartbeat_sends:
  assumes "heartbeat_tick hnd c = (c', Ret True)"
  shows "pw_out (pc_w c') = pw_out (pc_w c) @ bw_buf (pw_bw (pc_w c)) @ [MessageClassControl, ControlMessageHeartbeat]"
proof -
  from assms have w: "lockedWrite [MessageClassControl, ControlMessageHeartbeat] (pc_w c) = (pc_w c', None)"
    by (auto simp: heartbeat_tick_def split: prod.splits option.splits)
  from lockedWrite_wrote [OF w] wrote_ok show ?thesis by (fastforce simp: bw_stream_def)
qed

lemma peers_step_inv: "peers_step P Q \<Longrightarrow> peers_inv P \<Longrightarrow> peers_inv Q"
proof (induction rule: peers_step.induct)
  case (accept P acc)
  then show ?case
    by (auto simp: peer_accept_def peers_inv_def newPeerClient_def newWriter_def NewWriterSize_def bw_stream_def
        split: sum.split option.split)
next
  case (handshake P i hnd c r p)
  then have ok: "pconn_ok (Handshaking hnd c r)" by (metis nth_mem peers_inv_def)
  have "pconn_ok (after_handshake hnd p)"
  proof (cases "ps_serve p = PeerServing")
    case True
    with handshake_stream [of hnd "c\<lparr>pc_h := pg_h P\<rparr>" r] ok handshake.hyps(4) show ?thesis
      by (simp add: after_handshake_def served_conn_def)
  next
    case False
    then show ?thesis by (auto simp: after_handshake_def split: peer_serve.split)
  qed
  with handshake.prems show ?case by (rule peers_inv_set)
next
  case (run P i hnd s s')
  then have ok: "pconn_ok (Served hnd s)" by (metis nth_mem peers_inv_def)
  then have "pconn_ok (Served hnd (set_client ((pn_client s)\<lparr>pc_h := pg_h P\<rparr>) s))" by simp
  from pstep_stream [OF run.hyps(4) this] have "pconn_ok (Served hnd s')" .
  with run.prems show ?case by (rule peers_inv_set)
next
  case (refuse P i hnd c c' out)
  then show ?case by (intro peers_inv_set) simp_all
next
  case (cancel P)
  then show ?case by (auto simp: peers_inv_def pconn_ok_cancel)
qed

text \<open>C3: whatever connections the accept loop takes and however their handshakes, messages, timers,
  sending goroutines, cancellation and ends interleave, each served connection has sent messages of
  its handshake handler, the status line, and from there, with what waits in the buffer, whole
  messages; the last is cut off only if the connection takes no more bytes, or was closed after
  \<open>Serve\<close>. A heartbeat that succeeds sends what waits in the buffer.\<close>

theorem peers_output:
  assumes "rtranclp peers_step (peers_init handler source h) P"
    and "\<forall>hnd. handler = Some hnd \<longrightarrow> handshake_handler_ok hnd"
    and "\<forall>src k. source = Some src \<longrightarrow> handshake_handler_ok (src k)"
    and "i < length (pg_conns P)" "pg_conns P ! i = Served hnd s"
  shows "let w = pn_writer s; buf = bw_buf (pw_bw w); conn = bw_wr (pw_bw w) in
    (\<exists>ms0 ms k. (\<forall>m \<in> set (ms0 @ ms). is_msg m) \<and>
       pw_out w @ buf = concat ms0 @ str ''200'' @ [10] @ take k (concat ms) \<and>
       (\<exists>more. pw_out w = concat ms0 @ str ''200'' @ [10] @ more) \<and>
       (length (concat ms) \<le> k \<or> sk_room conn = Some 0 \<or> sk_closed conn \<and> ps_serve (pn_sys s) \<noteq> PeerServing)) \<and>
    (\<forall>c. heartbeat_tick (base_handler hnd) (pn_client s) = (c, Ret True) \<longrightarrow>
       pw_out (pc_w c) = pw_out w @ buf @ [MessageClassControl, ControlMessageHeartbeat])"
proof -
  have "peers_inv (peers_init handler source h)"
    using assms(2,3) by (auto simp: peers_init_def peers_inv_def handler_source_def split: option.splits)
  with assms(1) have "peers_inv P" by (induction rule: rtranclp_induct) (auto intro: peers_step_inv)
  then have ok: "pconn_ok (Served hnd s)" using assms(4,5) by (metis nth_mem peers_inv_def)
  then have "session_stream (pw_bw (pn_writer s))" and closed: "sk_closed (bw_wr (pw_bw (pn_writer s))) \<longrightarrow> ps_serve (pn_sys s) \<noteq> PeerServing"
    unfolding pconn_ok.simps by blast+
  from this(1) obtain ms0 ms k more where msgs: "\<forall>m \<in> set (ms0 @ ms). is_msg m"
    and m: "bw_stream (pw_bw (pn_writer s)) = concat ms0 @ status_line @ take k (concat ms)"
    "pw_out (pn_writer s) = concat ms0 @ status_line @ more"
    and f: "length (concat ms) \<le> k \<or> sink_failed (bw_wr (pw_bw (pn_writer s)))" by (rule session_streamD)
  have cut: "length (concat ms) \<le> k \<or> sk_room (bw_wr (pw_bw (pn_writer s))) = Some 0 \<or>
      sk_closed (bw_wr (pw_bw (pn_writer s))) \<and> ps_serve (pn_sys s) \<noteq> PeerServing"
    using f closed unfolding sink_failed_def by blast
  have whole: "pw_out (pn_writer s) @ bw_buf (pw_bw (pn_writer s)) = concat ms0 @ str ''200'' @ [10] @ take k (concat ms)"
    using m(1) by (simp only: bw_stream_def status_line_200 append_assoc)
  have status: "pw_out (pn_writer s) = concat ms0 @ str ''200'' @ [10] @ more"
    using m(2) by (simp only: status_line_200 append_assoc)
  show ?thesis unfolding Let_def
    by (intro conjI exI [of _ ms0] exI [of _ ms] exI [of _ k] exI [of _ more] allI impI msgs whole status cut)
      (rule heartbeat_sends)
qed

lemma peers_output_witness:
  "\<exists>P s more. rtranclp peers_step (peers_init (Some log_session) None []) P \<and>
    pg_conns P = [Served log_session s] \<and> (\<exists>ms0. pw_out (pn_writer s) = concat ms0 @ str ''200'' @ [10] @ more)"
proof -
  let ?r = "seg_input ([hs_text demo_handshake] @ []) ErrEOF"
  let ?P = "peers_init (Some log_session) None []"
  let ?client = "newPeerClient ([] :: entry_update list) (newWriter (open_sink []))"
  let ?Q = "peer_accept (Inr (?r, None)) ?P"
  have Q: "\<not> pg_crashed ?P" "pg_returned ?P = None" "\<not> pg_crashed ?Q" "pg_h ?Q = []"
    "pg_conns ?Q = [Handshaking log_session ?client ?r]"
    by (simp_all add: peer_accept_def peers_init_def handler_source_def open_sink_def)
  have cs: "[] \<notin> set [hs_text demo_handshake]" "length (concat [hs_text demo_handshake]) \<le> 4096"
    "concat [hs_text demo_handshake] = hs_text demo_handshake @ []"
    "length (concat (butlast [hs_text demo_handshake])) < length (hs_text demo_handshake)"
    by (simp_all add: demo_handshake_text str_def)
  from lockedWrite_open [OF newWriter_flushed] obtain w3 where
    w3: "lockedWrite status_line (newWriter (open_sink [])) = (w3, None)" by blast
  have c: "?client\<lparr>pc_h := []\<rparr> = ?client" by (simp add: newPeerClient_def)
  have hh: "HandleHandshake log_session (pc_ctx ?client) demo_handshake (pc_h ?client, pc_w ?client) =
      Some ([], newWriter (open_sink []))" by (simp add: newPeerClient_def)
  let ?p = "peer_Serve_start log_session ?client ?r"
  have served: "after_handshake log_session ?p = Served log_session (served_conn ?p)"
    using peer_Serve_start_text [OF demo_handshake_ok cs hh w3, of "[]" ErrEOF] by (simp add: after_handshake_def)
  let ?R = "set_pconn 0 (after_handshake log_session ?p) (pc_h (ps_client ?p)) (ps_serve ?p = PeerCrashed) ?Q"
  have "peers_step ?P ?Q" by (rule peers_step.accept) (use Q in simp_all)
  moreover have "peers_step ?Q ?R"
    by (rule peers_step.handshake [where c = ?client and r = ?r]) (use Q in \<open>simp_all add: c\<close>)
  ultimately have run: "rtranclp peers_step ?P ?R" by (meson converse_rtranclp_into_rtranclp rtranclp.rtrancl_refl)
  have R: "pg_conns ?R = [Served log_session (served_conn ?p)]" using Q(5) served by (simp add: set_pconn_def)
  from peers_output [OF run _ _ _, of 0 log_session "served_conn ?p"] R log_session_ok
  have "\<exists>ms0 more. pw_out (pn_writer (served_conn ?p)) = concat ms0 @ str ''200'' @ [10] @ more"
    unfolding Let_def by auto
  with run R show ?thesis by blast
qed

end
