(* ===== verification/Stringers.thy ===== *)
theory Stringers
  imports PeerWriter Scanf
begin

text \<open>
  The \<open>String\<close> methods that \<open>stringer\<close> generated (peers/constants_string.go and
  peers/sticktable/constants_string.go): the names of a type's constants in one string, cut at the
  indices of a table. They are compared with the lists of the constants and their names: the
  generated tables must agree with the constants they were generated from.
\<close>

section \<open>Cutting a name out of a table\<close>

text \<open>\<open>xs[i]\<close> of an array and \<open>s[i:j]\<close> of a string, which panic out of range.\<close>

definition index_at :: "nat list \<Rightarrow> nat \<Rightarrow> nat option" where
  "index_at xs i = (if i < length xs then Ret (xs ! i) else Panic)"

definition str_slice :: "string \<Rightarrow> nat \<Rightarrow> nat \<Rightarrow> string option" where
  "str_slice s i j = (if i \<le> j \<and> j \<le> length s then Ret (take (j - i) (drop i s)) else Panic)"

definition table_name :: "string \<Rightarrow> nat list \<Rightarrow> nat \<Rightarrow> string option" where
  "table_name name index i = do { a \<leftarrow> index_at index i; b \<leftarrow> index_at index (i + 1); str_slice name a b }"

section \<open>The generated methods\<close>

definition HandshakeStatus_name_0 :: string where
  "HandshakeStatus_name_0 = ''HandshakeStatusHandshakeSucceeded''"

definition HandshakeStatus_name_1 :: string where
  "HandshakeStatus_name_1 = ''HandshakeStatusTryAgainLater''"

definition HandshakeStatus_name_2 :: string where
  "HandshakeStatus_name_2 =
     ''HandshakeStatusProtocolErrorHandshakeStatusBadVersionHandshakeStatusLocalPeerIdentifierMismatchHandshakeStatusRemotePeerIdentifierMismatch''"

definition HandshakeStatus_index_2 :: "nat list" where
  "HandshakeStatus_index_2 = [0, 28, 53, 95, 138]"

definition HandshakeStatus_String :: "int \<Rightarrow> string option" where
  "HandshakeStatus_String i =
     (if i = 200 then Ret HandshakeStatus_name_0
      else if i = 300 then Ret HandshakeStatus_name_1
      else if 501 \<le> i \<and> i \<le> 504 then table_name HandshakeStatus_name_2 HandshakeStatus_index_2 (nat (i - 501))
      else Ret (''HandshakeStatus('' @ show_int i @ '')''))"

definition MessageClass_name_0 :: string where
  "MessageClass_name_0 = ''MessageClassControlMessageClassError''"

definition MessageClass_name_1 :: string where
  "MessageClass_name_1 = ''MessageClassStickTableUpdates''"

definition MessageClass_name_2 :: string where
  "MessageClass_name_2 = ''MessageClassReserved''"

definition MessageClass_index_0 :: "nat list" where
  "MessageClass_index_0 = [0, 19, 36]"

definition MessageClass_String :: "byte \<Rightarrow> string option" where
  "MessageClass_String i =
     (if i \<le> 1 then table_name MessageClass_name_0 MessageClass_index_0 (unat i)
      else if i = 10 then Ret MessageClass_name_1
      else if i = 255 then Ret MessageClass_name_2
      else Ret (''MessageClass('' @ show_int (uint i) @ '')''))"

definition ControlMessageType_name :: string where
  "ControlMessageType_name =
     ''ControlMessageSyncRequestControlMessageSyncFinishedControlMessageSyncPartialControlMessageSyncConfirmedControlMessageHeartbeat''"

definition ControlMessageType_index :: "nat list" where
  "ControlMessageType_index = [0, 25, 51, 76, 103, 126]"

definition ControlMessageType_String :: "byte \<Rightarrow> string option" where
  "ControlMessageType_String i =
     (if i \<ge> of_nat (length ControlMessageType_index - 1)
      then Ret (''ControlMessageType('' @ show_int (uint i) @ '')'')
      else table_name ControlMessageType_name ControlMessageType_index (unat i))"

definition ErrorMessageType_name :: string where
  "ErrorMessageType_name = ''ErrorMessageProtocolErrorMessageSizeLimit''"

definition ErrorMessageType_index :: "nat list" where
  "ErrorMessageType_index = [0, 20, 41]"

definition ErrorMessageType_String :: "byte \<Rightarrow> string option" where
  "ErrorMessageType_String i =
     (if i \<ge> of_nat (length ErrorMessageType_index - 1)
      then Ret (''ErrorMessageType('' @ show_int (uint i) @ '')'')
      else table_name ErrorMessageType_name ErrorMessageType_index (unat i))"

definition StickTableUpdateMessageType_name :: string where
  "StickTableUpdateMessageType_name =
     ''StickTableUpdateMessageTypeEntryUpdateStickTableUpdateMessageTypeIncrementalEntryUpdateStickTableUpdateMessageTypeStickTableDefinitionStickTableUpdateMessageTypeStickTableSwitchStickTableUpdateMessageTypeUpdateAcknowledgeStickTableUpdateMessageTypeUpdateTimedStickTableUpdateMessageTypeIncrementalEntryUpdateTimed''"

definition StickTableUpdateMessageType_index :: "nat list" where
  "StickTableUpdateMessageType_index = [0, 38, 87, 134, 177, 221, 259, 313]"

text \<open>The subtraction wraps around for the types below 128, and the addition wraps back.\<close>

definition StickTableUpdateMessageType_String :: "byte \<Rightarrow> string option" where
  "StickTableUpdateMessageType_String i =
     (let i = i - 128 in
      if i \<ge> of_nat (length StickTableUpdateMessageType_index - 1)
      then Ret (''StickTableUpdateMessageType('' @ show_int (uint (i + 128)) @ '')'')
      else table_name StickTableUpdateMessageType_name StickTableUpdateMessageType_index (unat i))"

definition KeyType_name :: string where
  "KeyType_name =
     ''KeyTypeAnyKeyTypeBooleanKeyTypeSignedIntegerKeyTypeAddressKeyTypeIPv4AddressKeyTypeIPv6AddressKeyTypeStringKeyTypeBinaryKeyTypeMethod''"

definition KeyType_index :: "nat list" where
  "KeyType_index = [0, 10, 24, 44, 58, 76, 94, 107, 120, 133]"

definition KeyType_String :: "key_type \<Rightarrow> string option" where
  "KeyType_String i =
     (if sint i < 0 \<or> sint i \<ge> int (length KeyType_index - 1)
      then Ret (''KeyType('' @ show_int (sint i) @ '')'')
      else table_name KeyType_name KeyType_index (nat (sint i)))"

section \<open>The constants and their names\<close>

definition text_of_const :: "('a \<times> string) list \<Rightarrow> string \<Rightarrow> ('a \<Rightarrow> int) \<Rightarrow> 'a \<Rightarrow> string" where
  "text_of_const names ty num i =
     (case map_of names i of Some s \<Rightarrow> s | None \<Rightarrow> ty @ ''('' @ show_int (num i) @ '')'')"

definition HandshakeStatus_consts :: "(int \<times> string) list" where
  "HandshakeStatus_consts =
     [(HandshakeStatusHandshakeSucceeded, ''HandshakeStatusHandshakeSucceeded''),
      (HandshakeStatusTryAgainLater, ''HandshakeStatusTryAgainLater''),
      (HandshakeStatusProtocolError, ''HandshakeStatusProtocolError''),
      (HandshakeStatusBadVersion, ''HandshakeStatusBadVersion''),
      (HandshakeStatusLocalPeerIdentifierMismatch, ''HandshakeStatusLocalPeerIdentifierMismatch''),
      (HandshakeStatusRemotePeerIdentifierMismatch, ''HandshakeStatusRemotePeerIdentifierMismatch'')]"

definition MessageClass_consts :: "(byte \<times> string) list" where
  "MessageClass_consts =
     [(MessageClassControl, ''MessageClassControl''), (MessageClassError, ''MessageClassError''),
      (MessageClassStickTableUpdates, ''MessageClassStickTableUpdates''),
      (MessageClassReserved, ''MessageClassReserved'')]"

definition ControlMessageType_consts :: "(byte \<times> string) list" where
  "ControlMessageType_consts =
     [(ControlMessageSyncRequest, ''ControlMessageSyncRequest''),
      (ControlMessageSyncFinished, ''ControlMessageSyncFinished''),
      (ControlMessageSyncPartial, ''ControlMessageSyncPartial''),
      (ControlMessageSyncConfirmed, ''ControlMessageSyncConfirmed''),
      (ControlMessageHeartbeat, ''ControlMessageHeartbeat'')]"

definition ErrorMessageType_consts :: "(byte \<times> string) list" where
  "ErrorMessageType_consts =
     [(ErrorMessageProtocol, ''ErrorMessageProtocol''), (ErrorMessageSizeLimit, ''ErrorMessageSizeLimit'')]"

definition StickTableUpdateMessageType_consts :: "(byte \<times> string) list" where
  "StickTableUpdateMessageType_consts =
     [(StickTableUpdateMessageTypeEntryUpdate, ''StickTableUpdateMessageTypeEntryUpdate''),
      (StickTableUpdateMessageTypeIncrementalEntryUpdate, ''StickTableUpdateMessageTypeIncrementalEntryUpdate''),
      (StickTableUpdateMessageTypeStickTableDefinition, ''StickTableUpdateMessageTypeStickTableDefinition''),
      (StickTableUpdateMessageTypeStickTableSwitch, ''StickTableUpdateMessageTypeStickTableSwitch''),
      (StickTableUpdateMessageTypeUpdateAcknowledge, ''StickTableUpdateMessageTypeUpdateAcknowledge''),
      (StickTableUpdateMessageTypeUpdateTimed, ''StickTableUpdateMessageTypeUpdateTimed''),
      (StickTableUpdateMessageTypeIncrementalEntryUpdateTimed, ''StickTableUpdateMessageTypeIncrementalEntryUpdateTimed'')]"

definition KeyType_consts :: "(key_type \<times> string) list" where
  "KeyType_consts =
     [(KeyTypeAny, ''KeyTypeAny''), (KeyTypeBoolean, ''KeyTypeBoolean''),
      (KeyTypeSignedInteger, ''KeyTypeSignedInteger''), (KeyTypeAddress, ''KeyTypeAddress''),
      (KeyTypeIPv4Address, ''KeyTypeIPv4Address''), (KeyTypeIPv6Address, ''KeyTypeIPv6Address''),
      (KeyTypeString, ''KeyTypeString''), (KeyTypeBinary, ''KeyTypeBinary''), (KeyTypeMethod, ''KeyTypeMethod'')]"

lemmas const_tables =
  HandshakeStatus_consts_def MessageClass_consts_def ControlMessageType_consts_def
  ErrorMessageType_consts_def StickTableUpdateMessageType_consts_def KeyType_consts_def

section \<open>Texts that tell values apart\<close>

lemma show_nat_inj: "show_nat m = show_nat n \<Longrightarrow> m = n"
  by (metis digits_val_show_nat)

lemma show_nat_no_minus: "show_nat n \<noteq> CHR ''-'' # s"
proof
  assume "show_nat n = CHR ''-'' # s"
  with show_nat_digits [of n] show False by simp
qed

lemma show_int_inj: "show_int i = show_int j \<Longrightarrow> i = j"
  by (auto simp: show_int_def show_nat_no_minus not_sym [OF show_nat_no_minus]
      dest!: show_nat_inj split: if_splits)

text \<open>
  The contract of a generated method: it never panics, and gives the name of a constant or the
  type with a number. Then different values have different texts, because no name has a bracket.
\<close>

locale named_consts =
  fixes string_of :: "'a \<Rightarrow> string option" and names :: "('a \<times> string) list" and ty :: string
    and num :: "'a \<Rightarrow> int"
  assumes string_of_eq: "string_of i = Ret (text_of_const names ty num i)"
    and names_plain: "\<forall>s \<in> snd ` set names. CHR ''('' \<notin> set s"
    and names_distinct: "distinct (map snd names)"
    and num_inj: "num i = num j \<Longrightarrow> i = j"
begin

lemma string_of_inj: "string_of i = string_of j \<longleftrightarrow> i = j"
proof
  assume eq: "string_of i = string_of j"
  have plain: "CHR ''('' \<notin> set s" if "map_of names k = Some s" for k s
    using names_plain map_of_SomeD [OF that] by force
  show "i = j"
  proof (cases "map_of names i"; cases "map_of names j")
    fix s s' assume "map_of names i = Some s" "map_of names j = Some s'"
    with eq have "(i, s) \<in> set names" "(j, s) \<in> set names"
      by (simp_all add: string_of_eq text_of_const_def map_of_SomeD)
    moreover have "inj_on snd (set names)" using names_distinct by (simp add: distinct_map)
    ultimately show ?thesis using inj_onD [of snd "set names" "(i, s)" "(j, s)"] by simp
  next
    assume "map_of names i = None" "map_of names j = None"
    with eq have "show_int (num i) = show_int (num j)" by (simp add: string_of_eq text_of_const_def)
    then show ?thesis by (intro num_inj show_int_inj)
  next
    fix s assume "map_of names i = None" "map_of names j = Some s"
    with eq have "s = ty @ ''('' @ show_int (num i) @ '')''" by (simp add: string_of_eq text_of_const_def)
    with plain [OF \<open>map_of names j = Some s\<close>] show ?thesis by simp
  next
    fix s assume "map_of names i = Some s" "map_of names j = None"
    with eq have "s = ty @ ''('' @ show_int (num j) @ '')''" by (simp add: string_of_eq text_of_const_def)
    with plain [OF \<open>map_of names i = Some s\<close>] show ?thesis by simp
  qed
qed simp

end

section \<open>The six methods\<close>

lemma named_consts_num: "uint (b :: byte) = uint b' \<longleftrightarrow> b = b'" "sint (k :: key_type) = sint k' \<longleftrightarrow> k = k'"
  by (simp add: word_uint_eq_iff) (simp flip: word_eq_iff_signed)

lemma word_below: "\<forall>k \<in> set [0..<n]. P (of_nat k) \<Longrightarrow> unat (i :: 'a::len word) < n \<Longrightarrow> P i"
  by (drule bspec [of _ _ "unat i"]) simp_all

lemma HandshakeStatus_names:
  "table_name HandshakeStatus_name_2 HandshakeStatus_index_2 0 = Ret ''HandshakeStatusProtocolError''"
  "table_name HandshakeStatus_name_2 HandshakeStatus_index_2 (Suc 0) = Ret ''HandshakeStatusBadVersion''"
  "table_name HandshakeStatus_name_2 HandshakeStatus_index_2 2 = Ret ''HandshakeStatusLocalPeerIdentifierMismatch''"
  "table_name HandshakeStatus_name_2 HandshakeStatus_index_2 3 = Ret ''HandshakeStatusRemotePeerIdentifierMismatch''"
  by code_simp+

lemma HandshakeStatus_text:
  "HandshakeStatus_String i = Ret (text_of_const HandshakeStatus_consts ''HandshakeStatus'' (\<lambda>i. i) i)"
proof -
  consider "i = 200" | "i = 300" | "i = 501" | "i = 502" | "i = 503" | "i = 504" |
    "i \<notin> {200, 300, 501, 502, 503, 504}" by blast
  then show ?thesis
  proof cases
    case 7
    then have "501 \<le> i \<Longrightarrow> \<not> i \<le> 504" by auto
    with 7 show ?thesis
      by (simp cong: conj_cong add: HandshakeStatus_String_def text_of_const_def HandshakeStatus_consts_def peer_defs)
  qed (simp_all add: HandshakeStatus_String_def text_of_const_def HandshakeStatus_consts_def peer_defs
      HandshakeStatus_names HandshakeStatus_name_0_def HandshakeStatus_name_1_def)
qed

interpretation handshake_status: named_consts HandshakeStatus_String HandshakeStatus_consts
  "''HandshakeStatus''" "\<lambda>i. i"
  by unfold_locales (simp_all add: HandshakeStatus_text const_tables named_consts_num)

lemma MessageClass_text:
  "MessageClass_String i = Ret (text_of_const MessageClass_consts ''MessageClass'' uint i)"
proof (cases "i \<le> 1")
  case True
  have "\<forall>k \<in> set [0..<2]. table_name MessageClass_name_0 MessageClass_index_0 (unat (of_nat k :: byte)) =
      Ret (text_of_const MessageClass_consts ''MessageClass'' uint (of_nat k))" by code_simp
  from word_below [OF this] True show ?thesis by (simp add: MessageClass_String_def word_le_nat_alt)
next
  case False
  then have "i \<noteq> 0" "i \<noteq> 1" by auto
  with False show ?thesis
    by (simp add: MessageClass_String_def text_of_const_def MessageClass_consts_def peer_defs
        MessageClass_name_1_def MessageClass_name_2_def)
qed

lemma ControlMessageType_text:
  "ControlMessageType_String i = Ret (text_of_const ControlMessageType_consts ''ControlMessageType'' uint i)"
proof (cases "i \<ge> 5")
  case False
  have "\<forall>k \<in> set [0..<5]. table_name ControlMessageType_name ControlMessageType_index (unat (of_nat k :: byte)) =
      Ret (text_of_const ControlMessageType_consts ''ControlMessageType'' uint (of_nat k))" by code_simp
  from word_below [OF this, of i] False show ?thesis
    by (simp add: ControlMessageType_String_def ControlMessageType_index_def word_le_nat_alt)
next
  case True
  then have "i \<notin> {0, 1, 2, 3, 4}" by (auto simp: word_le_nat_alt)
  with True show ?thesis
    by (simp add: ControlMessageType_String_def ControlMessageType_index_def text_of_const_def
        ControlMessageType_consts_def peer_defs)
qed

lemma ErrorMessageType_text:
  "ErrorMessageType_String i = Ret (text_of_const ErrorMessageType_consts ''ErrorMessageType'' uint i)"
proof (cases "i \<ge> 2")
  case False
  have "\<forall>k \<in> set [0..<2]. table_name ErrorMessageType_name ErrorMessageType_index (unat (of_nat k :: byte)) =
      Ret (text_of_const ErrorMessageType_consts ''ErrorMessageType'' uint (of_nat k))" by code_simp
  from word_below [OF this, of i] False show ?thesis
    by (simp add: ErrorMessageType_String_def ErrorMessageType_index_def word_le_nat_alt)
next
  case True
  then have "i \<notin> {0, 1}" by (auto simp: word_le_nat_alt)
  with True show ?thesis
    by (simp add: ErrorMessageType_String_def ErrorMessageType_index_def text_of_const_def
        ErrorMessageType_consts_def peer_defs)
qed

lemma StickTableUpdateMessageType_text:
  "StickTableUpdateMessageType_String i =
     Ret (text_of_const StickTableUpdateMessageType_consts ''StickTableUpdateMessageType'' uint i)"
proof -
  obtain j where j: "i = j + 128" by (metis diff_add_cancel)
  show ?thesis
  proof (cases "j \<ge> 7")
    case False
    have "\<forall>k \<in> set [0..<7]. table_name StickTableUpdateMessageType_name StickTableUpdateMessageType_index
        (unat (of_nat k :: byte)) =
      Ret (text_of_const StickTableUpdateMessageType_consts ''StickTableUpdateMessageType'' uint (of_nat k + 128))"
      by code_simp
    from word_below [OF this, of j] False show ?thesis
      by (simp add: j StickTableUpdateMessageType_String_def StickTableUpdateMessageType_index_def word_le_nat_alt)
  next
    case True
    have "i \<notin> {128, 129, 130, 131, 132, 133, 134}"
    proof
      assume "i \<in> {128, 129, 130, 131, 132, 133, 134}"
      then have "j \<in> {0, 1, 2, 3, 4, 5, 6}" by (auto simp: j eq_diff_eq [symmetric])
      with True show False by (auto simp: word_le_nat_alt)
    qed
    with True show ?thesis
      by (simp add: j StickTableUpdateMessageType_String_def StickTableUpdateMessageType_index_def
          text_of_const_def StickTableUpdateMessageType_consts_def peer_defs)
  qed
qed

lemma KeyType_text: "KeyType_String i = Ret (text_of_const KeyType_consts ''KeyType'' sint i)"
proof (cases "sint i < 0 \<or> sint i \<ge> 9")
  case False
  then have "uint i = sint i" by (simp add: uint_sint [of i] take_bit_int_eq_self)
  then have u: "unat i = nat (sint i)" by (metis nat_uint_eq)
  have "\<forall>k \<in> set [0..<9]. table_name KeyType_name KeyType_index (unat (of_nat k :: key_type)) =
      Ret (text_of_const KeyType_consts ''KeyType'' sint (of_nat k))" by code_simp
  from word_below [OF this, of i] False u show ?thesis
    by (simp add: KeyType_String_def KeyType_index_def nat_less_iff not_less)
next
  case True
  then have "i \<notin> {0, 1, 2, 3, 4, 5, 6, 7, 8}" by auto
  with True show ?thesis
    by (simp add: KeyType_String_def KeyType_index_def text_of_const_def KeyType_consts_def stick_defs)
qed

interpretation message_class: named_consts MessageClass_String MessageClass_consts "''MessageClass''" uint
  by unfold_locales (simp_all add: MessageClass_text const_tables named_consts_num)

interpretation control_type: named_consts ControlMessageType_String ControlMessageType_consts
  "''ControlMessageType''" uint
  by unfold_locales (simp_all add: ControlMessageType_text const_tables named_consts_num)

interpretation error_type: named_consts ErrorMessageType_String ErrorMessageType_consts
  "''ErrorMessageType''" uint
  by unfold_locales (simp_all add: ErrorMessageType_text const_tables named_consts_num)

interpretation update_type: named_consts StickTableUpdateMessageType_String
  StickTableUpdateMessageType_consts "''StickTableUpdateMessageType''" uint
  by unfold_locales (simp_all add: StickTableUpdateMessageType_text const_tables named_consts_num)

interpretation key_type: named_consts KeyType_String KeyType_consts "''KeyType''" sint
  by unfold_locales (simp_all add: KeyType_text const_tables named_consts_num)

text \<open>C40: the generated \<open>String\<close> methods never panic: each gives the name of every constant of its
  type and the type with the number for any other value. So the tables agree with the constants, and
  different values have different texts.\<close>

theorem string_methods:
  "HandshakeStatus_String s = Ret (text_of_const HandshakeStatus_consts ''HandshakeStatus'' (\<lambda>i. i) s) \<and>
   MessageClass_String c = Ret (text_of_const MessageClass_consts ''MessageClass'' uint c) \<and>
   ControlMessageType_String t = Ret (text_of_const ControlMessageType_consts ''ControlMessageType'' uint t) \<and>
   ErrorMessageType_String t = Ret (text_of_const ErrorMessageType_consts ''ErrorMessageType'' uint t) \<and>
   StickTableUpdateMessageType_String t =
     Ret (text_of_const StickTableUpdateMessageType_consts ''StickTableUpdateMessageType'' uint t) \<and>
   KeyType_String k = Ret (text_of_const KeyType_consts ''KeyType'' sint k) \<and>
   inj HandshakeStatus_String \<and> inj MessageClass_String \<and> inj ControlMessageType_String \<and>
   inj ErrorMessageType_String \<and> inj StickTableUpdateMessageType_String \<and> inj KeyType_String"
  using handshake_status.string_of_inj message_class.string_of_inj control_type.string_of_inj
    error_type.string_of_inj update_type.string_of_inj key_type.string_of_inj
  by (simp only: HandshakeStatus_text MessageClass_text ControlMessageType_text ErrorMessageType_text
      StickTableUpdateMessageType_text KeyType_text inj_def simp_thms)

end
