(* ===== verification/StickText.thy ===== *)
theory StickText
  imports Stringers
begin

text \<open>
  The \<open>String\<close> methods of keys and data values (peers/sticktable/values.go) and of entry updates
  (peers/sticktable/sticktables.go), over what they use of \<open>fmt\<close> and of \<open>netip.Addr.String\<close>. A
  string key is any bytes, so a text is a list of bytes.
\<close>

section \<open>Addresses (net/netip)\<close>

fun show_hex :: "nat \<Rightarrow> string" where
  "show_hex n =
     (if n < 16 then [''0123456789abcdef'' ! n] else show_hex (n div 16) @ [''0123456789abcdef'' ! (n mod 16)])"

declare show_hex.simps [simp del]

definition string4 :: "byte list \<Rightarrow> byte list" where
  "string4 x = Join (map (\<lambda>b. str (show_nat (unat b))) x) (str ''.'')"

fun words16 :: "byte list \<Rightarrow> nat list" where
  "words16 (a # b # x) = (unat a * 256 + unat b) # words16 x"
| "words16 x = []"

text \<open>The first longest run of at least two zero words, which is written as two colons.\<close>

definition zero_run :: "nat list \<Rightarrow> (nat \<times> nat) option" where
  "zero_run ws =
     foldl (\<lambda>best i. let l = length (takeWhile ((=) 0) (drop i ws)) in
         if 2 \<le> l \<and> (case best of None \<Rightarrow> True | Some (s, n) \<Rightarrow> n < l) then Some (i, l) else best)
       None [0..<length ws]"

definition hex_words :: "nat list \<Rightarrow> byte list" where
  "hex_words ws = Join (map (\<lambda>n. str (show_hex n)) ws) (str '':'')"

definition string6 :: "byte list \<Rightarrow> byte list" where
  "string6 x =
     (let ws = words16 x in
      case zero_run ws of
        None \<Rightarrow> hex_words ws
      | Some (i, l) \<Rightarrow> hex_words (take i ws) @ str ''::'' @ hex_words (drop (i + l) ws))"

definition zone_suffix :: "string \<Rightarrow> byte list" where
  "zone_suffix z = (if z = [] then [] else str ''%'' @ str z)"

fun Addr_String :: "addr \<Rightarrow> byte list" where
  "Addr_String NoAddr = str ''invalid IP''"
| "Addr_String (Addr4 x) = string4 x"
| "Addr_String (Addr6 x z) =
     (if take 12 x = mapped_prefix then str ''::ffff:'' @ string4 (drop 12 x) @ zone_suffix z
      else string6 x @ zone_suffix z)"

section \<open>Keys and values\<close>

text \<open>\<open>%v\<close> of a slice of bytes.\<close>

definition show_bytes :: "byte list \<Rightarrow> byte list" where
  "show_bytes b = str ''['' @ Join (map (\<lambda>x. str (show_nat (unat x))) b) (str '' '') @ str '']''"

definition SignedIntegerKey_String :: "u32 \<Rightarrow> byte list" where
  "SignedIntegerKey_String v = str (show_int (sint v))"

definition IPv4AddressKey_String :: "addr \<Rightarrow> byte list" where
  "IPv4AddressKey_String v = Addr_String v"

definition IPv6AddressKey_String :: "addr \<Rightarrow> byte list" where
  "IPv6AddressKey_String v = Addr_String v"

definition StringKey_String :: "byte list \<Rightarrow> byte list" where
  "StringKey_String v = v"

definition BinaryKey_String :: "byte list \<Rightarrow> byte list" where
  "BinaryKey_String v = show_bytes v"

fun MapKey_String :: "map_key \<Rightarrow> byte list" where
  "MapKey_String (SignedIntegerKey v) = SignedIntegerKey_String v"
| "MapKey_String (IPv4AddressKey v) = IPv4AddressKey_String v"
| "MapKey_String (IPv6AddressKey v) = IPv6AddressKey_String v"
| "MapKey_String (StringKey v) = StringKey_String v"
| "MapKey_String (BinaryKey v) = BinaryKey_String v"

definition FreqData_String :: "freq \<Rightarrow> byte list" where
  "FreqData_String f =
     str (''tick/cur/last: '' @ show_nat (unat (CurrentTick f)) @ ''/'' @ show_nat (unat (CurrentPeriod f)) @
       ''/'' @ show_nat (unat (LastPeriod f)))"

definition SignedIntegerData_String :: "u32 \<Rightarrow> byte list" where
  "SignedIntegerData_String v = str (show_int (sint v))"

definition UnsignedIntegerData_String :: "u32 \<Rightarrow> byte list" where
  "UnsignedIntegerData_String v = str (show_nat (unat v))"

definition UnsignedLongLongData_String :: "u64 \<Rightarrow> byte list" where
  "UnsignedLongLongData_String v = str (show_nat (unat v))"

definition DictData_String :: "dict \<Rightarrow> byte list" where
  "DictData_String f =
     (if ID f = 0 then str ''No Entry''
      else str (show_nat (unat (ID f))) @ str '': '' @ show_bytes (Value f))"

fun MapData_String :: "map_data \<Rightarrow> byte list" where
  "MapData_String (FreqData f) = FreqData_String f"
| "MapData_String (SignedIntegerData v) = SignedIntegerData_String v"
| "MapData_String (UnsignedIntegerData v) = UnsignedIntegerData_String v"
| "MapData_String (UnsignedLongLongData v) = UnsignedLongLongData_String v"
| "MapData_String (DictData f) = DictData_String f"

section \<open>Entry updates\<close>

text \<open>The loop over the data values: the \<open>i\<close>-th has the type of the \<open>i\<close>-th column of the table, and
  a value beyond the last column is an index out of range.\<close>

fun data_texts :: "data_def list \<Rightarrow> nat \<Rightarrow> map_data list \<Rightarrow> byte list list option" where
  "data_texts ds i [] = Ret []"
| "data_texts ds i (d # xs) =
     (if i < length ds then
        do {
          ts \<leftarrow> data_texts ds (i + 1) xs;
          Ret ((str (DataType_String (dd_DataType (ds ! i))) @ str '': '' @ MapData_String d) # ts)
        }
      else Panic)"

text \<open>\<open>%s\<close> calls \<open>String\<close> of a key, and prints a mark for none.\<close>

definition EntryUpdate_String :: "entry_update \<Rightarrow> byte list option" where
  "EntryUpdate_String e =
     do {
       ts \<leftarrow> data_texts (td_DataTypes (eu_StickTable e)) 0 (eu_Data e);
       Ret (str ''EntryUpdate '' @ str (show_nat (unat (eu_LocalUpdateID e))) @ str '': '' @
         (case eu_Key e of None \<Rightarrow> str ''%!s(<nil>)'' | Some k \<Rightarrow> MapKey_String k) @ str '' - '' @
         Join ts (str '' | ''))
     }"

definition column_text :: "data_def \<Rightarrow> map_data \<Rightarrow> byte list" where
  "column_text c d = str (DataType_String (dd_DataType c)) @ str '': '' @ MapData_String d"

lemma data_texts_eq:
  "i \<le> length ds \<Longrightarrow> data_texts ds i xs =
     (if i + length xs \<le> length ds then Ret (map2 column_text (drop i ds) xs) else Panic)"
proof (induction xs arbitrary: i)
  case (Cons d xs)
  then show ?case
    by (auto simp: column_text_def Cons_nth_drop_Suc [symmetric])
qed simp

text \<open>An update prints exactly if it has no more values than its table has columns.\<close>

lemma EntryUpdate_String_panics:
  "EntryUpdate_String e = Panic \<longleftrightarrow> length (td_DataTypes (eu_StickTable e)) < length (eu_Data e)"
  by (simp add: EntryUpdate_String_def data_texts_eq)

lemma EntryUpdate_String_typed: "entry_typed e \<Longrightarrow> \<exists>t. EntryUpdate_String e = Ret t"
  using EntryUpdate_String_panics [of e] by (auto simp: entry_typed_def data_typed_def dest: list_all2_lengthD)

text \<open>An update whose key and values have the types of its table, as every update that was
  received has, prints without a panic: its id, its key, and each value after the name of its column.\<close>

lemma entry_text:
  assumes "entry_typed e"
  shows "\<exists>k. eu_Key e = Some k \<and>
    EntryUpdate_String e =
      Ret (str ''EntryUpdate '' @ str (show_nat (unat (eu_LocalUpdateID e))) @ str '': '' @ MapKey_String k @
        str '' - '' @ Join (map2 column_text (td_DataTypes (eu_StickTable e)) (eu_Data e)) (str '' | ''))"
  using assms
  by (auto simp: entry_typed_def key_typed_def data_typed_def EntryUpdate_String_def data_texts_eq
      dest: list_all2_lengthD)

lemma entry_text_witness:
  "EntryUpdate_String demo_entry = Ret (str ''EntryUpdate 77: ab - gpc0: 5 | gpc0_rate: tick/cur/last: 1/2/300'')"
proof -
  have "entry_typed demo_entry" using demo_entry_ok by (simp add: entry_ok_def)
  from entry_text [OF this] obtain k where k: "eu_Key demo_entry = Some k"
    "EntryUpdate_String demo_entry =
      Ret (str ''EntryUpdate '' @ str (show_nat (unat (eu_LocalUpdateID demo_entry))) @ str '': '' @ MapKey_String k @
        str '' - '' @ Join (map2 column_text (td_DataTypes (eu_StickTable demo_entry)) (eu_Data demo_entry)) (str '' | ''))"
    by blast
  have "str ''EntryUpdate '' @ str (show_nat (unat (eu_LocalUpdateID demo_entry))) @ str '': '' @
      MapKey_String (StringKey [97, 98]) @ str '' - '' @
      Join (map2 column_text (td_DataTypes (eu_StickTable demo_entry)) (eu_Data demo_entry)) (str '' | '') =
    str ''EntryUpdate 77: ab - gpc0: 5 | gpc0_rate: tick/cur/last: 1/2/300''" by code_simp
  with k show ?thesis by (simp add: demo_entry_def)
qed

end
