(* ===== verification/PeerExamples.thy ===== *)
theory PeerExamples
  imports PeerListener StickText
begin

text \<open>
  \<open>HandlerFunc\<close> (peers/handler.go) and the handlers of the example programs (peers/example): \<open>dump\<close>
  prints the updates, \<open>prometheus-exporter\<close> sets a gauge for each value, \<open>push\<close> answers every update
  with an entry of a table of its own. They show the contract of handlers at work on whole programs.
\<close>

section \<open>HandlerFunc\<close>

definition HandlerFunc ::
  "(gerr option \<Rightarrow> entry_update \<Rightarrow> 'h \<times> pwriter \<Rightarrow> ('h \<times> pwriter) option) \<Rightarrow> 'h full_handler" where
  "HandlerFunc h =
     \<lparr>HandleUpdate = h, HandlerClose = (\<lambda>s. Some (s, None)), HandleHandshake = (\<lambda>ctx hs s. Some s)\<rparr>"

section \<open>The examples\<close>

text \<open>A handler's state is what it has logged.\<close>

datatype log_line = Line "byte list" | LineErr string gerr

definition dump_update :: "gerr option \<Rightarrow> entry_update \<Rightarrow> log_line list \<times> pwriter \<Rightarrow> (log_line list \<times> pwriter) option" where
  "dump_update ctx u s =
     (case s of (log, w) \<Rightarrow> do { t \<leftarrow> EntryUpdate_String u; Ret (log @ [Line t], w) })"

definition push_table :: table_def where
  "push_table =
     \<lparr>td_Name = str ''my_blocklist'',
      td_DataTypes = [\<lparr>dd_DataType = DataTypeGPC0, dd_Counter = 0, dd_Period = 0\<rparr>],
      td_KeyType = KeyTypeIPv4Address, td_StickTableID = 0, td_KeyLength = 4, td_Expiry = 300000\<rparr>"

definition push_entry :: entry_update where
  "push_entry =
     \<lparr>eu_StickTable = push_table, eu_Key = Some (IPv4AddressKey (Addr4 [10, 0, 0, 1])),
      eu_Data = [UnsignedIntegerData 1], eu_WithLocalUpdateID = False, eu_LocalUpdateID = 0,
      eu_WithExpiry = False, eu_Expiry = 0\<rparr>"

definition push_update :: "gerr option \<Rightarrow> entry_update \<Rightarrow> log_line list \<times> pwriter \<Rightarrow> (log_line list \<times> pwriter) option" where
  "push_update ctx u s =
     (case s of (log, w) \<Rightarrow> do {
        t \<leftarrow> EntryUpdate_String u;
        let log = log @ [Line (str ''received: '' @ t)];
        case SendTableDefinition push_table w of
          (w, None) \<Rightarrow> Panic
        | (w, Some (Some e)) \<Rightarrow> Ret (log @ [LineErr ''error sending table definition'' e], w)
        | (w, Some None) \<Rightarrow>
            (case SendEntry push_entry w of
               (w, None) \<Rightarrow> Panic
             | (w, Some (Some e)) \<Rightarrow> Ret (log @ [LineErr ''error sending entry'' e], w)
             | (w, Some None) \<Rightarrow> Ret (log @ [Line (str ''pushed blocklist entry for 10.0.0.1'')], w))
      })"

text \<open>
  The exporter: \<open>setv\<close> stands for \<open>metric.WithLabelValues(table, type, key).Set(float64(v))\<close> of the
  Prometheus library, given the labels and the integer, which may panic. A dictionary entry has no
  number.
\<close>

fun gauge_value :: "map_data \<Rightarrow> int option" where
  "gauge_value (FreqData f) = Some (uint (LastPeriod f))"
| "gauge_value (SignedIntegerData v) = Some (sint v)"
| "gauge_value (UnsignedIntegerData v) = Some (uint v)"
| "gauge_value (UnsignedLongLongData v) = Some (uint v)"
| "gauge_value (DictData f) = None"

fun export_data ::
  "(byte list \<Rightarrow> byte list \<Rightarrow> byte list \<Rightarrow> int \<Rightarrow> 's \<Rightarrow> 's option) \<Rightarrow> entry_update \<Rightarrow> nat \<Rightarrow> map_data list \<Rightarrow>
   's \<Rightarrow> 's option" where
  "export_data setv u i [] s = Ret s"
| "export_data setv u i (d # xs) s =
     (if i < length (td_DataTypes (eu_StickTable u)) then
        let dt = dd_DataType (td_DataTypes (eu_StickTable u) ! i) in
        case gauge_value d of
          None \<Rightarrow> export_data setv u (i + 1) xs s
        | Some v \<Rightarrow>
            (case eu_Key u of
               None \<Rightarrow> Panic
             | Some k \<Rightarrow> do {
                 s \<leftarrow> setv (td_Name (eu_StickTable u)) (str (DataType_String dt)) (MapKey_String k) v s;
                 export_data setv u (i + 1) xs s
               })
      else Panic)"

definition export_update ::
  "(byte list \<Rightarrow> byte list \<Rightarrow> byte list \<Rightarrow> int \<Rightarrow> 's \<Rightarrow> 's option) \<Rightarrow>
   gerr option \<Rightarrow> entry_update \<Rightarrow> 's \<times> pwriter \<Rightarrow> ('s \<times> pwriter) option" where
  "export_update setv ctx u s =
     (case s of (g, w) \<Rightarrow> do { g \<leftarrow> export_data setv u 0 (eu_Data u) g; Ret (g, w) })"

section \<open>The contract of handlers\<close>

text \<open>A function that acts on the writer by its methods makes a handler for the theorems on sessions.\<close>

locale writer_client =
  fixes upd :: "gerr option \<Rightarrow> entry_update \<Rightarrow> 'h \<times> pwriter \<Rightarrow> ('h \<times> pwriter) option"
  assumes upd_writes: "upd ctx u (h, w) = Some (h', w') \<Longrightarrow> \<exists>ms. writes w ms w'"
begin

lemma handler_func_ok: "handshake_handler_ok (HandlerFunc upd)"
proof -
  have "\<exists>ms. writes w ms w" for w using writes_none by blast
  then show ?thesis
    by (auto simp: handshake_handler_ok_def peer_handler_ok_def base_handler_def HandlerFunc_def dest: upd_writes)
qed

end

interpretation dump: writer_client dump_update
  by unfold_locales (auto simp: dump_update_def bind_eq_Some_conv intro!: exI [of _ "[]"] writes_none)

interpretation export: writer_client "export_update setv" for setv
  by unfold_locales (auto simp: export_update_def bind_eq_Some_conv intro!: exI [of _ "[]"] writes_none)

lemma SendTableDefinition_writes: "SendTableDefinition d w = (w', r) \<Longrightarrow> \<exists>ms. writes w ms w'"
proof -
  assume s: "SendTableDefinition d w = (w', r)"
  obtain v q where v: "write_def d w = (v, q)" by (metis surj_pair)
  then obtain ms where ms: "writes w ms v"
    unfolding write_def_def using put_def_writes by (fastforce simp: peer_defs)
  obtain u err where u: "Writer_Flush v = (u, err)" by (metis surj_pair)
  from writes_append [OF ms, of "[]" u] Writer_Flush_writes [OF u] have "writes w ms u" by simp
  with ms s v u show ?thesis by (auto simp: SendTableDefinition_def then_flush_def split: option.splits)
qed

interpretation push: writer_client push_update
proof unfold_locales
  fix ctx u h w h' w'
  assume p: "push_update ctx u (h, w) = Some (h', w')"
  obtain w1 r1 where d: "SendTableDefinition push_table w = (w1, r1)" by (metis surj_pair)
  obtain w2 r2 where s: "SendEntry push_entry w1 = (w2, r2)" by (metis surj_pair)
  with p d have e: "w' = w1 \<or> SendEntry push_entry w1 = (w', r2)"
    by (auto simp: push_update_def Let_def bind_eq_Some_conv split: option.splits)
  from SendTableDefinition_writes [OF d] obtain ms where ms: "writes w ms w1" by blast
  from e show "\<exists>ms. writes w ms w'"
  proof
    assume "SendEntry push_entry w1 = (w', r2)"
    from SendEntry_writes [OF this] obtain ms' where "writes w1 ms' w'" by blast
    from writes_append [OF ms this] show ?thesis by blast
  qed (use ms in blast)
qed

text \<open>An update that was received makes \<open>dump\<close> log one line, and never panic.\<close>

lemma dump_logs:
  "entry_typed u \<Longrightarrow> \<exists>t. EntryUpdate_String u = Ret t \<and> dump_update ctx u (log, w) = Ret (log @ [Line t], w)"
  using EntryUpdate_String_typed [of u] by (auto simp: dump_update_def)

section \<open>The push example at work\<close>

lemma SendEntry_one:
  assumes "SendEntries [e] w = (w', Ret err)" "put_entry e (pw_lock w) = (v, Ret r)"
  shows "SendEntry e w = (w', Ret err)"
  using assms by (auto simp: SendEntries_def SendEntry_def split: option.splits prod.splits)

lemma push_table_ok: "def_ok push_table"
  by (simp add: def_ok_def push_table_def data_defs_ok_def data_def_ok_def IsDelay_def stick_defs
      max_alloc_def str_def)

lemma push_table_length: "length (def_enc push_table) \<le> 4096"
proof -
  have "length (varint_enc (data_mask (td_DataTypes push_table))) \<le> 10" by (rule length_varint_enc_le)
  then show ?thesis
    by (simp add: def_enc_def) (simp add: push_table_def bytes_enc_def str_def varint_enc_def varint_rest.simps
        drop_bit_eq_div word_le_nat_alt IsDelay_def stick_defs)
qed

lemma push_entry_ok: "entry_ok push_entry" "sendable push_entry" "eu_StickTable push_entry = push_table"
proof -
  have "length (entry_enc (numbered 0 push_entry)) \<le> 65536"
    by (simp add: numbered_def push_entry_def entry_enc_def be32_if_def body_enc_def varint_enc_def)
  then show "entry_ok push_entry" "sendable push_entry" "eu_StickTable push_entry = push_table"
    by (simp_all add: sendable_def entry_ok_def push_entry_def push_table_def entry_typed_def key_typed_def
        data_typed_def entry_key_ok_def KeyType_New_def DataType_New_def stick_defs)
qed

lemma push_entry_sent:
  assumes "pw_flushed w"
  shows "\<exists>w'. SendEntry push_entry w = (w', Ret None) \<and> SendEntries [push_entry] w = (w', Ret None) \<and> pw_flushed w'"
proof -
  from send_entries_open [OF _ assms, of "[push_entry]"] push_entry_ok(2) obtain w' where
    w': "SendEntries [push_entry] w = (w', Ret None)" "pw_flushed w'" by auto
  have "slen (pw_buf (pw_lock w)) = 65536" using assms by (simp add: pw_flushed_def pw_ready_def)
  from put_entry_sent [OF push_entry_ok(2) this] obtain v r where "put_entry push_entry (pw_lock w) = (v, Ret r)"
    by blast
  from SendEntry_one [OF w'(1) this] w' show ?thesis by blast
qed

text \<open>C15: the example \<open>push\<close>, in both directions: when \<open>Serve\<close> of the program gets an entry of a table it
  knows, over a connection that does not fail, the program logs its text, sends its own table and
  its entry, and the peer at the other end, reading those bytes, gets that entry: the address
  10.0.0.1 with the counter 1 and the next update id.\<close>

theorem push_answers:
  assumes "entry_ok e" and "sendable e" and "pc_lastTableDefinition c = Some (eu_StickTable e)"
    and "pw_flushed (pc_w c)"
  shows "\<exists>c' text bytes. EntryUpdate_String (received i e) = Ret text \<and>
    peer_Serve_iter (base_handler (HandlerFunc push_update)) (start_sys c (entry_msg i e @ t)) = start_sys c' t \<and>
    pc_h c' = pc_h c @ [Line (str ''received: '' @ text), Line (str ''pushed blocklist entry for 10.0.0.1'')] \<and>
    pw_out (pc_w c') = pw_out (pc_w c) @ bytes \<and>
    (\<forall>b. pc_ctx b = None \<longrightarrow>
      (\<exists>b'. (peer_Serve_iter log_handler ^^ 3) (start_sys b bytes) =
          \<lparr>ps_client = b', ps_in = \<lparr>rd_data = [], rd_err = ErrEOF\<rparr>, ps_serve = PeerReturned None\<rparr> \<and>
        pc_h b' = pc_h b @ [received (pw_nextUpdateID (pc_w c)) push_entry]))"
proof -
  have typed: "entry_typed (received i e)"
    using assms(1) by (simp add: entry_ok_def received_def numbered_def entry_typed_def)
  then obtain tx where tx: "EntryUpdate_String (received i e) = Ret tx" using EntryUpdate_String_typed by blast
  have es: "\<forall>e \<in> set [push_entry]. entry_ok e \<and> eu_StickTable e = push_table \<and> sendable e"
    using push_entry_ok by simp
  from replication [OF push_table_ok push_table_length es assms(4)] obtain w1 w2 bytes where
    sent: "SendTableDefinition push_table (pc_w c) = (w1, Ret None)" "SendEntries [push_entry] w1 = (w2, Ret None)"
      "pw_out w2 = pw_out (pc_w c) @ bytes"
    and "\<forall>b. pc_ctx b = None \<longrightarrow>
      (\<exists>b'. (peer_Serve_iter log_handler ^^ (length [push_entry] + 2)) (start_sys b bytes) =
          \<lparr>ps_client = b', ps_in = \<lparr>rd_data = [], rd_err = ErrEOF\<rparr>, ps_serve = PeerReturned None\<rparr> \<and>
        pc_h b' = pc_h b @ received_all (pw_nextUpdateID (pc_w c)) [push_entry] \<and> pc_w b' = pc_w b)"
    by blast
  moreover have "length [push_entry] + 2 = 3" by simp
  ultimately have recv: "\<forall>b. pc_ctx b = None \<longrightarrow>
      (\<exists>b'. (peer_Serve_iter log_handler ^^ 3) (start_sys b bytes) =
          \<lparr>ps_client = b', ps_in = \<lparr>rd_data = [], rd_err = ErrEOF\<rparr>, ps_serve = PeerReturned None\<rparr> \<and>
        pc_h b' = pc_h b @ [received (pw_nextUpdateID (pc_w c)) push_entry])"
    by (metis received_all.simps)
  from send_definition_open [OF push_table_ok push_table_length assms(4)] sent(1) have "pw_flushed w1" by simp
  from push_entry_sent [OF this] sent(2) have one: "SendEntry push_entry w1 = (w2, Ret None)" by auto
  let ?c = "(resetLastMessage c)\<lparr>pc_lastEntryUpdate := Some (received i e), pc_w := w2,
    pc_h := pc_h c @ [Line (str ''received: '' @ tx), Line (str ''pushed blocklist entry for 10.0.0.1'')]\<rparr>"
  have "deliver (base_handler (HandlerFunc push_update)) (received i e) (resetLastMessage c) = (?c, Ret None)"
    using sent(1) one tx
    by (simp add: deliver_def base_handler_def HandlerFunc_def push_update_def resetLastMessage_def Let_def)
  from serve_entry [OF assms(1-3) this] sent(3) recv tx show ?thesis
    by (intro exI [of _ ?c] exI [of _ tx] exI [of _ bytes]) simp
qed

lemma push_answers_witness:
  "\<exists>c' b'. peer_Serve_iter (base_handler (HandlerFunc push_update))
      (start_sys ((newPeerClient [] (newWriter (open_sink [])))\<lparr>pc_lastTableDefinition := Some demo_table\<rparr>)
        (entry_msg 5 demo_entry @ [0, 4])) = start_sys c' [0, 4] \<and>
    (peer_Serve_iter log_handler ^^ 3) (start_sys (newPeerClient [] (newWriter (open_sink []))) (pw_out (pc_w c'))) =
      \<lparr>ps_client = b', ps_in = \<lparr>rd_data = [], rd_err = ErrEOF\<rparr>, ps_serve = PeerReturned None\<rparr> \<and>
    pc_h b' = [received 0 push_entry]"
proof -
  let ?w = "newWriter (open_sink [])"
  let ?c = "(newPeerClient [] ?w)\<lparr>pc_lastTableDefinition := Some demo_table\<rparr> :: log_line list pclient"
  let ?b = "newPeerClient [] ?w :: entry_update list pclient"
  have c: "pc_lastTableDefinition ?c = Some (eu_StickTable demo_entry)" "pw_flushed (pc_w ?c)"
    "pc_w ?c = ?w" "pw_out ?w = []" "pw_nextUpdateID ?w = 0" "pc_ctx ?b = None" "pc_h ?b = []"
    using newWriter_flushed [of "[]"]
    by (simp_all add: demo_entry_def newPeerClient_def newWriter_def NewWriterSize_def open_sink_def)
  from push_answers [OF demo_entry_ok demo_sendable c(1,2), of 5 "[0, 4]", unfolded c(3-5)] obtain c' bytes where
    r: "peer_Serve_iter (base_handler (HandlerFunc push_update)) (start_sys ?c (entry_msg 5 demo_entry @ [0, 4])) =
        start_sys c' [0, 4]" "pw_out (pc_w c') = [] @ bytes"
    and b: "\<forall>b. pc_ctx b = None \<longrightarrow>
      (\<exists>b'. (peer_Serve_iter log_handler ^^ 3) (start_sys b bytes) =
          \<lparr>ps_client = b', ps_in = \<lparr>rd_data = [], rd_err = ErrEOF\<rparr>, ps_serve = PeerReturned None\<rparr> \<and>
        pc_h b' = pc_h b @ [received 0 push_entry])" by blast
  from r(2) have "bytes = pw_out (pc_w c')" by simp
  with b c(6,7) obtain b' where
    "(peer_Serve_iter log_handler ^^ 3) (start_sys ?b (pw_out (pc_w c'))) =
      \<lparr>ps_client = b', ps_in = \<lparr>rd_data = [], rd_err = ErrEOF\<rparr>, ps_serve = PeerReturned None\<rparr>"
    "pc_h b' = [received 0 push_entry]" by (metis append_Nil)
  with r(1) show ?thesis by blast
qed

end
