(* ===== verification/RepeatReader.thy ===== *)
theory RepeatReader
  imports Prelude
begin

text \<open>
  The reader of the benchmarks (pkg/testutil/reader.go): it delivers its data over and over. The loop
  of \<open>Read\<close> starts again at the end of the data, so it would never return for empty data, which
  \<open>Read\<close> excludes first; here a loop that does not return, or panics, is \<open>None\<close>.
\<close>

record repeat_reader =
  rr_data :: "byte list"
  rr_offset :: nat

definition NewRepeatReader :: "byte list \<Rightarrow> repeat_reader" where
  "NewRepeatReader d = \<lparr>rr_data = d, rr_offset = 0\<rparr>"

text \<open>\<open>got\<close> is \<open>p[:n]\<close>, and \<open>m\<close> is \<open>len(p)\<close>. Cutting the data with a negative length panics.\<close>

partial_function (option) rr_loop :: "byte list \<Rightarrow> byte list \<Rightarrow> nat \<Rightarrow> nat \<Rightarrow> (byte list \<times> nat) option" where
  "rr_loop d got off m =
     (if length got < m then
        let remaining = int (length d) - int off in
        if remaining = 0 then rr_loop d got 0 m
        else
          let toCopy = min (int (m - length got)) remaining in
          if toCopy < 0 then None
          else rr_loop d (got @ take (nat toCopy) (drop off d)) (off + nat toCopy) m
      else Some (got, off))"

definition RepeatReader_Read ::
  "byte list \<Rightarrow> repeat_reader \<Rightarrow> (repeat_reader \<times> byte list \<times> nat \<times> gerr option) option" where
  "RepeatReader_Read p r =
     (if length (rr_data r) = 0 then Ret (r, p, 0, Some ErrEOF)
      else do {
        (got, off) \<leftarrow> rr_loop (rr_data r) [] (rr_offset r) (length p);
        Ret (r\<lparr>rr_offset := off\<rparr>, got @ drop (length got) p, length got, None)
      })"

section \<open>What is read\<close>

text \<open>\<open>k\<close> bytes of the endless repetition of \<open>d\<close>, from position \<open>i\<close> on.\<close>

definition repetition :: "byte list \<Rightarrow> nat \<Rightarrow> nat \<Rightarrow> byte list" where
  "repetition d i k = map (\<lambda>j. d ! ((i + j) mod length d)) [0..<k]"

lemma length_repetition [simp]: "length (repetition d i k) = k"
  by (simp add: repetition_def)

lemma repetition_append: "repetition d i (k + l) = repetition d i k @ repetition d (i + k) l"
  by (rule nth_equalityI) (auto simp: repetition_def nth_append)

lemma repetition_mod: "i mod length d = j mod length d \<Longrightarrow> repetition d i k = repetition d j k"
  unfolding repetition_def by (rule map_cong [OF refl]) (metis mod_add_left_eq)

lemma repetition_take: "off + k \<le> length d \<Longrightarrow> repetition d off k = take k (drop off d)"
  by (rule nth_equalityI) (auto simp: repetition_def)

lemma rank_less: "a < b \<Longrightarrow> 2 * a + (if P then 1 else 0) < 2 * b + (if Q then 1 else (0::nat))"
  by simp

lemma rr_loop_reads:
  assumes "d \<noteq> []" and "off \<le> length d" and "length got \<le> m"
  shows "\<exists>off'. rr_loop d got off m = Some (got @ repetition d off (m - length got), off') \<and>
    off' \<le> length d \<and> off' mod length d = (off + (m - length got)) mod length d"
  using assms
proof (induction "2 * (m - length got) + (if off = length d then 1 else 0)" arbitrary: got off rule: less_induct)
  case less
  show ?case
  proof (cases "length got < m")
    case False
    with less.prems show ?thesis by (subst rr_loop.simps) (simp add: repetition_def)
  next
    case True
    show ?thesis
    proof (cases "off = length d")
      case True
      with less.prems \<open>length got < m\<close> less.hyps [of got 0] obtain off' where
        "rr_loop d got 0 m = Some (got @ repetition d 0 (m - length got), off')" "off' \<le> length d"
        "off' mod length d = (m - length got) mod length d" by auto
      moreover have "repetition d 0 (m - length got) = repetition d off (m - length got)"
        using True by (intro repetition_mod) simp
      moreover have "(off + (m - length got)) mod length d = (m - length got) mod length d" using True by simp
      ultimately show ?thesis using True \<open>length got < m\<close> by (subst rr_loop.simps) simp
    next
      case False
      define k where "k = min (m - length got) (length d - off)"
      have k: "0 < k" "off + k \<le> length d" "length got + k \<le> m"
        using False True less.prems by (auto simp: k_def)
      let ?got = "got @ take k (drop off d)"
      have l: "length ?got = length got + k" using k(2) by simp
      have "m - length ?got < m - length got" using k l by simp
      then have "2 * (m - length ?got) + (if off + k = length d then 1 else 0) <
          2 * (m - length got) + (if off = length d then 1 else 0)" by (rule rank_less)
      from less.hyps [OF this less.prems(1) k(2)] k(3) l obtain off' where
        r: "rr_loop d ?got (off + k) m = Some (?got @ repetition d (off + k) (m - (length got + k)), off')"
          "off' \<le> length d" "off' mod length d = (off + k + (m - (length got + k))) mod length d"
        by auto
      have "min (int (m - length got)) (int (length d) - int off) = int k"
        using less.prems(2) by (simp add: k_def of_nat_min of_nat_diff)
      then have "rr_loop d got off m = rr_loop d ?got (off + k) m"
        unfolding rr_loop.simps [of d got off m] Let_def using True False less.prems(2) by simp
      moreover have "repetition d off (m - length got) = take k (drop off d) @ repetition d (off + k) (m - (length got + k))"
        using repetition_append [of d off k "m - (length got + k)"] repetition_take [OF k(2)] k(3) by simp
      moreover have "off + k + (m - (length got + k)) = off + (m - length got)" using k(3) by simp
      ultimately show ?thesis using r by (simp add: add.assoc)
    qed
  qed
qed

text \<open>\<open>Read\<close> of a repeating reader with data always returns, fills the whole slice with the next
  bytes of the endless repetition, and goes on there: a reader with the offset \<open>i\<close> behaves as one
  that is \<open>i\<close> bytes into the repetition.\<close>

lemma repeat_reader_reads:
  assumes "rr_data r \<noteq> []" and "rr_offset r \<le> length (rr_data r)"
  shows "\<exists>r'. RepeatReader_Read p r = Ret (r', repetition (rr_data r) (rr_offset r) (length p), length p, None) \<and>
    rr_data r' = rr_data r \<and> rr_offset r' \<le> length (rr_data r) \<and>
    (\<forall>k. repetition (rr_data r) (rr_offset r') k = repetition (rr_data r) (rr_offset r + length p) k)"
proof -
  from rr_loop_reads [OF assms, of "[]" "length p"] obtain off' where
    "rr_loop (rr_data r) [] (rr_offset r) (length p) =
       Some (repetition (rr_data r) (rr_offset r) (length p), off')"
    "off' \<le> length (rr_data r)" "off' mod length (rr_data r) = (rr_offset r + length p) mod length (rr_data r)"
    by auto
  with assms(1) show ?thesis
    by (auto simp: RepeatReader_Read_def intro: repetition_mod)
qed

lemma repeat_reader_reads_witness:
  "\<exists>r'. RepeatReader_Read (replicate 7 0) (NewRepeatReader [1, 2, 3]) = Ret (r', [1, 2, 3, 1, 2, 3, 1], 7, None)"
proof -
  have "repetition [1, 2, 3] 0 7 = [1, 2, 3, 1, 2, 3, 1]" by code_simp
  then show ?thesis
    using repeat_reader_reads [of "NewRepeatReader [1, 2, 3]" "replicate 7 0"]
    by (auto simp: NewRepeatReader_def)
qed

end
