(* ===== verification/PipePair.thy ===== *)
theory PipePair
  imports Prelude
begin

text \<open>
  The connection of the tests (pkg/testutil/pipeconn.go): two \<open>io.Pipe\<close>s, one for each direction, and
  a flag with its mutex on the end that is a \<open>net.Conn\<close>. A method of that end first looks at the flag
  and then calls the pipe, so \<open>Close\<close> may come between the two, as any other call may.
\<close>

section \<open>The pipes of the standard library\<close>

text \<open>
  A pipe without a buffer: the \<open>Write\<close> that holds the pipe's lock, with what it writes, how much of it
  has been read and whether any \<open>Read\<close> has met it, and the errors that closing an end leaves. Each is
  stored once.
\<close>

record pipe =
  pi_writer :: "(byte list \<times> nat \<times> bool) option"
  pi_rerr :: "gerr option"
  pi_werr :: "gerr option"

definition ErrClosedPipe :: gerr where
  "ErrClosedPipe = ErrFormat ''io: read/write on closed pipe''"

definition io_Pipe :: pipe where
  "io_Pipe = \<lparr>pi_writer = None, pi_rerr = None, pi_werr = None\<rparr>"

definition pi_done :: "pipe \<Rightarrow> bool" where
  "pi_done p \<longleftrightarrow> pi_rerr p \<noteq> None \<or> pi_werr p \<noteq> None"

definition readCloseError :: "pipe \<Rightarrow> gerr" where
  "readCloseError p = (case (pi_rerr p, pi_werr p) of (None, Some e) \<Rightarrow> e | _ \<Rightarrow> ErrClosedPipe)"

definition writeCloseError :: "pipe \<Rightarrow> gerr" where
  "writeCloseError p = (case (pi_werr p, pi_rerr p) of (None, Some e) \<Rightarrow> e | _ \<Rightarrow> ErrClosedPipe)"

definition PipeReader_Close :: "pipe \<Rightarrow> pipe \<times> gerr option" where
  "PipeReader_Close p = (if pi_rerr p = None then p\<lparr>pi_rerr := Some ErrClosedPipe\<rparr> else p, None)"

definition PipeWriter_Close :: "pipe \<Rightarrow> pipe \<times> gerr option" where
  "PipeWriter_Close p = (if pi_werr p = None then p\<lparr>pi_werr := Some ErrEOF\<rparr> else p, None)"

text \<open>\<open>Read\<close> of at most \<open>m\<close> bytes; \<open>None\<close> where it has to wait for a \<open>Write\<close>.\<close>

definition PipeReader_Read :: "nat \<Rightarrow> pipe \<Rightarrow> (pipe \<times> byte list \<times> gerr option) option" where
  "PipeReader_Read m p =
     (if pi_done p then Some (p, [], Some (readCloseError p))
      else case pi_writer p of
        Some (d, n, met) \<Rightarrow>
          if met \<and> n = length d then None
          else let nr = min m (length d - n) in
            Some (p\<lparr>pi_writer := Some (d, n + nr, True)\<rparr>, take nr (drop n d), None)
      | None \<Rightarrow> None)"

text \<open>\<open>Write\<close>: it takes the lock, or fails; later it returns, when all is read or an end is closed.\<close>

definition PipeWriter_Write :: "byte list \<Rightarrow> pipe \<Rightarrow> (pipe + gerr) option" where
  "PipeWriter_Write d p =
     (if pi_done p then Some (Inr (writeCloseError p))
      else if pi_writer p = None then Some (Inl (p\<lparr>pi_writer := Some (d, 0, False)\<rparr>))
      else None)"

definition Write_end :: "pipe \<Rightarrow> (pipe \<times> byte list \<times> nat \<times> gerr option) option" where
  "Write_end p =
     (case pi_writer p of
        Some (d, n, met) \<Rightarrow>
          if met \<and> n = length d then Some (p\<lparr>pi_writer := None\<rparr>, d, n, None)
          else if pi_done p then Some (p\<lparr>pi_writer := None\<rparr>, d, n, Some (writeCloseError p))
          else None
      | None \<Rightarrow> None)"

section \<open>The two ends\<close>

text \<open>An end points to the pipe it reads and to the pipe it writes.\<close>

record rwPipe =
  rw_r :: nat
  rw_w :: nat

record rwPipeConn =
  co_rw :: rwPipe
  co_closed :: bool

type_synonym pipes = "nat \<Rightarrow> pipe"

definition newRWPipe :: "pipes \<times> rwPipe \<times> rwPipe" where
  "newRWPipe = ((\<lambda>_. io_Pipe), \<lparr>rw_r = 0, rw_w = 1\<rparr>, \<lparr>rw_r = 1, rw_w = 0\<rparr>)"

definition PipeConn :: "pipes \<times> rwPipe \<times> rwPipeConn" where
  "PipeConn = (case newRWPipe of (st, a, b) \<Rightarrow> (st, a, \<lparr>co_rw = b, co_closed = False\<rparr>))"

text \<open>\<open>errors.Join\<close> of two results that are \<open>nil\<close> is \<open>nil\<close>.\<close>

definition errors_Join :: "gerr option \<Rightarrow> gerr option \<Rightarrow> gerr option" where
  "errors_Join e e' = (if e = None then e' else if e' = None then e else Some (ErrFormat ''joined''))"

definition rwPipe_Close :: "rwPipe \<Rightarrow> pipes \<Rightarrow> pipes \<times> gerr option" where
  "rwPipe_Close rw st =
     (let (r, e) = PipeReader_Close (st (rw_r rw)); st = st(rw_r rw := r);
          (w, e') = PipeWriter_Close (st (rw_w rw)); st = st(rw_w rw := w)
      in (st, errors_Join e e'))"

definition rwPipeConn_Close :: "rwPipeConn \<Rightarrow> pipes \<Rightarrow> rwPipeConn \<times> pipes \<times> gerr option" where
  "rwPipeConn_Close c st = (c\<lparr>co_closed := True\<rparr>, rwPipe_Close (co_rw c) st)"

text \<open>The methods of the \<open>net.Conn\<close> up to their call of the pipe: the pipe, or the error.\<close>

definition rwPipeConn_Read :: "rwPipeConn \<Rightarrow> nat + gerr" where
  "rwPipeConn_Read c = (if co_closed c then Inr ErrNetClosed else Inl (rw_r (co_rw c)))"

definition rwPipeConn_Write :: "rwPipeConn \<Rightarrow> nat + gerr" where
  "rwPipeConn_Write c = (if co_closed c then Inr ErrNetClosed else Inl (rw_w (co_rw c)))"

definition rwPipe_Read :: "rwPipe \<Rightarrow> nat" where
  "rwPipe_Read rw = rw_r rw"

definition rwPipe_Write :: "rwPipe \<Rightarrow> nat" where
  "rwPipe_Write rw = rw_w rw"

section \<open>Calls that run at the same time\<close>

datatype pipe_end = EndA | EndB

fun other_end :: "pipe_end \<Rightarrow> pipe_end" where
  "other_end EndA = EndB"
| "other_end EndB = EndA"

text \<open>What calls returned, in this order, and the end whose method it was.\<close>

datatype pipe_event =
    Read_returned pipe_end "byte list" "gerr option"
  | Write_returned pipe_end "byte list" nat "gerr option"
  | Refused gerr

text \<open>The calls that wait, each with its end and its pipe, and for each pipe the end that writes to it.\<close>

record pipe_sys =
  ps_pipes :: pipes
  ps_a :: rwPipe
  ps_b :: rwPipeConn
  ps_reads :: "(pipe_end \<times> nat \<times> nat) list"
  ps_writes :: "(pipe_end \<times> nat \<times> byte list) list"
  ps_writer :: "nat \<Rightarrow> pipe_end"
  ps_log :: "pipe_event list"

definition pipe_init :: pipe_sys where
  "pipe_init = (case PipeConn of (st, a, b) \<Rightarrow>
     \<lparr>ps_pipes = st, ps_a = a, ps_b = b, ps_reads = [], ps_writes = [], ps_writer = (\<lambda>_. EndA), ps_log = []\<rparr>)"

inductive pipe_step :: "pipe_sys \<Rightarrow> pipe_sys \<Rightarrow> bool" where
  a_read: "pipe_step s (s\<lparr>ps_reads := ps_reads s @ [(EndA, rwPipe_Read (ps_a s), m)]\<rparr>)"
| a_write: "pipe_step s (s\<lparr>ps_writes := ps_writes s @ [(EndA, rwPipe_Write (ps_a s), d)]\<rparr>)"
| b_read: "rwPipeConn_Read (ps_b s) = Inl j \<Longrightarrow> pipe_step s (s\<lparr>ps_reads := ps_reads s @ [(EndB, j, m)]\<rparr>)"
| b_write: "rwPipeConn_Write (ps_b s) = Inl j \<Longrightarrow> pipe_step s (s\<lparr>ps_writes := ps_writes s @ [(EndB, j, d)]\<rparr>)"
| b_refused: "rwPipeConn_Read (ps_b s) = Inr e \<or> rwPipeConn_Write (ps_b s) = Inr e \<Longrightarrow>
    pipe_step s (s\<lparr>ps_log := ps_log s @ [Refused e]\<rparr>)"
| read_end: "ps_reads s = xs @ (e, j, m) # ys \<Longrightarrow> PipeReader_Read m (ps_pipes s j) = Some (p, bs, err) \<Longrightarrow>
    pipe_step s (s\<lparr>ps_pipes := (ps_pipes s)(j := p), ps_reads := xs @ ys,
      ps_log := ps_log s @ [Read_returned e bs err]\<rparr>)"
| write_start: "ps_writes s = xs @ (e, j, d) # ys \<Longrightarrow> PipeWriter_Write d (ps_pipes s j) = Some (Inl p) \<Longrightarrow>
    pipe_step s (s\<lparr>ps_pipes := (ps_pipes s)(j := p), ps_writes := xs @ ys, ps_writer := (ps_writer s)(j := e)\<rparr>)"
| write_fails: "ps_writes s = xs @ (e, j, d) # ys \<Longrightarrow> PipeWriter_Write d (ps_pipes s j) = Some (Inr err) \<Longrightarrow>
    pipe_step s (s\<lparr>ps_writes := xs @ ys, ps_log := ps_log s @ [Write_returned e d 0 (Some err)]\<rparr>)"
| write_end: "Write_end (ps_pipes s j) = Some (p, d, n, err) \<Longrightarrow>
    pipe_step s (s\<lparr>ps_pipes := (ps_pipes s)(j := p), ps_log := ps_log s @ [Write_returned (ps_writer s j) d n err]\<rparr>)"
| a_close: "rwPipe_Close (ps_a s) (ps_pipes s) = (st, err) \<Longrightarrow> pipe_step s (s\<lparr>ps_pipes := st\<rparr>)"
| b_close: "rwPipeConn_Close (ps_b s) (ps_pipes s) = (b, st, err) \<Longrightarrow> pipe_step s (s\<lparr>ps_b := b, ps_pipes := st\<rparr>)"

definition pipe_reachable :: "pipe_sys \<Rightarrow> bool" where
  "pipe_reachable s \<longleftrightarrow> rtranclp pipe_step pipe_init s"

section \<open>What goes from one end to the other\<close>

text \<open>The pipe that an end reads, and the one it writes.\<close>

definition read_pipe :: "pipe_sys \<Rightarrow> pipe_end \<Rightarrow> nat" where
  "read_pipe s e = (case e of EndA \<Rightarrow> rw_r (ps_a s) | EndB \<Rightarrow> rw_r (co_rw (ps_b s)))"

definition write_pipe :: "pipe_sys \<Rightarrow> pipe_end \<Rightarrow> nat" where
  "write_pipe s e = (case e of EndA \<Rightarrow> rw_w (ps_a s) | EndB \<Rightarrow> rw_w (co_rw (ps_b s)))"

text \<open>What an end has read, what its writes that returned say was read of them, and the same of its
  write that is under way.\<close>

definition read_by :: "pipe_end \<Rightarrow> pipe_event list \<Rightarrow> byte list" where
  "read_by e log = concat (map (\<lambda>x. case x of Read_returned i bs _ \<Rightarrow> if i = e then bs else [] | _ \<Rightarrow> []) log)"

definition written_by :: "pipe_end \<Rightarrow> pipe_event list \<Rightarrow> byte list" where
  "written_by e log = concat (map (\<lambda>x. case x of Write_returned i d n _ \<Rightarrow> if i = e then take n d else [] | _ \<Rightarrow> []) log)"

definition under_way :: "pipe \<Rightarrow> byte list" where
  "under_way p = (case pi_writer p of Some (d, n, _) \<Rightarrow> take n d | None \<Rightarrow> [])"

lemma log_append [simp]:
  "read_by e (log @ [x]) = read_by e log @ (case x of Read_returned i bs _ \<Rightarrow> if i = e then bs else [] | _ \<Rightarrow> [])"
  "written_by e (log @ [x]) = written_by e log @ (case x of Write_returned i d n _ \<Rightarrow> if i = e then take n d else [] | _ \<Rightarrow> [])"
  by (simp_all add: read_by_def written_by_def)

definition counted :: "pipe_event \<Rightarrow> bool" where
  "counted x = (case x of Write_returned _ d n err \<Rightarrow> n \<le> length d \<and> (err = None \<longrightarrow> n = length d) | _ \<Rightarrow> True)"

definition writer_ok :: "pipe \<Rightarrow> bool" where
  "writer_ok p = (case pi_writer p of Some (d, n, met) \<Rightarrow> n \<le> length d \<and> (met \<or> n = 0) | None \<Rightarrow> True)"

text \<open>The pipe from an end to the other: 1 from \<open>EndA\<close>, 0 from \<open>EndB\<close>.\<close>

fun pipe_from :: "pipe_end \<Rightarrow> nat" where
  "pipe_from EndA = 1"
| "pipe_from EndB = 0"

lemma pipe_from_inj [simp]: "pipe_from e = pipe_from e' \<longleftrightarrow> e = e'"
  by (cases e; cases e') simp_all

lemma other_end_simps [simp]: "other_end (other_end e) = e" "other_end e = other_end e' \<longleftrightarrow> e = e'"
  by (cases e; cases e'; simp)+

definition pipe_inv :: "pipe_sys \<Rightarrow> bool" where
  "pipe_inv s \<longleftrightarrow>
     ps_a s = \<lparr>rw_r = pipe_from EndB, rw_w = pipe_from EndA\<rparr> \<and>
     co_rw (ps_b s) = \<lparr>rw_r = pipe_from EndA, rw_w = pipe_from EndB\<rparr> \<and>
     (\<forall>(e, j, m) \<in> set (ps_reads s). j = pipe_from (other_end e)) \<and>
     (\<forall>(e, j, d) \<in> set (ps_writes s). j = pipe_from e) \<and>
     (\<forall>j. pi_writer (ps_pipes s j) \<noteq> None \<longrightarrow> j = pipe_from (ps_writer s j)) \<and>
     (co_closed (ps_b s) \<longrightarrow> (\<forall>e. pi_done (ps_pipes s (pipe_from e)))) \<and>
     (\<forall>j. writer_ok (ps_pipes s j)) \<and>
     (\<forall>e. read_by (other_end e) (ps_log s) = written_by e (ps_log s) @ under_way (ps_pipes s (pipe_from e))) \<and>
     (\<forall>x \<in> set (ps_log s). counted x)"

lemma read_pipe_step:
  assumes "PipeReader_Read m p = Some (p', bs, err)" "writer_ok p"
  shows "writer_ok p'" "under_way p' = under_way p @ bs" "pi_done p' = pi_done p" "pi_writer p = None \<Longrightarrow> pi_writer p' = None"
  using assms
  by (auto simp: PipeReader_Read_def writer_ok_def under_way_def pi_done_def Let_def take_add
      split: if_split_asm option.split_asm prod.split_asm)

lemma write_start_step:
  assumes "PipeWriter_Write d p = Some (Inl p')"
  shows "writer_ok p'" "under_way p' = under_way p" "pi_done p' = pi_done p"
  using assms by (auto simp: PipeWriter_Write_def writer_ok_def under_way_def pi_done_def split: if_split_asm)

lemma write_end_step:
  assumes "Write_end p = Some (p', d, n, err)" "writer_ok p"
  shows "writer_ok p'" "under_way p = take n d" "under_way p' = []" "pi_done p' = pi_done p"
    and "counted (Write_returned e d n err)" "pi_writer p' = None" "pi_writer p \<noteq> None"
  using assms
  by (auto simp: Write_end_def writer_ok_def under_way_def pi_done_def counted_def
      split: if_split_asm option.split_asm prod.split_asm)

lemma close_pipe [simp]:
  "pi_writer (fst (PipeReader_Close p)) = pi_writer p" "pi_writer (fst (PipeWriter_Close p)) = pi_writer p"
  "pi_done (fst (PipeReader_Close p))" "pi_done (fst (PipeWriter_Close p))"
  by (simp_all add: PipeReader_Close_def PipeWriter_Close_def pi_done_def)

lemma close_pipes:
  assumes "rwPipe_Close rw st = (st', err)"
  shows "pi_writer (st' j) = pi_writer (st j)" "j = rw_r rw \<or> j = rw_w rw \<Longrightarrow> pi_done (st' j)" "pi_done (st j) \<Longrightarrow> pi_done (st' j)"
  using assms by (auto simp: rwPipe_Close_def Let_def split: prod.splits)
    (metis close_pipe fst_conv)+

lemma close_inv:
  assumes "pipe_inv s" "rwPipe_Close rw (ps_pipes s) = (st, err)"
  shows "pipe_inv (s\<lparr>ps_pipes := st\<rparr>)"
  using assms(1) close_pipes [OF assms(2)]
  unfolding pipe_inv_def writer_ok_def under_way_def by simp

lemma pipe_inv_init: "pipe_inv pipe_init"
  by (simp add: pipe_inv_def pipe_init_def PipeConn_def newRWPipe_def io_Pipe_def writer_ok_def under_way_def
      read_by_def written_by_def)

lemma pipe_step_inv:
  assumes "pipe_step s s'" "pipe_inv s"
  shows "pipe_inv s'"
  using assms
proof (induction rule: pipe_step.induct)
  case (read_end s xs e j m ys p bs err)
  then have "writer_ok (ps_pipes s j)" "j = pipe_from (other_end e)" by (auto simp: pipe_inv_def)
  note p = read_pipe_step [OF read_end(2) this(1)]
  have "pi_writer p \<noteq> None \<longrightarrow> ps_writer s j = other_end e"
    using p(4) read_end(3) \<open>j = _\<close> unfolding pipe_inv_def by (metis pipe_from_inj)
  with p read_end(1,3) \<open>j = _\<close> show ?case
    unfolding pipe_inv_def by (auto simp: counted_def)
next
  case (write_start s xs e j d ys p)
  then have "j = pipe_from e" by (auto simp: pipe_inv_def)
  with write_start_step [OF write_start(2)] write_start(1,3) show ?case unfolding pipe_inv_def by auto
next
  case (write_fails s xs e j d ys err)
  then show ?case unfolding pipe_inv_def by (auto simp: counted_def)
next
  case (write_end s j p d n err)
  then have w: "writer_ok (ps_pipes s j)" by (auto simp: pipe_inv_def)
  from write_end_step [OF write_end(1) w] write_end(2) have "j = pipe_from (ps_writer s j)" by (auto simp: pipe_inv_def)
  then obtain e where "j = pipe_from e" "ps_writer s (pipe_from e) = e" by metis
  with write_end_step [OF write_end(1) w] write_end(2) show ?case unfolding pipe_inv_def by auto
next
  case (a_close s st err)
  then show ?case by (rule close_inv [rotated])
next
  case (b_close s b st err)
  then have st: "rwPipe_Close (co_rw (ps_b s)) (ps_pipes s) = (st, err)" and b: "b = (ps_b s)\<lparr>co_closed := True\<rparr>"
    by (auto simp: rwPipeConn_Close_def)
  have "pi_done (st (pipe_from e))" for e
    using close_pipes(2) [OF st, of "pipe_from e"] b_close(2) by (cases e) (auto simp: pipe_inv_def)
  with close_inv [OF b_close(2) st] b show ?case unfolding pipe_inv_def by simp
qed (auto simp: pipe_inv_def rwPipe_Read_def rwPipe_Write_def rwPipeConn_Read_def rwPipeConn_Write_def counted_def
    split: if_split_asm)

lemma pipe_reachable_inv: "pipe_reachable s \<Longrightarrow> pipe_inv s"
  unfolding pipe_reachable_def
  by (induction rule: rtranclp_induct) (auto intro: pipe_inv_init pipe_step_inv)

text \<open>Whether a call of an end waits, and that none of the calls that wait can go on.\<close>

definition read_waits :: "pipe_sys \<Rightarrow> pipe_end \<Rightarrow> bool" where
  "read_waits s e \<longleftrightarrow> e \<in> fst ` set (ps_reads s)"

definition write_waits :: "pipe_sys \<Rightarrow> pipe_end \<Rightarrow> bool" where
  "write_waits s e \<longleftrightarrow> e \<in> fst ` set (ps_writes s) \<or> (\<exists>j. pi_writer (ps_pipes s j) \<noteq> None \<and> ps_writer s j = e)"

definition stuck :: "pipe_sys \<Rightarrow> bool" where
  "stuck s \<longleftrightarrow>
     (\<forall>(e, j, m) \<in> set (ps_reads s). PipeReader_Read m (ps_pipes s j) = None) \<and>
     (\<forall>(e, j, d) \<in> set (ps_writes s). PipeWriter_Write d (ps_pipes s j) = None) \<and>
     (\<forall>j. Write_end (ps_pipes s j) = None)"

lemma waiting_pipe:
  assumes "pipe_inv s"
  shows "read_waits s (other_end e) \<Longrightarrow> \<exists>m. (other_end e, pipe_from e, m) \<in> set (ps_reads s)"
    and "write_waits s e \<Longrightarrow> (\<exists>d. (e, pipe_from e, d) \<in> set (ps_writes s)) \<or> pi_writer (ps_pipes s (pipe_from e)) \<noteq> None"
  using assms by (fastforce simp: pipe_inv_def read_waits_def write_waits_def)+

lemma stuck_pipe:
  assumes "stuck s" "pipe_inv s"
  shows "\<not> (read_waits s (other_end e) \<and> write_waits s e)"
    and "pi_done (ps_pipes s (pipe_from e)) \<Longrightarrow> \<not> read_waits s (other_end e) \<and> \<not> write_waits s e"
proof -
  let ?p = "ps_pipes s (pipe_from e)"
  have w: "writer_ok ?p" using assms(2) by (simp add: pipe_inv_def)
  have r: "PipeReader_Read m ?p = None" if "(other_end e, pipe_from e, m) \<in> set (ps_reads s)" for m
    using assms(1) that by (auto simp: stuck_def)
  have wr: "PipeWriter_Write d ?p = None" if "(e, pipe_from e, d) \<in> set (ps_writes s)" for d
    using assms(1) that by (auto simp: stuck_def)
  have we: "Write_end ?p = None" using assms(1) by (simp add: stuck_def)
  have never: False if "PipeReader_Read m ?p = None" "PipeWriter_Write d ?p = None \<or> pi_writer ?p \<noteq> None" for m d
    using that we w by (auto simp: PipeReader_Read_def PipeWriter_Write_def Write_end_def writer_ok_def Let_def
        split: if_split_asm option.split_asm prod.split_asm)
  show "\<not> (read_waits s (other_end e) \<and> write_waits s e)"
    using waiting_pipe [OF assms(2), of e] r wr never by blast
  assume d: "pi_done ?p"
  have "PipeReader_Read m ?p \<noteq> None" "PipeWriter_Write dat ?p \<noteq> None" for m dat
    using d by (simp_all add: PipeReader_Read_def PipeWriter_Write_def)
  moreover have "pi_writer ?p = None" using d we by (auto simp: Write_end_def split: option.split_asm if_split_asm)
  ultimately show "\<not> read_waits s (other_end e) \<and> \<not> write_waits s e"
    using waiting_pipe [OF assms(2), of e] r wr by blast
qed

text \<open>C39: in every reachable state of the two ends of a \<open>PipeConn\<close>, with any number of calls on both that
  run at the same time: what an end has read is what the writes of the other end say was read of
  them, in their order, and of the one under way; a \<open>Write\<close> without an error was read as a whole. When
  no call can go on, no \<open>Read\<close> of an end and \<open>Write\<close> of the other wait for each other, and once the
  \<open>net.Conn\<close> is closed no call of either end waits: those that waited have returned, and new calls of
  the methods of the \<open>net.Conn\<close> fail with \<open>net.ErrClosed\<close>.\<close>

theorem pipe_conn_streams:
  assumes "pipe_reachable s"
  shows "read_by (other_end e) (ps_log s) = written_by e (ps_log s) @ under_way (ps_pipes s (write_pipe s e)) \<and>
    list_all counted (ps_log s) \<and>
    (stuck s \<longrightarrow> \<not> (read_waits s (other_end e) \<and> write_waits s e)) \<and>
    (co_closed (ps_b s) \<longrightarrow>
       rwPipeConn_Read (ps_b s) = Inr ErrNetClosed \<and> rwPipeConn_Write (ps_b s) = Inr ErrNetClosed \<and>
       (stuck s \<longrightarrow> \<not> read_waits s (other_end e) \<and> \<not> write_waits s e))"
proof -
  from pipe_reachable_inv [OF assms] have inv: "pipe_inv s" .
  then have "write_pipe s e = pipe_from e" by (cases e) (simp_all add: pipe_inv_def write_pipe_def)
  with inv stuck_pipe [OF _ inv] show ?thesis
    unfolding pipe_inv_def list_all_iff by (auto simp: rwPipeConn_Read_def rwPipeConn_Write_def)
qed

text \<open>A write of the \<open>net.Conn\<close> that is read by the other end in two parts, and the state after it is closed.\<close>

definition demo_pipes :: pipe_sys where
  "demo_pipes = \<lparr>
     ps_pipes = (\<lambda>_. io_Pipe)(1 := \<lparr>pi_writer = None, pi_rerr = Some ErrClosedPipe, pi_werr = None\<rparr>,
       0 := \<lparr>pi_writer = None, pi_rerr = None, pi_werr = Some ErrEOF\<rparr>),
     ps_a = \<lparr>rw_r = 0, rw_w = 1\<rparr>, ps_b = \<lparr>co_rw = \<lparr>rw_r = 1, rw_w = 0\<rparr>, co_closed = True\<rparr>,
     ps_reads = [], ps_writes = [], ps_writer = (\<lambda>_. EndA)(0 := EndB),
     ps_log = [Read_returned EndA [100, 101] None, Read_returned EndA [102] None,
       Write_returned EndB [100, 101, 102] 3 None]\<rparr>"

lemma demo_pipes_reachable: "pipe_reachable demo_pipes" (is "pipe_reachable ?Z")
proof -
  let ?S = "\<lambda>p b rs ws wr log. \<lparr>ps_pipes = (\<lambda>_. io_Pipe)(0 := p), ps_a = \<lparr>rw_r = 0, rw_w = 1\<rparr>,
    ps_b = \<lparr>co_rw = \<lparr>rw_r = 1, rw_w = 0\<rparr>, co_closed = b\<rparr>, ps_reads = rs, ps_writes = ws, ps_writer = wr, ps_log = log\<rparr>"
  let ?P = "\<lambda>w. \<lparr>pi_writer = w, pi_rerr = None, pi_werr = None\<rparr>"
  let ?d = "[100, 101, 102] :: byte list" and ?A = "\<lambda>_. EndA"
  let ?B = "?A(0 := EndB)"
  let ?l1 = "[Read_returned EndA [100, 101] None]"
  let ?l2 = "?l1 @ [Read_returned EndA [102] None]"
  let ?l3 = "?l2 @ [Write_returned EndB ?d 3 None]"
  have 0: "pipe_init = ?S (?P None) False [] [] ?A []"
    by (simp add: pipe_init_def PipeConn_def newRWPipe_def io_Pipe_def fun_eq_iff)
  have 1: "pipe_step (?S (?P None) False [] [] ?A []) (?S (?P None) False [] [(EndB, 0, ?d)] ?A [])"
    using pipe_step.b_write [of "?S (?P None) False [] [] ?A []" 0 ?d] by (simp add: rwPipeConn_Write_def)
  have 2: "pipe_step (?S (?P None) False [] [(EndB, 0, ?d)] ?A []) (?S (?P (Some (?d, 0, False))) False [] [] ?B [])"
    using pipe_step.write_start [of "?S (?P None) False [] [(EndB, 0, ?d)] ?A []" "[]" EndB 0 ?d "[]"]
    by (simp add: PipeWriter_Write_def pi_done_def)
  have 3: "pipe_step (?S (?P (Some (?d, n, met))) False [] [] ?B log)
      (?S (?P (Some (?d, n, met))) False [(EndA, 0, 2)] [] ?B log)" for n met log
    using pipe_step.a_read [of "?S (?P (Some (?d, n, met))) False [] [] ?B log" 2] by (simp add: rwPipe_Read_def)
  have 4: "pipe_step (?S (?P (Some (?d, 0, False))) False [(EndA, 0, 2)] [] ?B []) (?S (?P (Some (?d, 2, True))) False [] [] ?B ?l1)"
    using pipe_step.read_end [of "?S (?P (Some (?d, 0, False))) False [(EndA, 0, 2)] [] ?B []" "[]" EndA 0 2 "[]"]
    by (simp add: PipeReader_Read_def pi_done_def numeral_2_eq_2)
  have 5: "pipe_step (?S (?P (Some (?d, 2, True))) False [(EndA, 0, 2)] [] ?B ?l1) (?S (?P (Some (?d, 3, True))) False [] [] ?B ?l2)"
    using pipe_step.read_end [of "?S (?P (Some (?d, 2, True))) False [(EndA, 0, 2)] [] ?B ?l1" "[]" EndA 0 2 "[]"]
    by (simp add: PipeReader_Read_def pi_done_def numeral_3_eq_3)
  have 6: "pipe_step (?S (?P (Some (?d, 3, True))) False [] [] ?B ?l2) (?S (?P None) False [] [] ?B ?l3)"
    using pipe_step.write_end [of "?S (?P (Some (?d, 3, True))) False [] [] ?B ?l2" 0] by (simp add: Write_end_def)
  have 7: "pipe_step (?S (?P None) False [] [] ?B ?l3) ?Z"
    using pipe_step.b_close [of "?S (?P None) False [] [] ?B ?l3"]
    by (simp add: demo_pipes_def rwPipeConn_Close_def rwPipe_Close_def PipeReader_Close_def PipeWriter_Close_def io_Pipe_def fun_upd_twist)
  from 1 2 3 4 3 5 6 7 have "rtranclp pipe_step (?S (?P None) False [] [] ?A []) ?Z"
    by (meson converse_rtranclp_into_rtranclp rtranclp.rtrancl_refl)
  then show ?thesis unfolding pipe_reachable_def 0 .
qed

lemma pipe_conn_streams_witness:
  "co_closed (ps_b demo_pipes) \<and> rwPipeConn_Read (ps_b demo_pipes) = Inr ErrNetClosed \<and>
   written_by EndB (ps_log demo_pipes) @ under_way (ps_pipes demo_pipes (write_pipe demo_pipes EndB)) = [100, 101, 102]"
proof -
  have "co_closed (ps_b demo_pipes)" "read_by (other_end EndB) (ps_log demo_pipes) = [100, 101, 102]"
    by (simp_all add: demo_pipes_def read_by_def)
  with pipe_conn_streams [OF demo_pipes_reachable, of EndB] show ?thesis by metis
qed

end
