(* ===== verification/Spec2Isabelle.thy ===== *)
theory Spec2Isabelle
  imports SpopSession SpopAgentWrites PeerExamples RepeatReader PipePair
begin

text \<open>
  A model of haproxy-go: the libraries with which a Go program talks to HAProxy, as an agent of the
  Stream Processing Offload Protocol (src/spop over src/pkg) and as a peer that receives and sends
  stick tables (src/peers over src/pkg). Both are servers of untrusted bytes: the theorems are about
  what is read from and written to the wire, on every branch, errors and panics included.

  CONVENTIONS (theory \<open>Prelude\<close>). A Go panic is \<open>None\<close>; a result \<open>(x, err)\<close> is a pair whose second
  part is \<open>None\<close> for \<open>nil\<close>; a method on a pointer takes and returns the record it points to. Go slices
  are \<open>Slice vis spare\<close>: the elements up to the length and those up to the capacity, which \<open>b[:n]\<close> can
  reach. A write through a sub-slice is threaded back with \<open>splice\<close>. \<open>make\<close> panics beyond 2 to the 48
  bytes. Machine integers are words; Go ints that are only lengths are \<open>nat\<close>. Where the state that a
  panic leaves behind matters, a function returns the state and the outcome separately.

  THEORIES, in the order of the code.

  \<open>Varint\<close>, \<open>Codec\<close>: pkg/encoding/varint.go (\<open>PutVarint\<close>, \<open>Varint\<close>, \<open>ReadVarint\<close>), compared with one
  reference encoding; the locales \<open>putter\<close>, \<open>strict_putter\<close>, \<open>codec\<close>, \<open>strict_codec\<close> are the contract of
  every marshaller (it writes the encoding where it fits, reports the lack of room, reads back what
  was written) and are interpreted on the varint functions here and on the stick-table marshallers.
  \<open>Encoding\<close>: pkg/encoding/encoding.go. \<open>KVFormat\<close>, \<open>WriteBuf\<close>, \<open>KVWriter\<close>, \<open>ActionWriter\<close>:
  the writers of keys with typed values and of actions (kvwriter.go, actionwriter.go).
  \<open>KVScanner\<close>, \<open>MessageScanner\<close>: kvscanner.go and messagescanner.go, with the pools of entries and
  messages. \<open>KVUnmarshal\<close>: kvunmarshal.go, which fills the tagged fields of a struct; the struct is
  a list of fields with the facts that reflection reads of them. \<open>SliceBuffer\<close>: pkg/buffer/slicebuf.go.

  \<open>NetIO\<close>: a connection: the bytes to come with the error after them, and a sink that may fail
  after any number of bytes (\<open>sk_room\<close>) or because it was closed (\<open>sk_closed\<close>). \<open>Frame\<close>, \<open>Frames\<close>: spop/frame.go, frames.go, error.go: the pool, the
  header, reading with a limit, and the three frames an agent sends. \<open>Scheduler\<close>: the queue of
  spop/scheduler.go as a ring buffer (locale \<open>bounded_queue\<close>) under a monitor with condition
  variables; its step relation \<open>mstep\<close> interleaves calls of \<open>Put\<close> and \<open>Get\<close> in any order.
  \<open>SpopProtocol\<close>: spop/protocol.go: the client, the handlers of HELLO, NOTIFY and DISCONNECT,
  \<open>Close\<close>, and \<open>wrapPanic\<close> of agent.go. \<open>SpopServe\<close>: \<open>Serve\<close> and the steps \<open>sstep\<close> of a connection:
  reading, workers that take any queued frame, and the end of the connection. \<open>SpopAgent\<close>:
  \<open>Agent.Serve\<close>: the listener, its connections and the shared queue with its fixed set of workers;
  each connection is seen by itself through \<open>view\<close>, which turns a step of the agent into a step or
  a pause of \<open>sstep\<close>. In both a worker handles a frame in one step; \<open>SpopWrites\<close> takes the up to three
  calls of \<open>Write\<close> apart that a frame needs (step relation \<open>wstep\<close>), and shows that \<open>sstep\<close> is enough
  for a client that waits for its answers; \<open>SpopAgentWrites\<close> does so for the whole agent (step
  relation \<open>wa_step\<close>), again through the view of each connection, \<open>wview\<close>.

  \<open>Cursor\<close>: the shape of the stick-table marshallers: an offset, steps with early return, and what
  such a function adds to a buffer (\<open>adds\<close>, \<open>adds_strictly\<close>). \<open>StickTypes\<close>, \<open>StickValues\<close>,
  \<open>StickTables\<close>: peers/sticktable/constants.go, values.go, sticktables.go: key and data types, their
  values, table definitions and entry updates, in both directions.
  \<open>BufIO\<close>: \<open>bufio.Writer\<close> with its buffer and sticking error. \<open>PeerWriter\<close>: peers/constants.go and
  writer.go, with the mutex as a flag. \<open>PeerProtocol\<close>: peers/protocol.go: raw messages, the handlers
  of the message classes, one round of \<open>Serve\<close>. \<open>Peers\<close>: replication from one end to the other, and
  the steps \<open>pstep\<close> of a connection: \<open>Serve\<close>, heartbeat, timer, sending goroutines, the end.
  \<open>LineScanner\<close>, \<open>Scanf\<close>: what the handshake uses of \<open>bufio.Scanner\<close> (input that arrives in segments,
  an over-read that is lost with the scanner) and of \<open>fmt.Sscanf\<close> (runes, \<open>%s\<close>, \<open>%d\<close>, spaces).
  \<open>PeerHandshake\<close>: peers/messages.go, \<open>peerHandshake\<close> and the start of \<open>Serve\<close>. \<open>PeerListener\<close>:
  peers/peers.go: the accept loop, the handler's source and the connections side by side.

  \<open>Stringers\<close>: the generated \<open>String\<close> methods with their name and index tables (constants_string.go),
  instances of the locale \<open>named_consts\<close>. \<open>StickText\<close>: \<open>String\<close> of keys, values and entry updates, with
  the texts of addresses. \<open>SpopExample\<close>, \<open>PeerExamples\<close>: \<open>HandlerFunc\<close> and the handlers of the example
  programs, which make the theorems on agents and peers theorems on whole programs (locale
  \<open>writer_client\<close>). \<open>SpopSession\<close>: a whole session of an agent whose handler answers (locale
  \<open>notify_answerer\<close>, of which the example handler is the instance). \<open>RepeatReader\<close>, \<open>PipePair\<close>: the
  reader of the benchmarks and the connection of the tests (pkg/testutil/reader.go, pipeconn.go).

  WHAT THE THEOREMS SHOW. Round trips: varints, key-value lists (\<open>kv_write_scan\<close> below), SPOP frames,
  table definitions, entry updates, the handshake however it is cut into segments
  (\<open>handshake_roundtrip\<close>), and whole peers connections (\<open>replication\<close>, \<open>peer_session\<close>). Whole
  programs: the example agent from a NOTIFY to the bytes of its ACK (\<open>header_to_body\<close>), the example
  \<open>push\<close> from the bytes of an entry to the entry that the other end reads (\<open>push_answers\<close>). Output: in
  every reachable state of the whole agent and of the whole peers listener each connection has sent
  whole frames or messages, in an order the protocol allows, cut off only by a failing connection
  (\<open>agent_output_calls\<close>, \<open>peers_output\<close>, over the lemmas \<open>connection_output\<close> and
  \<open>peer_connection_output\<close> for one connection). The agent's steps are its single calls of \<open>Write\<close>:
  with clients that wait for their answers the calls refine a model in which each frame is handled in
  one step (\<open>unpipelined_output\<close>; the coarse agent has the lemma \<open>agent_output\<close>); the output is stated
  with the calls of \<open>Write\<close> that are still to come, the function \<open>flush\<close>, and a part of a frame can only
  end it where the connection takes no more bytes. In a session
  with the example agent every NOTIFY of one message that fits, as does its ACK, is answered exactly
  once (\<open>notifies_answered_once\<close>); the answers to a client that does not
  wait can be mixed up (\<open>pipelined_acks_mixed\<close>). Input: what \<open>Serve\<close> accepts and rejects, that it never
  runs the handler before the HELLO or the handshake, that handlers only see updates typed by their
  table, and which fields of a struct \<open>Unmarshal\<close> sets (\<open>unmarshal_struct\<close>). Texts: the generated
  tables agree with the constants (\<open>string_methods\<close>), and what was received prints (\<open>entry_text\<close>).
  The connection of the tests brings what one end writes to the other, in order (\<open>pipe_conn_streams\<close>). Refinement: the ring
  buffer under its monitor is a bounded FIFO list without lost wake-ups. Termination and progress:
  both \<open>Serve\<close> loops are instances of the locale \<open>consuming_loop\<close>, and the agent's workers can always
  drain the queue (\<open>agent_drains\<close>). Some theorems state what the code does where it is probably not
  meant: a NOTIFY of several messages reaches the handler with the first only, a setter panics when
  a key fills the buffer, short messages panic, short dictionary entries are lost, an expired timer
  does not end \<open>Serve\<close>, \<open>SendEntry\<close> can leave the mutex locked, a pointer field that is not exported
  makes \<open>Unmarshal\<close> panic, and what a peer sends in one segment with its handshake is lost.

  FUEL AND BOUNDS. No definition needs fuel: loops are structural or terminate by the bytes left;
  the one that need not return, of the repeating reader, is a partial function that is shown to.
  The reading loops of connections are iterated rounds; \<open>serve_ends\<close> and \<open>peer_serve_ends\<close> bound the
  number of rounds by the bytes of the input.

  PARAMETERS AND THEIR LAWS. The user's handler is a parameter. \<open>handler_ok\<close> (SPOP) and
  \<open>peer_handler_ok\<close> (peers) state that a handler acts on the writer it is given through the writer's
  methods only; the second holds of every method by the lemmas of \<open>PeerWriter\<close>.
  \<open>handshake_handler_ok\<close> states the same of a handler's \<open>HandleHandshake\<close>. The example handlers keep
  them (\<open>headers_handler_ok\<close>, \<open>handler_func_ok\<close>). The host's name and the process id are arguments of
  \<open>NewHandshake\<close>; the Prometheus gauge of an example is an argument of \<open>export_update\<close>.

  NOT MODELLED: \<open>ListenAndServe\<close> and the examples' \<open>main\<close>, which only open a listener and call \<open>Serve\<close>;
  memory sharing of a frame's bytes with entries after the frame has gone back to its pool, and the
  return to the pool of a frame whose handler panics (the pool may lose frames at any time); handlers
  of two frames that run at the same time on the state they share; time
  (heartbeat and timer are steps that may happen at any moment once started); nil pointers inside
  interface values; test support that starts processes, listens or writes files,
  and the vet tool, which calls third-party analysers.
\<close>

section \<open>Properties across components\<close>

lemma supto_vis: "n \<le> slen b \<Longrightarrow> supto b n = Ret (Slice (take n (vis b)) (drop n (vis b) @ spare b))"
  by (cases b) (simp add: supto_def sbetween_def scap_def)

text \<open>C18: what the key-value writer writes, the scanner reads back: for every list of keys and
  typed values that fits, writing succeeds, and scanning the written bytes delivers the same
  keys with the same typed values, in order and without an error. An IPv6 zone is not sent.\<close>

theorem kv_write_scan:
  assumes "\<forall>kv \<in> set kvs. wf_kv kv" and "length (concat (map kv_enc kvs)) \<le> slen buf"
  shows "\<exists>w b es. write_all kv_set kvs (NewKVWriter buf 0) = Ret (w, None) \<and> KVWriter_Bytes w = Ret b \<and>
    scan_all (NewKVScanner b cnt) = Ret (es, None) \<and> map ke_name es = map fst kvs \<and>
    map KVEntry_Value es = map (\<lambda>kv. Ret (case snd kv of VAddr a \<Rightarrow> VAddr (drop_zone a) | v \<Rightarrow> v)) kvs"
proof -
  have "kw_inv (NewKVWriter buf 0)" "kw_room (NewKVWriter buf 0) (length (concat (map kv_enc kvs)))"
    using assms(2) by (simp_all add: NewKVWriter_def kw_inv_def kw_room_def)
  from kvw.write_all_ok [OF assms(1) this] obtain w where
    w: "write_all kv_set kvs (NewKVWriter buf 0) = Ret (w, None)" "kw_inv w"
      "wb_out w = concat (map kv_enc kvs)" by (auto simp: wb_out_def NewKVWriter_def)
  then obtain sp where b: "KVWriter_Bytes w = Ret (Slice (concat (map kv_enc kvs)) sp)"
    by (simp add: KVWriter_Bytes_def supto_vis kw_inv_def wb_out_def)
  have s: "scan_all (NewKVScanner (Slice (concat (map kv_enc kvs)) sp) cnt) = Ret (map entry_of kvs, None)"
    by (rule scan_all_enc [OF assms(1)])
  have "map ke_name (map entry_of kvs) = map fst kvs" by (simp add: entry_of_def)
  moreover have "map KVEntry_Value (map entry_of kvs) =
      map (\<lambda>kv. Ret (case snd kv of VAddr a \<Rightarrow> VAddr (drop_zone a) | v \<Rightarrow> v)) kvs"
    using assms(1) by (auto simp: KVEntry_Value_entry_of)
  ultimately show ?thesis using w(1) b s by blast
qed

lemma kv_write_scan_witness:
  "\<exists>w b es. write_all kv_set [([107], VInt32 7), ([97], VBool True)] (NewKVWriter (Slice (replicate 20 0) []) 0) =
      Ret (w, None) \<and> KVWriter_Bytes w = Ret b \<and> scan_all (NewKVScanner b (-1)) = Ret (es, None) \<and>
    map KVEntry_Value es = [Ret (VInt32 7), Ret (VBool True)]"
proof -
  let ?kvs = "[([107], VInt32 7), ([97], VBool True)]"
  have "\<forall>kv \<in> set ?kvs. wf_kv kv" by (simp add: wf_kv_def len_ok_def)
  moreover have "length (concat (map kv_enc ?kvs)) \<le> slen (Slice (replicate 20 0) [])"
    by (simp add: kv_enc_def bytes_enc_def varint_enc_def)
  ultimately show ?thesis using kv_write_scan [of ?kvs "Slice (replicate 20 0) []" "-1"] by auto
qed

end
